(* ===== verification/Prelude.thy ===== *)
theory Prelude
  imports Main "HOL-Library.Word"
begin

text \<open>
  Shared vocabulary of the development: the integer widths of the C code, bytes and C
  strings, the memory of a packet buffer, big-endian 16-bit fields, and the generic
  lemmas the component theories rely on.

  A byte is a HOL character; a C string is the list of its bytes before the terminating
  NUL; a \<open>char\<close> array that the code fills in place is a function from offsets to bytes
  (\<open>cbuf\<close>), so that bytes left over from an earlier packet stay visible, as they do
  in the static arrays of the program.
\<close>

named_theorems tftp_simps \<open>field and buffer equations used by the component proofs\<close>
named_theorems subs_simps \<open>equations of the two-buffer layer\<close>

type_synonym u8 = "8 word"
type_synonym u16 = "16 word"
type_synonym u32 = "32 word"
type_synonym u64 = "64 word"

type_synonym cbuf = "nat \<Rightarrow> char"

abbreviation NUL :: char where "NUL \<equiv> CHR 0x00"
abbreviation LF :: char where "LF \<equiv> CHR 0x0A"
abbreviation CR :: char where "CR \<equiv> CHR 0x0D"

text \<open>Undefined behaviour the code can run into, as a value.\<close>

datatype fault = Out_of_bounds | Bad_copy_length

subsection \<open>Character codes\<close>

text \<open>The value of a plain (signed) \<open>char\<close> when it is promoted to \<open>int\<close>.\<close>

definition schar :: "char \<Rightarrow> int" where
  "schar c = (let v = of_char c in if v < 128 then v else v - 256)"

lemma of_char_int_lt_256 [simp]: "(of_char c :: int) < 256"
proof -
  have "int (of_char c) < int 256" by (simp only: of_nat_less_iff nat_of_char_less_256)
  then show ?thesis by (simp add: of_nat_of_char)
qed

lemma of_char_int_nonneg [simp]: "0 \<le> (of_char c :: int)"
proof -
  have "0 \<le> int (of_char c)" by (rule of_nat_0_le_iff)
  then show ?thesis by (simp only: of_nat_of_char)
qed

lemma schar_inj: "schar c = schar d \<longleftrightarrow> c = d"
proof -
  have "of_char c = (of_char d :: int)" if "schar c = schar d"
    using that of_char_int_lt_256 [of c] of_char_int_lt_256 [of d]
      of_char_int_nonneg [of c] of_char_int_nonneg [of d]
    unfolding schar_def Let_def by (simp split: if_splits del: of_char_eq_iff; linarith)
  then show ?thesis by (metis char_of_char)
qed

lemma schar_13 [simp]: "schar c = 13 \<longleftrightarrow> c = CR"
proof -
  have "schar CR = 13" by (simp add: schar_def)
  then show ?thesis by (metis schar_inj)
qed

lemma schar_10 [simp]: "schar c = 10 \<longleftrightarrow> c = LF"
proof -
  have "schar LF = 10" by (simp add: schar_def)
  then show ?thesis by (metis schar_inj)
qed

subsection \<open>Packet buffers\<close>

definition buf_write :: "cbuf \<Rightarrow> nat \<Rightarrow> char list \<Rightarrow> cbuf" where
  "buf_write b off xs = (\<lambda>i. if off \<le> i \<and> i < off + length xs then xs ! (i - off) else b i)"

definition buf_read :: "cbuf \<Rightarrow> nat \<Rightarrow> nat \<Rightarrow> char list" where
  "buf_read b off n = map b [off ..< off + n]"

definition mem_of :: "char list \<Rightarrow> cbuf" where
  "mem_of xs = (\<lambda>i. if i < length xs then xs ! i else NUL)"

lemma length_buf_read [simp]: "length (buf_read b off n) = n"
  by (simp add: buf_read_def)

lemma buf_read_0 [simp]: "buf_read b off 0 = []"
  by (simp add: buf_read_def)

lemma buf_read_nth [simp]: "i < n \<Longrightarrow> buf_read b off n ! i = b (off + i)"
  by (simp add: buf_read_def)

lemma buf_read_write_same [simp, tftp_simps]:
  "n = length xs \<Longrightarrow> buf_read (buf_write b off xs) off n = xs"
  by (rule nth_equalityI) (simp_all add: buf_write_def)

lemma buf_read_write_prefix:
  "n \<le> length xs \<Longrightarrow> buf_read (buf_write b off xs) off n = take n xs"
  by (rule nth_equalityI) (simp_all add: buf_write_def)

lemma buf_read_write_disjoint [tftp_simps]:
  "off + n \<le> off' \<or> off' + length xs \<le> off \<Longrightarrow> buf_read (buf_write b off' xs) off n = buf_read b off n"
  by (rule nth_equalityI) (auto simp: buf_write_def)

lemma buf_read_append: "buf_read b off (m + n) = buf_read b off m @ buf_read b (off + m) n"
proof -
  have "[off ..< off + (m + n)] = [off ..< off + m] @ [off + m ..< off + m + n]"
    by (metis add.assoc le_add1 upt_add_eq_append)
  then show ?thesis by (simp add: buf_read_def)
qed

lemma buf_write_other [tftp_simps]:
  "i < off \<or> off + length xs \<le> i \<Longrightarrow> buf_write b off xs i = b i"
  by (auto simp: buf_write_def)

lemma buf_write_at [tftp_simps]:
  "i < length xs \<Longrightarrow> buf_write b off xs (off + i) = xs ! i"
  by (simp add: buf_write_def)

lemma buf_write_Nil [simp]: "buf_write b off [] = b"
  by (rule ext) (auto simp: buf_write_def)

subsection \<open>Big-endian 16-bit fields (htons and ntohs on a packet header)\<close>

definition be16 :: "u16 \<Rightarrow> char list" where
  "be16 w = [char_of (unat w div 256), char_of (unat w mod 256)]"

definition get16 :: "cbuf \<Rightarrow> nat \<Rightarrow> u16" where
  "get16 b off = of_nat (of_char (b off) * 256 + of_char (b (Suc off)))"

lemma length_be16 [simp]: "length (be16 w) = 2"
  by (simp add: be16_def)

lemma unat16_lt: "unat (w :: u16) < 65536"
  using unsigned_less [of w] by simp

lemma be16_join: "of_nat (of_char (be16 w ! 0) * 256 + of_char (be16 w ! 1)) = (w :: u16)"
proof -
  have "unat w div 256 < 256"
    using unat16_lt [of w] by (simp add: less_mult_imp_div_less)
  then show ?thesis by (simp add: be16_def)
qed

lemma get16_be16 [simp, tftp_simps]: "get16 (buf_write b off (be16 w)) off = w"
proof -
  have "buf_write b off (be16 w) off = be16 w ! 0"
    and "buf_write b off (be16 w) (Suc off) = be16 w ! 1"
    by (simp_all add: buf_write_def)
  then show ?thesis using be16_join [of w] by (simp add: get16_def)
qed

lemma be16_of_chars: "be16 (of_nat (of_char c * 256 + of_char d)) = [c, d]"
proof -
  define k :: nat where "k = of_char c * 256 + of_char d"
  have "k < 65536"
    using nat_of_char_less_256 [of c] nat_of_char_less_256 [of d] unfolding k_def by linarith
  then have "unat (of_nat k :: u16) = k"
    by (simp add: unsigned_of_nat take_bit_nat_eq_self)
  then have u: "unat (of_nat (of_char c * 256 + of_char d) :: u16) = of_char c * 256 + of_char d"
    unfolding k_def .
  have d: "of_char d < (256 :: nat)" by simp
  have "(of_char c * 256 + of_char d) div 256 = (of_char c :: nat)"
    and "(of_char c * 256 + of_char d) mod 256 = (of_char d :: nat)"
    using d by simp_all
  then show ?thesis unfolding be16_def u by simp
qed

lemma be16_get16: "be16 (get16 b off) = [b off, b (Suc off)]"
  by (simp only: get16_def be16_of_chars)

lemma be16_inj: "be16 v = be16 w \<longleftrightarrow> v = w"
  by (metis be16_join)

lemma get16_cong: "b off = b' off \<Longrightarrow> b (Suc off) = b' (Suc off) \<Longrightarrow> get16 b off = get16 b' off"
  by (simp add: get16_def)

subsection \<open>Lists\<close>

lemma take_drop_chunk: "take n xs @ drop n xs = xs"
  by simp

lemma short_take_all: "length (take n xs) \<noteq> n \<Longrightarrow> drop n xs = [] \<and> take n xs = xs"
  by (cases "n \<le> length xs") auto

lemma takeWhile_cut: "x \<notin> set xs \<Longrightarrow> takeWhile (\<lambda>c. c \<noteq> x) (xs @ x # ys) = xs"
  by (induction xs) auto

lemma dropWhile_cut: "x \<notin> set xs \<Longrightarrow> dropWhile (\<lambda>c. c \<noteq> x) (xs @ x # ys) = x # ys"
  by (induction xs) auto

lemma filter_update_count:
  "x < length xs \<Longrightarrow> int (length (filter P (xs[x := y]))) =
     int (length (filter P xs)) - (if P (xs ! x) then 1 else 0) + (if P y then 1 else 0)"
  using arg_cong [OF id_take_nth_drop [of x xs], of "\<lambda>zs. int (length (filter P zs))"]
  by (simp add: upd_conv_take_nth_drop)

end
