(* ===== verification/CLib.thy ===== *)
theory CLib
  imports Prelude
begin

text \<open>
  The parts of the C library the server calls, in the C locale the program runs in
  (it never calls \<open>setlocale\<close>): character classes, \<open>strcasecmp\<close>, \<open>strtoumax\<close>
  in base 10, decimal output, and an open file.

  An open file is its contents and its position, with two failure modes that the code
  has to live with: a read that fails with some \<open>errno\<close>, and a device with a bounded
  number of bytes left. Standard-I/O output is shown as it is after the buffer has been
  flushed by \<open>fclose\<close>.
\<close>

subsection \<open>ctype.h and strings.h\<close>

definition isspace :: "char \<Rightarrow> bool" where
  "isspace c = (let n = (of_char c :: nat) in (9 \<le> n \<and> n \<le> 13) \<or> n = 32)"

definition isdigit :: "char \<Rightarrow> bool" where
  "isdigit c = (let n = (of_char c :: nat) in 48 \<le> n \<and> n \<le> 57)"

definition tolower :: "char \<Rightarrow> char" where
  "tolower c = (let n = (of_char c :: nat) in if 65 \<le> n \<and> n \<le> 90 then char_of (n + 32) else c)"

definition toupper :: "char \<Rightarrow> char" where
  "toupper c = (let n = (of_char c :: nat) in if 97 \<le> n \<and> n \<le> 122 then char_of (n - 32) else c)"

definition strcaseeq :: "string \<Rightarrow> string \<Rightarrow> bool" where
  "strcaseeq a b = (map tolower a = map tolower b)"

lemma tolower_idem [simp]: "tolower (tolower c) = tolower c"
  by (simp add: tolower_def Let_def)

lemma NUL_iff: "c = NUL \<longleftrightarrow> of_char c = (0 :: nat)"
proof -
  have "of_char NUL = (0 :: nat)" by simp
  then show ?thesis by (metis of_char_eqI)
qed

lemma tolower_NUL [simp]: "tolower c = NUL \<longleftrightarrow> c = NUL"
proof -
  have "of_char (tolower c) = (0 :: nat) \<longleftrightarrow> of_char c = (0 :: nat)"
    by (simp add: tolower_def Let_def)
  then show ?thesis by (simp only: NUL_iff)
qed

lemma strcaseeq_refl [simp]: "strcaseeq a a"
  by (simp add: strcaseeq_def)

lemma strcaseeq_Nil [simp]: "strcaseeq [] b \<longleftrightarrow> b = []"
  by (auto simp: strcaseeq_def)

subsection \<open>strtoumax and decimal output\<close>

fun parse_digits :: "string \<Rightarrow> nat \<Rightarrow> nat \<times> string" where
  "parse_digits [] acc = (acc, [])"
| "parse_digits (c # cs) acc =
     (if isdigit c then parse_digits cs (acc * 10 + (of_char c - 48)) else (acc, c # cs))"

text \<open>
  \<open>strtoumax(s, &vend, 10)\<close>: the value, the text at \<open>vend\<close>, and whether \<open>errno\<close> became
  \<open>ERANGE\<close>. A leading minus sign negates the value in the unsigned type.
\<close>

definition strtoumax :: "string \<Rightarrow> u64 \<times> string \<times> bool" where
  "strtoumax s =
     (let t = dropWhile isspace s;
          neg = (t \<noteq> [] \<and> hd t = CHR ''-'');
          u = (if t \<noteq> [] \<and> (hd t = CHR ''-'' \<or> hd t = CHR ''+'') then tl t else t)
      in if u = [] \<or> \<not> isdigit (hd u) then (0, s, False)
         else let (n, rest) = parse_digits u 0
              in if 2 ^ 64 \<le> n then (- 1, rest, True)
                 else ((if neg then - of_nat n else of_nat n), rest, False))"

definition digit :: "nat \<Rightarrow> char" where
  "digit n = char_of (48 + n)"

fun utoa :: "nat \<Rightarrow> string" where
  "utoa n = (if n < 10 then [digit n] else utoa (n div 10) @ [digit (n mod 10)])"

declare utoa.simps [simp del]

lemma of_char_digit [simp]: "n < 10 \<Longrightarrow> of_char (digit n) = 48 + n"
  by (simp add: digit_def)

lemma isdigit_digit [simp]: "n < 10 \<Longrightarrow> isdigit (digit n)"
  by (simp add: isdigit_def)

lemma utoa_digits: "c \<in> set (utoa n) \<Longrightarrow> isdigit c"
proof (induction n rule: utoa.induct)
  case (1 n)
  then show ?case by (subst (asm) utoa.simps) (auto split: if_splits)
qed

lemma utoa_nonempty [simp]: "utoa n \<noteq> []"
  by (subst utoa.simps) simp

lemma parse_digits_append:
  "\<forall>c \<in> set ds. isdigit c \<Longrightarrow>
     parse_digits (ds @ t) acc = parse_digits t (fst (parse_digits ds acc))"
  by (induction ds arbitrary: acc) auto

lemma parse_digits_utoa: "fst (parse_digits (utoa n) 0) = n"
proof (induction n rule: utoa.induct)
  case (1 n)
  show ?case
  proof (cases "n < 10")
    case True
    then show ?thesis by (subst utoa.simps) simp
  next
    case False
    have "parse_digits (utoa (n div 10) @ [digit (n mod 10)]) 0
        = parse_digits [digit (n mod 10)] (n div 10)"
      using 1 False by (subst parse_digits_append) (auto intro: utoa_digits)
    then show ?thesis using False by (subst utoa.simps) simp
  qed
qed

lemma parse_digits_all: "\<forall>c \<in> set ds. isdigit c \<Longrightarrow> snd (parse_digits ds acc) = []"
  by (induction ds arbitrary: acc) auto

lemma isdigit_not_special:
  assumes "isdigit c"
  shows "\<not> isspace c" and "c \<noteq> CHR ''-''" and "c \<noteq> CHR ''+''" and "c \<noteq> NUL"
  using assms by (auto simp: isdigit_def isspace_def Let_def)

text \<open>What the server prints into an option reply is read back as the same number.\<close>

lemma strtoumax_utoa: "n < 2 ^ 64 \<Longrightarrow> strtoumax (utoa n) = (of_nat n, [], False)"
proof -
  assume n: "n < 2 ^ 64"
  obtain c cs where u: "utoa n = c # cs" by (cases "utoa n") auto
  then have "isdigit c" using utoa_digits [of c n] by simp
  then have c: "\<not> isspace c" "c \<noteq> CHR ''-''" "c \<noteq> CHR ''+''" "isdigit c"
    using isdigit_not_special by blast+
  have "parse_digits (utoa n) 0 = (n, [])"
    using parse_digits_utoa [of n] parse_digits_all [of "utoa n" 0] utoa_digits
    by (metis prod.collapse)
  with c n u show ?thesis by (simp add: strtoumax_def)
qed

lemma utoa_no_NUL: "NUL \<notin> set (utoa n)"
  using utoa_digits isdigit_not_special(4) by blast

subsection \<open>Open files\<close>

record cfile =
  fdata :: "char list"
  fpos :: nat
  frderr :: "int option"
  fspace :: "nat option"

definition frest :: "cfile \<Rightarrow> char list" where
  "frest f = drop (fpos f) (fdata f)"

text \<open>
  \<open>read(fd, p, n)\<close> of a regular file: the return value, the bytes stored at \<open>p\<close>, the file. It returns
  fewer bytes than asked for only at the end of the file; short reads elsewhere (a signal, a
  network file system) are not modelled.
\<close>

definition sys_read :: "cfile \<Rightarrow> nat \<Rightarrow> int \<times> char list \<times> cfile" where
  "sys_read f n =
     (case frderr f of
        Some e \<Rightarrow> (- 1, [], f)
      | None \<Rightarrow> (let xs = take n (frest f)
                 in (int (length xs), xs, f\<lparr>fpos := fpos f + length xs\<rparr>)))"

text \<open>\<open>getc\<close> returns \<open>EOF\<close> (here \<open>None\<close>) at the end of the file and on a read error.\<close>

definition getc :: "cfile \<Rightarrow> (char \<times> cfile) option" where
  "getc f =
     (case frderr f of
        Some e \<Rightarrow> None
      | None \<Rightarrow> (case frest f of [] \<Rightarrow> None | c # _ \<Rightarrow> Some (c, f\<lparr>fpos := Suc (fpos f)\<rparr>)))"

definition put_at :: "cfile \<Rightarrow> char \<Rightarrow> cfile" where
  "put_at f c =
     (if fpos f < length (fdata f)
      then f\<lparr>fdata := (fdata f)[fpos f := c], fpos := Suc (fpos f)\<rparr>
      else (case fspace f of
              Some 0 \<Rightarrow> f
            | Some (Suc k) \<Rightarrow> f\<lparr>fdata := fdata f @ [c], fpos := Suc (fpos f), fspace := Some k\<rparr>
            | None \<Rightarrow> f\<lparr>fdata := fdata f @ [c], fpos := Suc (fpos f)\<rparr>))"

fun put_all :: "cfile \<Rightarrow> char list \<Rightarrow> cfile" where
  "put_all f [] = f"
| "put_all f (c # cs) = put_all (put_at f c) cs"

abbreviation putc :: "char \<Rightarrow> cfile \<Rightarrow> cfile" where
  "putc c f \<equiv> put_at f c"

text \<open>\<open>write(fd, p, n)\<close>: the number of bytes that fitted, \<open>-1\<close> if none did.\<close>

definition sys_write :: "cfile \<Rightarrow> char list \<Rightarrow> int \<times> cfile" where
  "sys_write f xs =
     (let f' = put_all f xs; n = fpos f' - fpos f
      in ((if n = 0 \<and> xs \<noteq> [] then - 1 else int n), f'))"

text \<open>\<open>fseek(file, -1, SEEK_CUR)\<close>; it fails and changes nothing at position 0.\<close>

definition fseek_back :: "cfile \<Rightarrow> cfile" where
  "fseek_back f = (if fpos f = 0 then f else f\<lparr>fpos := fpos f - 1\<rparr>)"

definition reading :: "char list \<Rightarrow> cfile" where
  "reading xs = \<lparr>fdata = xs, fpos = 0, frderr = None, fspace = None\<rparr>"

definition writing :: cfile where
  "writing = \<lparr>fdata = [], fpos = 0, frderr = None, fspace = None\<rparr>"

lemma put_all_append:
  "fpos f = length (fdata f) \<Longrightarrow> fspace f = None \<Longrightarrow>
     put_all f xs = f\<lparr>fdata := fdata f @ xs, fpos := length (fdata f) + length xs\<rparr>"
  by (induction xs arbitrary: f) (auto simp: put_at_def)

lemma sys_write_append:
  "fpos f = length (fdata f) \<Longrightarrow> fspace f = None \<Longrightarrow>
     sys_write f xs = (int (length xs), f\<lparr>fdata := fdata f @ xs, fpos := length (fdata f) + length xs\<rparr>)"
  by (auto simp: sys_write_def put_all_append)

lemma put_all_app [simp]: "put_all f (xs @ ys) = put_all (put_all f xs) ys"
  by (induction xs arbitrary: f) auto

end
