(* ===== verification/Getopt.thy ===== *)
theory Getopt
  imports CLib
begin

text \<open>
  The replacement \<open>getopt_long\<close> (\<open>lib/getopt_long.c\<close>) and the loop that calls it until it
  returns \<open>-1\<close>. The globals and the private state are a record; \<open>optptr\<close> is an offset in an
  argument. \<open>argv\<close> is the list of the \<open>argc\<close> arguments, followed by the null pointer; two
  arguments never share memory, so \<open>optptr\<close> is in the current argument exactly when it was
  set there.
\<close>

subsection \<open>State and helpers\<close>

record option_desc =
  opt_name :: string
  has_arg :: int
  flag :: "string option"
  val :: int

record getopt_state =
  optarg :: "string option"
  optind :: nat
  optopt :: int
  optptr :: "(nat \<times> nat) option"
  same_query :: bool
  longindex :: int
  flag_store :: "string \<rightharpoonup> int"

definition getopt_start :: getopt_state where
  "getopt_start = \<lparr>optarg = None, optind = 0, optopt = 0, optptr = None, same_query = False, longindex = 0,
     flag_store = Map.empty\<rparr>"

fun option_matches :: "string \<Rightarrow> string \<Rightarrow> string option" where
  "option_matches [] opt = (if opt = [] then Some [] else None)"
| "option_matches (a # as) opt =
     (if a = CHR ''='' then (if opt = [] then Some (a # as) else None)
      else case opt of [] \<Rightarrow> None | b # bs \<Rightarrow> if a = b then option_matches as bs else None)"

definition arg_at :: "string list \<Rightarrow> nat \<Rightarrow> string option" where
  "arg_at argv i = (if i < length argv then Some (argv ! i) else None)"

text \<open>The table search: the first entry that matches, with its index and the rest of the argument.\<close>

fun find_long :: "string \<Rightarrow> option_desc list \<Rightarrow> nat \<Rightarrow> (nat \<times> option_desc \<times> string) option" where
  "find_long a [] i = None"
| "find_long a (lo # los) i =
     (case option_matches a (opt_name lo) of Some e \<Rightarrow> Some (i, lo, e) | None \<Rightarrow> find_long a los (Suc i))"

abbreviation QUESTION :: int where "QUESTION \<equiv> 63"
abbreviation COLON :: int where "COLON \<equiv> 58"

definition finish_long :: "option_desc \<Rightarrow> getopt_state \<Rightarrow> int \<times> getopt_state" where
  "finish_long lo st =
     (case flag lo of Some v \<Rightarrow> (0, st\<lparr>flag_store := (flag_store st)(v \<mapsto> val lo)\<rparr>) | None \<Rightarrow> (val lo, st))"

definition getopt_long_arg :: "string list \<Rightarrow> option_desc list \<Rightarrow> string \<Rightarrow> getopt_state \<Rightarrow> int \<times> getopt_state" where
  "getopt_long_arg argv longopts carg st0 =
     (let st = st0\<lparr>optind := optind st0 + 1\<rparr>
      in if length carg \<le> 2 then (- 1, st)
         else case find_long (drop 2 carg) longopts 0 of
           None \<Rightarrow> (QUESTION, st)
         | Some (i, lo, opt_end) \<Rightarrow>
             let st = st\<lparr>longindex := int i\<rparr>
             in if opt_end \<noteq> [] then
                  (if has_arg lo \<noteq> 0 then finish_long lo (st\<lparr>optarg := Some (tl opt_end)\<rparr>) else (QUESTION, st))
                else if has_arg lo = 1 then
                  (case arg_at argv (optind st) of
                     None \<Rightarrow> (QUESTION, st\<lparr>optarg := None\<rparr>)
                   | Some v \<Rightarrow> finish_long lo (st\<lparr>optarg := Some v, optind := optind st + 1\<rparr>))
                else finish_long lo st)"

text \<open>\<open>strchr(optstring, opt)\<close>: the rest of the string from the option letter on.\<close>

definition find_short :: "char \<Rightarrow> string \<Rightarrow> string option" where
  "find_short c os = (case dropWhile (\<lambda>d. d \<noteq> c) os of [] \<Rightarrow> None | os' \<Rightarrow> Some os')"

text \<open>The offset of the next letter: \<open>optptr\<close> if it is in the argument, otherwise after the dash.\<close>

definition short_off :: "string \<Rightarrow> getopt_state \<Rightarrow> nat" where
  "short_off carg st =
     (case optptr st of
        Some (i, off) \<Rightarrow> if i = optind st \<and> off \<le> length carg then off else 1
      | None \<Rightarrow> 1)"

definition short_at :: "string list \<Rightarrow> string \<Rightarrow> string \<Rightarrow> nat \<Rightarrow> getopt_state \<Rightarrow> int \<times> getopt_state" where
  "short_at argv optstring carg off0 st0 =
     (let c = (if off0 < length carg then carg ! off0 else NUL);
          off = off0 + 1;
          st = st0\<lparr>optptr := Some (optind st0, off)\<rparr>;
          rest = drop off carg
      in case (if c = CHR '':'' then None else find_short c optstring) of
           Some osptr \<Rightarrow>
             if tl osptr \<noteq> [] \<and> hd (tl osptr) = CHR '':'' then
               (if rest \<noteq> [] then (schar c, st\<lparr>optarg := Some rest, optind := optind st + 1\<rparr>)
                else case arg_at argv (optind st + 1) of
                       Some v \<Rightarrow> (schar c, st\<lparr>optarg := Some v, optind := optind st + 2\<rparr>)
                     | None \<Rightarrow> ((if optstring \<noteq> [] \<and> hd optstring = CHR '':'' then COLON else QUESTION),
                                st\<lparr>optind := optind st + 1\<rparr>))
             else (schar c, if rest = [] then st\<lparr>optind := optind st + 1\<rparr> else st)
         | None \<Rightarrow> (QUESTION, (if rest = [] then st\<lparr>optind := optind st + 1\<rparr> else st)\<lparr>optopt := schar c\<rparr>))"

definition getopt_short :: "string list \<Rightarrow> string \<Rightarrow> string \<Rightarrow> getopt_state \<Rightarrow> int \<times> getopt_state" where
  "getopt_short argv optstring carg st = short_at argv optstring carg (short_off carg st) st"

definition getopt_query :: "string list \<Rightarrow> getopt_state \<Rightarrow> getopt_state" where
  "getopt_query argv st =
     (if \<not> same_query st \<or> optind st < 1 \<or> length argv < optind st
      then st\<lparr>same_query := True, optind := 1, optptr := None\<rparr> else st)"

definition getopt_long :: "string list \<Rightarrow> string \<Rightarrow> option_desc list \<Rightarrow> getopt_state \<Rightarrow> int \<times> getopt_state" where
  "getopt_long argv optstring longopts st0 =
     (let st = getopt_query argv st0
      in case arg_at argv (optind st) of
           None \<Rightarrow> (- 1, st)
         | Some carg \<Rightarrow>
             if carg = [] \<or> hd carg \<noteq> CHR ''-'' \<or> length carg = 1 then (- 1, st)
             else if carg ! 1 = CHR ''-'' then getopt_long_arg argv longopts carg st
             else getopt_short argv optstring carg st)"

text \<open>
  A program's option loop: \<open>step\<close> is the body of the \<open>while\<close>, which may exit the program. The
  result is the exit, or the final state. \<open>None\<close>: the loop does not end.
\<close>

partial_function (option) getopt_fold ::
  "(int \<Rightarrow> string option \<Rightarrow> 'a \<Rightarrow> 'e + 'a) \<Rightarrow> string list \<Rightarrow> string \<Rightarrow> option_desc list \<Rightarrow> getopt_state \<Rightarrow> 'a \<Rightarrow>
     ('e + 'a \<times> getopt_state) option" where
  "getopt_fold step argv optstring longopts st a =
     (case getopt_long argv optstring longopts st of
        (c, st') \<Rightarrow>
          if c = - 1 then Some (Inr (a, st'))
          else case step c (optarg st') a of
                 Inl e \<Rightarrow> Some (Inl e)
               | Inr a' \<Rightarrow> getopt_fold step argv optstring longopts st' a')"

subsection \<open>The loop ends\<close>

text \<open>
  The characters still to be read: those of the arguments from \<open>optind\<close> on, less the part of
  the current one that has been read.
\<close>

definition args_left :: "string list \<Rightarrow> nat \<Rightarrow> nat" where
  "args_left argv i = (\<Sum>a \<leftarrow> drop i argv. length a + 1)"

definition read_in_arg :: "getopt_state \<Rightarrow> nat" where
  "read_in_arg st = (case optptr st of Some (i, off) \<Rightarrow> if i = optind st then off else 0 | None \<Rightarrow> 0)"

definition getopt_left :: "string list \<Rightarrow> getopt_state \<Rightarrow> nat" where
  "getopt_left argv st = args_left argv (optind st) - read_in_arg st"

text \<open>\<open>optptr\<close> is inside the current argument or elsewhere before it.\<close>

definition getopt_ok :: "string list \<Rightarrow> getopt_state \<Rightarrow> bool" where
  "getopt_ok argv st = (same_query st \<and> 1 \<le> optind st \<and> optind st \<le> length argv \<and>
     (\<forall>i off. optptr st = Some (i, off) \<longrightarrow> i \<le> optind st \<and>
        (i = optind st \<longrightarrow> i < length argv \<and> 1 \<le> off \<and> off < length (argv ! i))))"

lemma args_left_step: "i < length argv \<Longrightarrow> args_left argv i = length (argv ! i) + 1 + args_left argv (Suc i)"
  by (simp add: args_left_def Cons_nth_drop_Suc [symmetric])

lemma getopt_query_ok: "1 \<le> length argv \<Longrightarrow> getopt_ok argv st \<or> \<not> same_query st \<Longrightarrow> getopt_ok argv (getopt_query argv st)"
  by (auto simp: getopt_query_def getopt_ok_def)

lemma getopt_query_id: "getopt_ok argv st \<Longrightarrow> getopt_query argv st = st"
  by (simp add: getopt_query_def getopt_ok_def)

text \<open>An advance of \<open>optind\<close> by one or two arguments.\<close>

lemma advance_left:
  assumes "getopt_ok argv st" and "optind st < length argv"
    and "optind st' = optind st + 1 \<or> optind st' = optind st + 2 \<and> optind st + 1 < length argv"
    and "\<And>i off. optptr st' = Some (i, off) \<Longrightarrow> i \<le> optind st" and "same_query st'"
  shows "getopt_ok argv st' \<and> getopt_left argv st' < getopt_left argv st"
proof -
  have "read_in_arg st < length (argv ! optind st) + 1"
    using assms(1) by (auto simp: getopt_ok_def read_in_arg_def split: option.split)
  moreover have "read_in_arg st' = 0" using assms(3, 4) by (fastforce simp: read_in_arg_def split: option.split)
  moreover have "args_left argv (optind st') \<le> args_left argv (Suc (optind st))"
    using assms(3) args_left_step [of "Suc (optind st)" argv] by auto
  ultimately have "getopt_left argv st' < getopt_left argv st"
    using args_left_step [OF assms(2)] by (simp add: getopt_left_def)
  moreover have "getopt_ok argv st'" using assms by (fastforce simp: getopt_ok_def)
  ultimately show ?thesis by simp
qed

lemma getopt_long_arg_moves:
  assumes "getopt_long_arg argv los carg st = (c, st')"
  shows "optptr st' = optptr st \<and> same_query st' = same_query st \<and>
    (optind st' = optind st + 1 \<or> optind st' = optind st + 2 \<and> optind st + 1 < length argv)"
  using assms
  by (auto simp: getopt_long_arg_def finish_long_def arg_at_def Let_def split: option.splits if_splits prod.splits)

text \<open>A short option either ends the argument or moves on in it.\<close>

lemma getopt_short_moves:
  assumes "getopt_short argv os carg st = (c, st')"
  shows "optptr st' = Some (optind st, short_off carg st + 1) \<and> same_query st' = same_query st \<and>
    (optind st' = optind st + 1 \<or> optind st' = optind st + 2 \<and> optind st + 1 < length argv \<or>
     optind st' = optind st \<and> short_off carg st + 1 < length carg)"
  using assms by (auto simp: getopt_short_def short_at_def Let_def arg_at_def not_le split: option.splits if_splits)

lemma getopt_progress:
  assumes ok: "getopt_ok argv st" and r: "getopt_long argv os los st = (c, st')" and c: "c \<noteq> - 1"
  shows "getopt_ok argv st' \<and> getopt_left argv st' < getopt_left argv st"
proof -
  have q: "getopt_query argv st = st" using getopt_query_id [OF ok] .
  define carg where "carg = argv ! optind st"
  have i: "optind st < length argv" and ca: "carg \<noteq> []" "length carg \<noteq> 1"
    and r': "(if carg ! 1 = CHR ''-'' then getopt_long_arg argv los carg st else getopt_short argv os carg st) = (c, st')"
    using r c unfolding getopt_long_def q carg_def by (auto simp: arg_at_def Let_def split: if_splits)
  have sq: "same_query st" and ptr: "\<And>i off. optptr st = Some (i, off) \<Longrightarrow> i \<le> optind st"
    using ok by (auto simp: getopt_ok_def)
  show ?thesis
  proof (cases "carg ! 1 = CHR ''-''")
    case True
    then have m: "optptr st' = optptr st" "same_query st'"
      "optind st' = optind st + 1 \<or> optind st' = optind st + 2 \<and> optind st + 1 < length argv"
      using getopt_long_arg_moves [of argv los carg st c st'] r' sq by auto
    show ?thesis using m(2, 3) ptr [folded m(1)] by (intro advance_left [OF ok i])
  next
    case False
    define off0 where "off0 = short_off carg st"
    note m = getopt_short_moves [of argv os carg st c st', folded off0_def]
    show ?thesis
    proof (cases "optind st' = optind st")
      case same: True
      have m: "optptr st' = Some (optind st, off0 + 1)" "same_query st'" "off0 + 1 < length carg"
        using m r' False sq same by auto
      have "read_in_arg st \<le> off0" using ok unfolding off0_def short_off_def carg_def
        by (auto simp: read_in_arg_def getopt_ok_def split: option.split)
      then have "getopt_left argv st' < getopt_left argv st"
        using m same args_left_step [OF i] by (simp add: getopt_left_def read_in_arg_def carg_def)
      moreover have "getopt_ok argv st'" using ok m same i by (auto simp: getopt_ok_def carg_def)
      ultimately show ?thesis by simp
    next
      case False2: False
      then show ?thesis using m r' False sq by (intro advance_left [OF ok i]) auto
    qed
  qed
qed

lemma getopt_fold_returns_ok: "getopt_ok argv st \<Longrightarrow> \<exists>r. getopt_fold step argv os los st a = Some r"
proof (induction "getopt_left argv st" arbitrary: st a rule: less_induct)
  case less
  obtain c st' where g: "getopt_long argv os los st = (c, st')" by fastforce
  show ?case
  proof (cases "c = - 1")
    case True
    then show ?thesis using g by (simp add: getopt_fold.simps)
  next
    case False
    note p = getopt_progress [OF less.prems g False]
    show ?thesis
      using less.hyps [of st'] p g False by (subst getopt_fold.simps) (auto split: sum.split)
  qed
qed

lemma getopt_long_query:
  "getopt_query argv (getopt_query argv st) = getopt_query argv st \<Longrightarrow>
     getopt_long argv os los (getopt_query argv st) = getopt_long argv os los st"
  by (simp add: getopt_long_def)

text \<open>What the loop body keeps holds at the end.\<close>

lemma getopt_fold_keeps:
  fixes step :: "int \<Rightarrow> string option \<Rightarrow> 'a \<Rightarrow> 'e + 'a"
  assumes "\<And>c v a a'. P a \<Longrightarrow> step c v a = Inr a' \<Longrightarrow> P a'"
    and "getopt_fold step argv os los st a = Some (Inr (a', st'))" and "P a"
  shows "P a'"
proof -
  let ?Q = "\<lambda>stp (av :: string list) (o' :: string) (l :: option_desc list) (s :: getopt_state) x (y :: 'e + 'a \<times> getopt_state).
    stp = step \<longrightarrow> P x \<longrightarrow> (\<forall>b st'. y = Inr (b, st') \<longrightarrow> P b)"
  have "?Q step argv os los st a (Inr (a', st'))"
  proof (rule getopt_fold.raw_induct [where P = ?Q, OF _ assms(2)])
    fix f stp av o' l s x and y :: "'e + 'a \<times> getopt_state"
    assume IH: "\<And>stp av o' l s x y. f stp av o' l s x = Some y \<Longrightarrow> ?Q stp av o' l s x y"
      and body: "(case getopt_long av o' l s of (c, st') \<Rightarrow>
          if c = - 1 then Some (Inr (x, st'))
          else case stp c (optarg st') x of Inl e \<Rightarrow> Some (Inl e) | Inr a' \<Rightarrow> f stp av o' l st' a') = Some y"
    obtain c s' where g: "getopt_long av o' l s = (c, s')" by fastforce
    show "?Q stp av o' l s x y"
    proof (intro impI)
      assume stp: "stp = step" and px: "P x"
      show "\<forall>b st'. y = Inr (b, st') \<longrightarrow> P b"
        using body g px IH [of stp av o' l s' _ y] assms(1) [OF px, of c "optarg s'"] stp
        by (cases "step c (optarg s') x") (auto split: if_splits)
    qed
  qed
  then show ?thesis using assms(3) by blast
qed

subsection \<open>What a command line means\<close>

text \<open>
  The ways to write options: a cluster of letters without argument, a letter with its
  argument attached or apart, and the three forms of a long option.
\<close>

datatype opt_item =
  Cluster "char list" | Apart char string | Attached char string
| Long string | Long_eq string string | Long_apart string string

fun render :: "opt_item \<Rightarrow> string list" where
  "render (Cluster cs) = [CHR ''-'' # cs]"
| "render (Apart c v) = [[CHR ''-'', c], v]"
| "render (Attached c v) = [CHR ''-'' # c # v]"
| "render (Long n) = [''--'' @ n]"
| "render (Long_eq n v) = [''--'' @ n @ CHR ''='' # v]"
| "render (Long_apart n v) = [''--'' @ n, v]"

definition letter :: "string \<Rightarrow> bool \<Rightarrow> char \<Rightarrow> bool" where
  "letter os arg c = (c \<noteq> CHR '':'' \<and> c \<noteq> CHR ''-'' \<and> schar c \<noteq> - 1 \<and>
     (case find_short c os of None \<Rightarrow> False | Some os1 \<Rightarrow> arg = (tl os1 \<noteq> [] \<and> hd (tl os1) = CHR '':'')))"

definition long_entry :: "option_desc list \<Rightarrow> string \<Rightarrow> option_desc option" where
  "long_entry los n = map_option (\<lambda>(_, lo, _). lo) (find_long n los 0)"

definition long_ok :: "option_desc list \<Rightarrow> bool \<Rightarrow> string \<Rightarrow> bool" where
  "long_ok los arg n = (n \<noteq> [] \<and> CHR ''='' \<notin> set n \<and>
     (case long_entry los n of None \<Rightarrow> False
      | Some lo \<Rightarrow> has_arg lo = (if arg then 1 else 0) \<and> flag lo = None \<and> val lo \<noteq> - 1))"

fun item_valid :: "string \<Rightarrow> option_desc list \<Rightarrow> opt_item \<Rightarrow> bool" where
  "item_valid os los (Cluster cs) = (cs \<noteq> [] \<and> list_all (letter os False) cs)"
| "item_valid os los (Apart c v) = letter os True c"
| "item_valid os los (Attached c v) = (letter os True c \<and> v \<noteq> [])"
| "item_valid os los (Long n) = long_ok los False n"
| "item_valid os los (Long_eq n v) = long_ok los True n"
| "item_valid os los (Long_apart n v) = long_ok los True n"

text \<open>The option codes an item stands for, with their arguments.\<close>

fun item_events :: "option_desc list \<Rightarrow> opt_item \<Rightarrow> (int \<times> string option) list" where
  "item_events los (Cluster cs) = map (\<lambda>c. (schar c, None)) cs"
| "item_events los (Apart c v) = [(schar c, Some v)]"
| "item_events los (Attached c v) = [(schar c, Some v)]"
| "item_events los (Long n) = [(val (the (long_entry los n)), None)]"
| "item_events los (Long_eq n v) = [(val (the (long_entry los n)), Some v)]"
| "item_events los (Long_apart n v) = [(val (the (long_entry los n)), Some v)]"

fun run_events :: "(int \<Rightarrow> string option \<Rightarrow> 'a \<Rightarrow> 'e + 'a) \<Rightarrow> (int \<times> string option) list \<Rightarrow> 'a \<Rightarrow> 'e + 'a" where
  "run_events step [] a = Inr a"
| "run_events step ((c, v) # evs) a =
     (case step c v a of Inl e \<Rightarrow> Inl e | Inr a' \<Rightarrow> run_events step evs a')"

lemma run_events_append:
  "run_events step (es @ fs) a = (case run_events step es a of Inl e \<Rightarrow> Inl e | Inr a' \<Rightarrow> run_events step fs a')"
  by (induction step es a rule: run_events.induct) (auto split: sum.split)

text \<open>The state in which the argument at \<open>k\<close> is next and nothing of it has been read.\<close>

definition at_arg :: "string list \<Rightarrow> nat \<Rightarrow> getopt_state \<Rightarrow> bool" where
  "at_arg argv k st = (same_query st \<and> optind st = k \<and> 1 \<le> k \<and> k \<le> length argv \<and>
     (\<forall>i off. optptr st = Some (i, off) \<longrightarrow> i < k))"

text \<open>The state inside the argument at \<open>k\<close>, with \<open>off\<close> characters read.\<close>

definition in_arg :: "string list \<Rightarrow> nat \<Rightarrow> nat \<Rightarrow> getopt_state \<Rightarrow> bool" where
  "in_arg argv k off st = (same_query st \<and> optind st = k \<and> 1 \<le> k \<and> k < length argv \<and>
     (optptr st = Some (k, off) \<or> off = 1 \<and> (\<forall>i off. optptr st = Some (i, off) \<longrightarrow> i < k)))"

lemma at_arg_in_arg: "at_arg argv k st \<Longrightarrow> k < length argv \<Longrightarrow> in_arg argv k 1 st"
  by (auto simp: at_arg_def in_arg_def)

lemma at_arg_query: "at_arg argv k st \<Longrightarrow> getopt_query argv st = st"
  by (simp add: at_arg_def getopt_query_def)

lemma in_arg_query: "in_arg argv k off st \<Longrightarrow> getopt_query argv st = st"
  by (simp add: in_arg_def getopt_query_def)

lemma in_arg_off: "in_arg argv k off st \<Longrightarrow> off \<le> length carg \<Longrightarrow> short_off carg st = off"
  by (auto simp: in_arg_def short_off_def split: option.split)

lemma in_arg_short:
  assumes "in_arg argv k off st" and "argv ! k = CHR ''-'' # cs" and "cs \<noteq> []" and "hd cs \<noteq> CHR ''-''"
  shows "getopt_long argv os los st = getopt_short argv os (CHR ''-'' # cs) st"
  using assms in_arg_query [OF assms(1)] by (cases cs) (auto simp: getopt_long_def arg_at_def in_arg_def)

lemma short_letter_step:
  assumes st: "in_arg argv k off st" and arg: "argv ! k = CHR ''-'' # cs" and cs: "cs \<noteq> []" "hd cs \<noteq> CHR ''-''"
    and off: "1 \<le> off" "off \<le> length cs" and l: "letter os False (cs ! (off - 1))"
  shows "\<exists>st'. getopt_long argv os los st = (schar (cs ! (off - 1)), st') \<and>
    (if off = length cs then at_arg argv (Suc k) st' else in_arg argv k (Suc off) st')"
proof -
  let ?c = "cs ! (off - 1)"
  obtain o' where o: "find_short ?c os = Some o'" "\<not> (tl o' \<noteq> [] \<and> hd (tl o') = CHR '':'')" "?c \<noteq> CHR '':''"
    using l by (auto simp: letter_def split: option.splits)
  have c: "(CHR ''-'' # cs) ! off = ?c" using off by (cases off) simp_all
  let ?st = "st\<lparr>optptr := Some (optind st, off + 1)\<rparr>"
  have "getopt_short argv os (CHR ''-'' # cs) st
      = (schar ?c, if off = length cs then ?st\<lparr>optind := optind ?st + 1\<rparr> else ?st)"
    using in_arg_off [OF st, of "CHR ''-'' # cs"] off o c by (auto simp: getopt_short_def short_at_def)
  then show ?thesis using st in_arg_short [OF st arg cs] by (auto simp: at_arg_def in_arg_def)
qed

lemma short_arg_step:
  assumes st: "at_arg argv k st" and arg: "argv ! k = CHR ''-'' # c # w" "k < length argv"
    and l: "letter os True c" and v: "w \<noteq> [] \<and> v = w \<and> k' = Suc k \<or> w = [] \<and> arg_at argv (Suc k) = Some v \<and> k' = Suc (Suc k)"
  shows "\<exists>st'. getopt_long argv os los st = (schar c, st') \<and> optarg st' = Some v \<and> at_arg argv k' st'"
proof -
  have ia: "in_arg argv k 1 st" using at_arg_in_arg [OF st arg(2)] .
  obtain o' where o: "find_short c os = Some o'" "tl o' \<noteq> []" "hd (tl o') = CHR '':''" "c \<noteq> CHR '':''" "c \<noteq> CHR ''-''"
    using l by (auto simp: letter_def split: option.splits)
  have "getopt_long argv os los st = getopt_short argv os (CHR ''-'' # c # w) st"
    using in_arg_short [OF ia arg(1)] o by simp
  moreover have "getopt_short argv os (CHR ''-'' # c # w) st
      = (schar c, st\<lparr>optptr := Some (optind st, 2), optarg := Some v, optind := k'\<rparr>)"
    using in_arg_off [OF ia, of "CHR ''-'' # c # w"] o v st by (auto simp: getopt_short_def short_at_def at_arg_def)
  ultimately show ?thesis using st arg v by (auto simp: at_arg_def arg_at_def split: if_splits)
qed

lemma option_matches_plain:
  "CHR ''='' \<notin> set n \<Longrightarrow> option_matches n m = (if n = m then Some [] else None)"
  by (induction n arbitrary: m) (auto split: list.split)

lemma option_matches_eq:
  "CHR ''='' \<notin> set n \<Longrightarrow> option_matches (n @ CHR ''='' # v) m = (if n = m then Some (CHR ''='' # v) else None)"
  by (induction n arbitrary: m) (auto split: list.split)

lemma find_long_plain:
  assumes "CHR ''='' \<notin> set n" and "long_entry los n = Some lo"
  shows "(\<exists>i. find_long n los 0 = Some (i, lo, [])) \<and> (\<exists>i. find_long (n @ CHR ''='' # v) los 0 = Some (i, lo, CHR ''='' # v))"
proof -
  have "find_long n los i = Some (j, lo, e) \<Longrightarrow> e = [] \<and> find_long (n @ CHR ''='' # v) los i = Some (j, lo, CHR ''='' # v)" for i j e
    by (induction los arbitrary: i) (auto simp: option_matches_plain [OF assms(1)] option_matches_eq [OF assms(1)] split: if_splits)
  with assms(2) show ?thesis by (fastforce simp: long_entry_def)
qed

lemma at_arg_long:
  assumes "at_arg argv k st" and "k < length argv" and "argv ! k = ''--'' @ n"
  shows "getopt_long argv os los st = getopt_long_arg argv los (''--'' @ n) st"
  using assms at_arg_query [OF assms(1)] by (simp add: getopt_long_def arg_at_def at_arg_def)

lemma long_step:
  assumes st: "at_arg argv k st" and k: "k < length argv" and ok: "long_ok los arg n"
    and v: "\<not> arg \<and> argv ! k = ''--'' @ n \<and> k' = Suc k \<or>
      arg \<and> argv ! k = ''--'' @ n @ CHR ''='' # w \<and> k' = Suc k \<or>
      arg \<and> argv ! k = ''--'' @ n \<and> arg_at argv (Suc k) = Some w \<and> k' = Suc (Suc k)"
  shows "\<exists>st'. getopt_long argv os los st = (val (the (long_entry los n)), st') \<and>
    (arg \<longrightarrow> optarg st' = Some w) \<and> at_arg argv k' st'"
proof -
  obtain lo where n: "n \<noteq> []" "CHR ''='' \<notin> set n" and e: "long_entry los n = Some lo"
    and lo: "has_arg lo = (if arg then 1 else 0)" "flag lo = None"
    using ok by (auto simp: long_ok_def split: option.splits)
  note fl = find_long_plain [OF n(2) e, of w]
  have kk: "optind st = k" using st by (simp add: at_arg_def)
  from v consider "\<not> arg" "argv ! k = ''--'' @ n" "k' = Suc k"
    | "arg" "argv ! k = ''--'' @ n @ CHR ''='' # w" "k' = Suc k"
    | "arg" "argv ! k = ''--'' @ n" "arg_at argv (Suc k) = Some w" "k' = Suc (Suc k)" by blast
  then show ?thesis
  proof cases
    case 1
    then show ?thesis using at_arg_long [OF st k 1(2), of os los] fl lo e n st kk k
      by (auto simp: getopt_long_arg_def finish_long_def Let_def at_arg_def)
  next
    case 2
    then show ?thesis using at_arg_long [OF st k, of "n @ CHR ''='' # w" os los] fl lo e n st kk k
      by (auto simp: getopt_long_arg_def finish_long_def Let_def at_arg_def)
  next
    case 3
    then show ?thesis using at_arg_long [OF st k 3(2), of os los] fl lo e n st kk k
      by (auto simp: getopt_long_arg_def finish_long_def Let_def at_arg_def arg_at_def split: if_splits)
  qed
qed

text \<open>One item: the loop body runs on its events, and the next argument is reached.\<close>

lemma fold_step:
  assumes "getopt_long argv os los st = (c, st')" and "c \<noteq> - 1"
  shows "getopt_fold step argv os los st a =
    (case step c (optarg st') a of Inl e \<Rightarrow> Some (Inl e) | Inr a' \<Rightarrow> getopt_fold step argv os los st' a')"
  using assms by (subst getopt_fold.simps) simp

definition ignores_optarg :: "(int \<Rightarrow> string option \<Rightarrow> 'a \<Rightarrow> 'e + 'a) \<Rightarrow> (int \<times> string option) list \<Rightarrow> bool" where
  "ignores_optarg step evs = (\<forall>(c, v) \<in> set evs. v = None \<longrightarrow> (\<forall>u a. step c u a = step c None a))"

lemma ignores_optarg_at: "ignores_optarg step evs \<Longrightarrow> (c, None) \<in> set evs \<Longrightarrow> step c u a = step c None a"
  unfolding ignores_optarg_def by blast

text \<open>The continuation: run the events, then go on from the argument \<open>k\<close>.\<close>

definition continues ::
  "(int \<Rightarrow> string option \<Rightarrow> 'a \<Rightarrow> 'e + 'a) \<Rightarrow> string list \<Rightarrow> string \<Rightarrow> option_desc list \<Rightarrow> getopt_state \<Rightarrow> 'a \<Rightarrow>
     (int \<times> string option) list \<Rightarrow> nat \<Rightarrow> bool" where
  "continues step argv os los st a evs k = (\<exists>st'. at_arg argv k st' \<and>
     getopt_fold step argv os los st a =
       (case run_events step evs a of Inl e \<Rightarrow> Some (Inl e) | Inr a' \<Rightarrow> getopt_fold step argv os los st' a'))"

lemma continues_one:
  assumes "getopt_long argv os los st = (c, st')" and "c \<noteq> - 1" and "at_arg argv k st'"
    and "step c (optarg st') a = step c v a"
  shows "continues step argv os los st a [(c, v)] k"
  unfolding continues_def using assms(3, 4) fold_step [OF assms(1, 2), of step a]
  by (intro exI [of _ st']) (auto split: sum.split)

lemma continues_more:
  assumes "getopt_long argv os los st = (c, st')" and "c \<noteq> - 1" and "step c (optarg st') a = step c v a"
    and "\<And>a'. continues step argv os los st' a' evs k"
  shows "continues step argv os los st a ((c, v) # evs) k"
proof (cases "step c v a")
  case (Inl e)
  obtain st'' where "at_arg argv k st''" using assms(4) [of a] by (auto simp: continues_def)
  then show ?thesis using Inl fold_step [OF assms(1, 2), of step a] assms(3) by (auto simp: continues_def)
next
  case (Inr a')
  then show ?thesis using assms(4) [of a'] fold_step [OF assms(1, 2), of step a] assms(3) by (simp add: continues_def)
qed

lemma continues_cluster:
  assumes arg: "argv ! k = CHR ''-'' # cs" and cs: "cs \<noteq> []" "list_all (letter os False) cs"
    and ig: "ignores_optarg step (map (\<lambda>c. (schar c, None)) cs)"
    and st: "in_arg argv k off st" and off: "1 \<le> off" "off \<le> length cs"
  shows "continues step argv os los st a (map (\<lambda>c. (schar c, None)) (drop (off - 1) cs)) (Suc k)"
  using st off
proof (induction "length cs - off" arbitrary: off st a)
  case 0
  let ?c = "cs ! (off - 1)"
  have c: "letter os False ?c" "hd cs \<noteq> CHR ''-''" using cs 0 by (cases cs; auto simp: list_all_length letter_def)+
  from short_letter_step [OF 0(2) arg cs(1) c(2) 0(3, 4) c(1), of los] 0
  obtain st' where g: "getopt_long argv os los st = (schar ?c, st')" "at_arg argv (Suc k) st'" by auto
  have "(schar ?c, None) \<in> set (map (\<lambda>c. (schar c, None)) cs)" using 0(3, 4) by simp
  from ignores_optarg_at [OF ig this] have "step (schar ?c) (optarg st') a = step (schar ?c) None a" .
  moreover have "schar ?c \<noteq> - 1" using c by (simp add: letter_def)
  moreover have "drop (off - 1) cs = [?c]" using 0(1, 3, 4) Cons_nth_drop_Suc [of "off - 1" cs] by simp
  ultimately show ?case using continues_one [OF g(1) _ g(2), of step a None] by simp
next
  case (Suc n)
  let ?c = "cs ! (off - 1)"
  have c: "letter os False ?c" "hd cs \<noteq> CHR ''-''" using cs Suc by (cases cs; auto simp: list_all_length letter_def)+
  from short_letter_step [OF Suc(3) arg cs(1) c(2) Suc(4, 5) c(1), of los] Suc(2)
  obtain st' where g: "getopt_long argv os los st = (schar ?c, st')" "in_arg argv k (Suc off) st'" by (auto split: if_splits)
  have "(schar ?c, None) \<in> set (map (\<lambda>c. (schar c, None)) cs)" using Suc(4, 5) by simp
  note s = ignores_optarg_at [OF ig this, of "optarg st'" a]
  have m1: "schar ?c \<noteq> - 1" using c by (simp add: letter_def)
  have d: "drop (off - 1) cs = ?c # drop off cs"
    using Suc(4, 5) Cons_nth_drop_Suc [of "off - 1" cs] by simp
  have "continues step argv os los st' a' (map (\<lambda>c. (schar c, None)) (drop off cs)) (Suc k)" for a'
    using Suc(1) [of "Suc off" st' a'] Suc(2) g(2) by simp
  then show ?case using continues_more [of argv os los st, OF g(1) m1, of step a None, OF s] unfolding d by simp
qed

lemma continues_append:
  assumes "continues step argv os los st a es k"
    and "\<And>st' a'. at_arg argv k st' \<Longrightarrow> continues step argv os los st' a' fs k'"
  shows "continues step argv os los st a (es @ fs) k'"
proof -
  obtain st' where st': "at_arg argv k st'" and r: "getopt_fold step argv os los st a =
     (case run_events step es a of Inl e \<Rightarrow> Some (Inl e) | Inr a' \<Rightarrow> getopt_fold step argv os los st' a')"
    using assms(1) by (auto simp: continues_def)
  show ?thesis
  proof (cases "run_events step es a")
    case (Inl e)
    obtain st'' where "at_arg argv k' st''" using assms(2) [OF st', of a] by (auto simp: continues_def)
    then show ?thesis using r Inl by (auto simp: continues_def run_events_append)
  next
    case (Inr a')
    then show ?thesis using assms(2) [OF st', of a'] r by (simp add: continues_def run_events_append)
  qed
qed

lemma continues_item:
  assumes argv: "argv = pre @ render it @ post" and pre: "length pre = k" and st: "at_arg argv k st"
    and ok: "item_valid os los it" and ig: "ignores_optarg step (item_events los it)"
  shows "continues step argv os los st a (item_events los it) (k + length (render it))"
proof -
  have at: "arg_at argv (k + j) = (if j < length (render it) then Some (render it ! j) else arg_at argv (k + j))" for j
    by (simp add: argv arg_at_def nth_append pre)
  have k: "k < length argv" using argv pre by (cases it) simp_all
  have k0: "argv ! k = render it ! 0" using at [of 0] k by (cases it) (simp_all add: arg_at_def)
  have k1: "arg_at argv (Suc k) = Some (render it ! 1)" if "length (render it) = 2" using at [of 1] that by simp
  show ?thesis
  proof (cases it)
    case (Cluster cs)
    then show ?thesis
      using continues_cluster [of argv k cs os step 1 st los a] at_arg_in_arg [OF st k] k0 ok ig
      by (cases cs) auto
  next
    case (Apart c v)
    from short_arg_step [OF st _ k, of c "[]" os v "Suc (Suc k)" los] Apart k0 k1 ok
    obtain st' where "getopt_long argv os los st = (schar c, st')" "optarg st' = Some v" "at_arg argv (Suc (Suc k)) st'" by auto
    then show ?thesis using continues_one [of argv os los st "schar c" st' "Suc (Suc k)" step a "Some v"] Apart ok
      by (simp add: letter_def)
  next
    case (Attached c v)
    from short_arg_step [OF st _ k, of c v os v "Suc k" los] Attached k0 ok
    obtain st' where "getopt_long argv os los st = (schar c, st')" "optarg st' = Some v" "at_arg argv (Suc k) st'" by auto
    then show ?thesis using continues_one [of argv os los st "schar c" st' "Suc k" step a "Some v"] Attached ok
      by (simp add: letter_def)
  next
    case (Long n)
    let ?c = "val (the (long_entry los n))"
    from long_step [OF st k, of los False n "Suc k"] Long k0 ok
    obtain st' where g: "getopt_long argv os los st = (?c, st')" "at_arg argv (Suc k) st'" by auto
    have "step ?c (optarg st') a = step ?c None a" using ignores_optarg_at [OF ig, of ?c] Long by simp
    moreover have "?c \<noteq> - 1" using ok Long by (auto simp: long_ok_def split: option.splits)
    ultimately show ?thesis using continues_one [OF g(1) _ g(2), of step a None] Long by simp
  next
    case (Long_eq n v)
    let ?c = "val (the (long_entry los n))"
    from long_step [OF st k, of los True n "Suc k" v] Long_eq k0 ok
    obtain st' where g: "getopt_long argv os los st = (?c, st')" "optarg st' = Some v" "at_arg argv (Suc k) st'" by auto
    have "?c \<noteq> - 1" using ok Long_eq by (auto simp: long_ok_def split: option.splits)
    then show ?thesis using continues_one [OF g(1) _ g(3), of step a "Some v"] g(2) Long_eq by simp
  next
    case (Long_apart n v)
    let ?c = "val (the (long_entry los n))"
    from long_step [OF st k, of los True n "Suc (Suc k)" v] Long_apart k0 k1 ok
    obtain st' where g: "getopt_long argv os los st = (?c, st')" "optarg st' = Some v" "at_arg argv (Suc (Suc k)) st'" by auto
    have "?c \<noteq> - 1" using ok Long_apart by (auto simp: long_ok_def split: option.splits)
    then show ?thesis using continues_one [OF g(1) _ g(3), of step a "Some v"] g(2) Long_apart by simp
  qed
qed

lemma ignores_optarg_append:
  "ignores_optarg step (es @ fs) \<longleftrightarrow> ignores_optarg step es \<and> ignores_optarg step fs"
  unfolding ignores_optarg_def set_append by blast

lemma continues_items:
  assumes "argv = pre @ concat (map render its) @ post" and "length pre = k" and "at_arg argv k st"
    and "list_all (item_valid os los) its" and "ignores_optarg step (concat (map (item_events los) its))"
  shows "continues step argv os los st a (concat (map (item_events los) its)) (k + length (concat (map render its)))"
  using assms
proof (induction its arbitrary: pre k st a)
  case Nil
  then show ?case by (auto simp: continues_def)
next
  case (Cons it its)
  have "continues step argv os los st a (item_events los it) (k + length (render it))"
    using Cons.prems by (intro continues_item [of argv pre it "concat (map render its) @ post"]) (auto simp: ignores_optarg_append)
  then have "continues step argv os los st a (item_events los it @ concat (map (item_events los) its))
      (k + length (render it) + length (concat (map render its)))"
    by (rule continues_append)
       (rule Cons.IH [of "pre @ render it"], use Cons.prems in \<open>auto simp: ignores_optarg_append\<close>)
  then show ?case by (simp add: add.assoc)
qed

text \<open>Where the options end: at a word that is not one, or at \<open>--\<close>.\<close>

definition no_option :: "string list \<Rightarrow> bool" where
  "no_option ws = (case ws of [] \<Rightarrow> True | w # _ \<Rightarrow> w = [] \<or> hd w \<noteq> CHR ''-'' \<or> length w = 1)"

lemma at_arg_end:
  assumes "at_arg argv k st" and "no_option (drop k argv)"
  shows "getopt_fold step argv os los st a = Some (Inr (a, st))"
proof -
  have "getopt_long argv os los st = (- 1, st)"
  proof (cases "drop k argv")
    case Nil
    then show ?thesis using assms at_arg_query [OF assms(1)] by (simp add: getopt_long_def arg_at_def at_arg_def)
  next
    case (Cons w ws)
    then have "k < length argv" "argv ! k = w" by (metis drop_all list.distinct(1) not_le, metis Cons nth_via_drop)
    then show ?thesis using assms Cons at_arg_query [OF assms(1)]
      by (auto simp: getopt_long_def arg_at_def at_arg_def no_option_def)
  qed
  then show ?thesis by (simp add: getopt_fold.simps)
qed

lemma getopt_first:
  assumes "argv \<noteq> []"
  shows "at_arg argv 1 (getopt_query argv getopt_start)"
    and "getopt_fold step argv os los getopt_start a = getopt_fold step argv os los (getopt_query argv getopt_start) a"
proof -
  let ?s = "getopt_query argv getopt_start"
  show at: "at_arg argv 1 ?s" using assms by (simp add: at_arg_def getopt_query_def getopt_start_def Suc_le_eq)
  have "getopt_long argv os los ?s = getopt_long argv os los getopt_start"
    using at_arg_query [OF at] by (rule getopt_long_query)
  then show "getopt_fold step argv os los getopt_start a = getopt_fold step argv os los ?s a"
    by (simp add: getopt_fold.simps [of step argv os los getopt_start] getopt_fold.simps [of step argv os los ?s])
qed

text \<open>The option loop always ends.\<close>

lemma getopt_fold_returns:
  assumes "argv \<noteq> []"
  shows "\<exists>r. getopt_fold step argv os los getopt_start a = Some r"
proof -
  have "getopt_ok argv (getopt_query argv getopt_start)"
    using assms by (intro getopt_query_ok) (auto simp: getopt_start_def Suc_le_eq)
  then show ?thesis unfolding getopt_first(2) [OF assms] by (rule getopt_fold_returns_ok)
qed

lemma getopt_reads:
  assumes "list_all (item_valid os los) its" and "ignores_optarg step (concat (map (item_events los) its))"
    and "no_option ws"
  shows "\<exists>st. optind st = 1 + length (concat (map render its)) \<and>
      getopt_fold step (prog # concat (map render its) @ ws) os los getopt_start a =
        Some (case run_events step (concat (map (item_events los) its)) a of Inl e \<Rightarrow> Inl e | Inr a' \<Rightarrow> Inr (a', st))"
proof -
  let ?argv = "prog # concat (map render its) @ ws"
  let ?k = "1 + length (concat (map render its))"
  have first: "at_arg ?argv 1 (getopt_query ?argv getopt_start)" by (rule getopt_first(1)) simp
  obtain st where st: "at_arg ?argv ?k st"
    and r: "getopt_fold step ?argv os los (getopt_query ?argv getopt_start) a =
      (case run_events step (concat (map (item_events los) its)) a of Inl e \<Rightarrow> Some (Inl e)
       | Inr a' \<Rightarrow> getopt_fold step ?argv os los st a')"
    using continues_items [of ?argv "[prog]" its ws 1 _ os los step a, OF _ _ first assms(1, 2)]
    by (auto simp: continues_def)
  have "drop ?k ?argv = ws" by simp
  then have e: "getopt_fold step ?argv os los st a' = Some (Inr (a', st))" for a'
    using at_arg_end [OF st] assms(3) by simp
  have "getopt_fold step ?argv os los getopt_start a =
      Some (case run_events step (concat (map (item_events los) its)) a of Inl e \<Rightarrow> Inl e | Inr a' \<Rightarrow> Inr (a', st))"
    unfolding getopt_first(2) [of ?argv, OF list.distinct(2)] r e by (simp split: sum.split)
  moreover have "optind st = ?k" using st by (simp add: at_arg_def)
  ultimately show ?thesis by blast
qed

text \<open>
  C37. The option loop reads a command line as it is written. For any sequence of valid options
  in any of their forms (letters grouped or not, arguments attached or apart, long options
  with \<open>=\<close> or a separate argument), followed by words that are not options, the loop body
  runs on the option codes with their arguments in order, exits where the body exits, and
  otherwise ends with \<open>optind\<close> at the first of the words. Whatever the command line, the loop
  ends.
\<close>

theorem getopt_reads_options:
  assumes "list_all (item_valid os los) its" and "ignores_optarg step (concat (map (item_events los) its))"
    and "no_option ws" and "argv \<noteq> []"
  shows "(\<exists>st. optind st = 1 + length (concat (map render its)) \<and>
      getopt_fold step (prog # concat (map render its) @ ws) os los getopt_start a =
        Some (case run_events step (concat (map (item_events los) its)) a of Inl e \<Rightarrow> Inl e | Inr a' \<Rightarrow> Inr (a', st))) \<and>
    (\<exists>r. getopt_fold step argv os los getopt_start a = Some r)"
  by (intro conjI getopt_reads [OF assms(1-3)] getopt_fold_returns [OF assms(4)])

theorem getopt_reads_options_witness:
  "\<exists>st. optind st = 4 \<and> getopt_fold (\<lambda>c v a. (Inr (a @ [c]) :: unit + int list))
     [''tftpd'', ''-ab'', ''-cx'', ''-a'', ''dir''] ''abc:'' [] getopt_start [] = Some (Inr ([97, 98, 99, 97], st))"
proof -
  let ?step = "\<lambda>c v a. (Inr (a @ [c]) :: unit + int list)"
  let ?its = "[Cluster ''ab'', Attached (CHR ''c'') ''x'', Cluster ''a'']"
  have v: "list_all (item_valid ''abc:'' []) ?its"
    by (simp add: letter_def find_short_def schar_def)
  have "ignores_optarg ?step (concat (map (item_events []) ?its))" by (simp add: ignores_optarg_def)
  from getopt_reads_options [OF v this, of "[''dir'']" "[''tftpd'']" "''tftpd''" "[]"]
  show ?thesis by (simp add: no_option_def schar_def eval_nat_numeral)
qed

end
