(* ===== verification/BlockIfc.thy ===== *)
theory BlockIfc
  imports Prelude
begin

text \<open>
  The interface between the transfer loops of \<open>tftpd.c\<close> and the buffer layer of
  \<open>tftpsubs.c\<close>. A \<open>block_source\<close> hands out the blocks of a byte stream one at a time,
  with an optional read-ahead; a \<open>block_sink\<close> takes received packets and puts their data
  into a file with a delay of one block. The laws say that the delay is not observable.
\<close>

locale block_source =
  fixes nxt :: "'s \<Rightarrow> int \<times> 's"
    and ahead :: "'s \<Rightarrow> 's"
    and hdr :: "char list \<Rightarrow> 's \<Rightarrow> 's"
    and blk :: "'s \<Rightarrow> char list"
    and pending :: "'s \<Rightarrow> char list"
    and inv :: "'s \<Rightarrow> bool"
    and n :: nat
  assumes nxt_blk: "inv s \<Longrightarrow> blk (snd (nxt s)) = take n (pending s)"
    and nxt_count: "inv s \<Longrightarrow> fst (nxt s) = int (length (blk (snd (nxt s))))"
    and nxt_pending: "inv s \<Longrightarrow> pending (snd (nxt s)) = drop n (pending s)"
    and nxt_inv: "inv s \<Longrightarrow> inv (snd (nxt s))"
    and ahead_blk: "inv s \<Longrightarrow> blk (ahead s) = blk s"
    and ahead_pending: "inv s \<Longrightarrow> pending (ahead s) = pending s"
    and ahead_inv: "inv s \<Longrightarrow> inv (ahead s)"
    and hdr_blk: "length h = 4 \<Longrightarrow> blk (hdr h s) = blk s"
    and hdr_pending: "length h = 4 \<Longrightarrow> pending (hdr h s) = pending s"
    and hdr_inv: "length h = 4 \<Longrightarrow> inv s \<Longrightarrow> inv (hdr h s)"
begin

lemma nxt_split: "inv s \<Longrightarrow> pending s = blk (snd (nxt s)) @ pending (snd (nxt s))"
  by (simp add: nxt_blk nxt_pending)

lemma nxt_count_nonneg: "inv s \<Longrightarrow> 0 \<le> fst (nxt s)"
  by (simp add: nxt_count)

lemma nxt_count_le: "inv s \<Longrightarrow> fst (nxt s) \<le> int n"
  by (simp add: nxt_count nxt_blk)

text \<open>A block shorter than \<open>n\<close> is the last one, and only such a block is.\<close>

lemma short_block_last: "inv s \<Longrightarrow> fst (nxt s) \<noteq> int n \<Longrightarrow> pending (snd (nxt s)) = []"
  by (auto simp: nxt_count nxt_blk nxt_pending)

lemma full_block: "inv s \<Longrightarrow> fst (nxt s) = int n \<longleftrightarrow> n \<le> length (pending s)"
  by (auto simp: nxt_count nxt_blk)

lemma full_block_shrinks:
  "inv s \<Longrightarrow> 0 < n \<Longrightarrow> fst (nxt s) = int n \<Longrightarrow> length (pending (snd (nxt s))) < length (pending s)"
  by (simp add: full_block nxt_pending)

end

locale block_sink =
  fixes recvd :: "char list \<Rightarrow> 's \<Rightarrow> 's"
    and data :: "'s \<Rightarrow> nat \<Rightarrow> char list"
    and store :: "int \<Rightarrow> 's \<Rightarrow> 's"
    and flush :: "'s \<Rightarrow> 's"
    and out :: "'s \<Rightarrow> 'o"
    and ext :: "'o \<Rightarrow> char list \<Rightarrow> 'o"
    and inv :: "'s \<Rightarrow> bool"
  assumes flush_out: "inv s \<Longrightarrow> out (flush s) = out s"
    and flush_inv: "inv s \<Longrightarrow> inv (flush s)"
    and recvd_out: "inv s \<Longrightarrow> out (recvd p s) = out s"
    and recvd_inv: "inv s \<Longrightarrow> inv (recvd p s)"
    and recvd_data: "4 \<le> length p \<Longrightarrow> data (recvd p s) (length p - 4) = drop 4 p"
    and store_out: "inv s \<Longrightarrow> 0 \<le> ct \<Longrightarrow> out (store ct s) = ext (out s) (data s (nat ct))"
    and store_inv: "inv s \<Longrightarrow> 0 \<le> ct \<Longrightarrow> inv (store ct s)"
begin

lemma deliver_out:
  "inv s \<Longrightarrow> 4 \<le> length p \<Longrightarrow>
     out (store (int (length p) - 4) (recvd p s)) = ext (out s) (drop 4 p)"
proof -
  assume "inv s" and p: "4 \<le> length p"
  then have "out (store (int (length p) - 4) (recvd p s))
      = ext (out (recvd p s)) (data (recvd p s) (nat (int (length p) - 4)))"
    by (simp add: store_out recvd_inv)
  moreover have "nat (int (length p) - 4) = length p - 4" using p by simp
  ultimately show ?thesis using \<open>inv s\<close> p by (simp add: recvd_out recvd_data)
qed

lemma deliver_inv:
  "inv s \<Longrightarrow> 4 \<le> length p \<Longrightarrow> inv (store (int (length p) - 4) (recvd p s))"
  by (simp add: store_inv recvd_inv)

end

end
