(* ===== verification/TftpSubs.thy ===== *)
theory TftpSubs
  imports CLib BlockIfc
begin

text \<open>
  The read-ahead and write-behind layer (\<open>common/tftpsubs.c\<close>): two packet buffers, the
  index of the buffer in use and of the next one to fill or flush, and the flags of the
  netascii conversion. An index 0 or 1 is a \<open>bool\<close>, so that C's \<open>!current\<close> is negation.
\<close>

abbreviation BF_ALLOC :: int where "BF_ALLOC \<equiv> - 3"
abbreviation BF_FREE :: int where "BF_FREE \<equiv> - 2"

abbreviation MAX_SEGSIZE :: nat where "MAX_SEGSIZE \<equiv> 65464"
abbreviation PKTSIZE :: nat where "PKTSIZE \<equiv> 65468"

record bf =
  counter :: int
  bbuf :: cbuf

text \<open>
  The static variables of the layer; \<open>errno\<close> is the process's \<open>errno\<close> as the last failing
  call left it, which \<open>tftp_sendfile\<close> reads after \<open>readit\<close>.
\<close>

record subs =
  bfs :: "bool \<Rightarrow> bf"
  nextone :: bool
  current :: bool
  newline :: bool
  prevchar :: int
  errno :: int

definition rw_init :: "bool \<Rightarrow> subs \<Rightarrow> subs" where
  "rw_init x st =
     st\<lparr>newline := False,
        prevchar := - 1,
        bfs := (bfs st)(False := (bfs st False)\<lparr>counter := BF_ALLOC\<rparr>,
                        True := (bfs st True)\<lparr>counter := BF_FREE\<rparr>),
        current := False,
        nextone := x\<rparr>"

definition w_init :: "subs \<Rightarrow> subs" where
  "w_init st = rw_init False st"

definition r_init :: "subs \<Rightarrow> subs" where
  "r_init st = rw_init True st"

subsection \<open>Reading ahead\<close>

text \<open>
  The conversion loop of \<open>read_ahead\<close> with \<open>k\<close> iterations left: the bytes stored, then
  \<open>newline\<close>, \<open>prevchar\<close> and the file afterwards.
\<close>

fun fill :: "nat \<Rightarrow> bool \<Rightarrow> int \<Rightarrow> cfile \<Rightarrow> char list \<times> bool \<times> int \<times> cfile" where
  "fill 0 nl pc f = ([], nl, pc, f)"
| "fill (Suc k) nl pc f =
     (if nl then
        (let (xs, nl', pc', f') = fill k False pc f
         in ((if pc = 10 then LF else NUL) # xs, nl', pc', f'))
      else (case getc f of
              None \<Rightarrow> ([], nl, pc, f)
            | Some (c, f1) \<Rightarrow>
                if c = LF \<or> c = CR then
                  (let (xs, nl', pc', f') = fill k True (of_char c) f1 in (CR # xs, nl', pc', f'))
                else
                  (let (xs, nl', pc', f') = fill k False pc f1 in (c # xs, nl', pc', f'))))"

definition read_ahead :: "int \<Rightarrow> bool \<Rightarrow> subs \<Rightarrow> cfile \<Rightarrow> subs \<times> cfile" where
  "read_ahead segsize convert st f =
     (let i = nextone st; b = bfs st i
      in if counter b \<noteq> BF_FREE then (st, f)
         else let st1 = st\<lparr>nextone := \<not> i\<rparr>
              in if \<not> convert then
                   (let (n, xs, f') = sys_read f (nat segsize)
                    in (st1\<lparr>bfs := (bfs st)(i := \<lparr>counter = n, bbuf = buf_write (bbuf b) 4 xs\<rparr>),
                            errno := (case frderr f of None \<Rightarrow> errno st | Some e \<Rightarrow> e)\<rparr>, f'))
                 else
                   (let (xs, nl, pc, f') = fill (nat segsize) (newline st) (prevchar st) f
                    in (st1\<lparr>bfs := (bfs st)(i := \<lparr>counter = int (length xs),
                                                  bbuf = buf_write (bbuf b) 4 xs\<rparr>),
                            newline := nl, prevchar := pc\<rparr>, f')))"

text \<open>\<open>readit\<close> returns the byte count; \<open>*dpp\<close> becomes the buffer at the new \<open>current\<close>.\<close>

definition readit :: "int \<Rightarrow> bool \<Rightarrow> subs \<Rightarrow> cfile \<Rightarrow> int \<times> subs \<times> cfile" where
  "readit segsize convert st f =
     (let st1 = st\<lparr>bfs := (bfs st)(current st := (bfs st (current st))\<lparr>counter := BF_FREE\<rparr>)\<rparr>;
          cur = (\<not> current st);
          st2 = st1\<lparr>current := cur\<rparr>;
          (st3, f3) = (if counter (bfs st2 cur) = BF_FREE then read_ahead segsize convert st2 f
                       else (st2, f))
      in (counter (bfs st3 cur), st3, f3))"

subsection \<open>Writing behind\<close>

text \<open>The conversion loop of \<open>write_behind\<close>: the file and \<open>prevchar\<close> afterwards.\<close>

fun unconv :: "char list \<Rightarrow> int \<Rightarrow> cfile \<Rightarrow> cfile \<times> int" where
  "unconv [] pc f = (f, pc)"
| "unconv (c # cs) pc f =
     (if pc = 13 \<and> c = LF then unconv cs (schar c) (putc c (fseek_back f))
      else if pc = 13 \<and> c = NUL then unconv cs (schar c) f
      else unconv cs (schar c) (putc c f))"

definition write_behind :: "bool \<Rightarrow> subs \<Rightarrow> cfile \<Rightarrow> int \<times> subs \<times> cfile" where
  "write_behind convert st f =
     (let i = nextone st; b = bfs st i
      in if counter b < - 1 then (0, st, f)
         else let count = counter b;
                  st1 = st\<lparr>bfs := (bfs st)(i := b\<lparr>counter := BF_FREE\<rparr>), nextone := \<not> i\<rparr>;
                  buf = buf_read (bbuf b) 4 (nat count)
              in if count \<le> 0 then (- 1, st1, f)
                 else if \<not> convert then (let (n, f') = sys_write f buf in (n, st1, f'))
                 else (let (f', pc) = unconv buf (prevchar st) f
                       in (count, st1\<lparr>prevchar := pc\<rparr>, f')))"

text \<open>\<open>writeit\<close> returns \<open>ct\<close> whatever happened; \<open>*dpp\<close> becomes the buffer at \<open>current\<close>.\<close>

definition writeit :: "int \<Rightarrow> bool \<Rightarrow> subs \<Rightarrow> cfile \<Rightarrow> int \<times> subs \<times> cfile" where
  "writeit ct convert st f =
     (let st1 = st\<lparr>bfs := (bfs st)(current st := (bfs st (current st))\<lparr>counter := ct\<rparr>)\<rparr>;
          cur = (\<not> current st);
          st2 = st1\<lparr>current := cur\<rparr>;
          (st3, f3) = (if counter (bfs st2 cur) \<noteq> BF_FREE
                       then snd (write_behind convert st2 f) else (st2, f));
          st4 = st3\<lparr>bfs := (bfs st3)(cur := (bfs st3 cur)\<lparr>counter := BF_ALLOC\<rparr>)\<rparr>
      in (ct, st4, f3))"

text \<open>
  Accesses of the callers to the buffer behind \<open>dp\<close>, which is always the current one:
  the 4-byte header, a received datagram, and the bytes of a packet.
\<close>

definition cur_buf :: "subs \<Rightarrow> cbuf" where
  "cur_buf st = bbuf (bfs st (current st))"

definition cur_write :: "nat \<Rightarrow> char list \<Rightarrow> subs \<Rightarrow> subs" where
  "cur_write off xs st =
     st\<lparr>bfs := (bfs st)(current st := (bfs st (current st))\<lparr>bbuf := buf_write (cur_buf st) off xs\<rparr>)\<rparr>"

subsection \<open>The netascii encoding and its inverse\<close>

fun na_enc :: "char list \<Rightarrow> char list" where
  "na_enc [] = []"
| "na_enc (c # cs) =
     (if c = LF then CR # LF # na_enc cs else if c = CR then CR # NUL # na_enc cs else c # na_enc cs)"

text \<open>One byte of the reverse conversion on (output so far, last byte was CR).\<close>

fun na_put :: "char list \<times> bool \<Rightarrow> char \<Rightarrow> char list \<times> bool" where
  "na_put (out, cr) c =
     ((if cr \<and> c = LF then butlast out @ [LF] else if cr \<and> c = NUL then out else out @ [c]), c = CR)"

definition na_dec :: "char list \<Rightarrow> char list" where
  "na_dec xs = fst (foldl na_put ([], False) xs)"

lemma foldl_na_put_enc: "foldl na_put (out, False) (na_enc xs) = (out @ xs, False)"
  by (induction xs arbitrary: out) auto

lemma na_dec_enc [simp]: "na_dec (na_enc xs) = xs"
  by (simp add: na_dec_def foldl_na_put_enc)

lemma na_enc_append: "na_enc (xs @ ys) = na_enc xs @ na_enc ys"
  by (induction xs) auto

text \<open>Both transfer modes as a codec.\<close>

definition mode_enc :: "bool \<Rightarrow> char list \<Rightarrow> char list" where
  "mode_enc convert xs = (if convert then na_enc xs else xs)"

definition mode_dec :: "bool \<Rightarrow> char list \<Rightarrow> char list" where
  "mode_dec convert xs = (if convert then na_dec xs else xs)"

lemma mode_dec_enc [simp]: "mode_dec convert (mode_enc convert xs) = xs"
  by (simp add: mode_dec_def mode_enc_def)

subsection \<open>The read side is a block source\<close>

text \<open>The bytes a pending half of a line break still owes, and the stream left to read.\<close>

definition owed :: "bool \<Rightarrow> int \<Rightarrow> char list" where
  "owed nl pc = (if nl then [if pc = 10 then LF else NUL] else [])"

definition stream :: "bool \<Rightarrow> subs \<Rightarrow> cfile \<Rightarrow> char list" where
  "stream convert st f =
     (if convert then owed (newline st) (prevchar st) @ na_enc (frest f) else frest f)"

definition bf_data :: "bf \<Rightarrow> char list" where
  "bf_data b = buf_read (bbuf b) 4 (nat (counter b))"

definition src_pending :: "bool \<Rightarrow> subs \<times> cfile \<Rightarrow> char list" where
  "src_pending convert = (\<lambda>(st, f).
     (let b = bfs st (\<not> current st)
      in (if counter b = BF_FREE then [] else bf_data b) @ stream convert st f))"

definition src_blk :: "subs \<times> cfile \<Rightarrow> char list" where
  "src_blk = (\<lambda>(st, f). bf_data (bfs st (current st)))"

definition src_inv :: "nat \<Rightarrow> bool \<Rightarrow> subs \<times> cfile \<Rightarrow> bool" where
  "src_inv n convert = (\<lambda>(st, f).
     frderr f = None \<and> counter (bfs st (current st)) \<noteq> BF_FREE \<and>
     (let b = bfs st (\<not> current st)
      in if counter b = BF_FREE then nextone st = (\<not> current st)
         else 0 \<le> counter b \<and> nextone st = current st \<and>
              (counter b = int n \<or> counter b \<le> int n \<and> stream convert st f = [])))"

lemma frest_getc:
  "frderr f = None \<Longrightarrow> getc f = None \<longleftrightarrow> frest f = []"
  by (simp add: getc_def split: list.splits)

lemma getc_Some:
  "getc f = Some (c, f') \<Longrightarrow> frest f = c # frest f' \<and> frderr f' = frderr f"
proof -
  assume "getc f = Some (c, f')"
  then obtain cs where cs: "frest f = c # cs" and f': "f' = f\<lparr>fpos := Suc (fpos f)\<rparr>"
    by (auto simp: getc_def split: option.splits list.splits)
  then have "frest f' = cs"
    by (simp add: frest_def drop_Suc flip: tl_drop)
  with cs f' show ?thesis by simp
qed

text \<open>The conversion loop stores the next bytes of the encoded stream and leaves the rest.\<close>

lemma fill_stream:
  "frderr f = None \<Longrightarrow> fill k nl pc f = (xs, nl', pc', f') \<Longrightarrow>
     xs = take k (owed nl pc @ na_enc (frest f)) \<and>
     owed nl' pc' @ na_enc (frest f') = drop k (owed nl pc @ na_enc (frest f)) \<and> frderr f' = None"
proof (induction k nl pc f arbitrary: xs nl' pc' f' rule: fill.induct)
  case (1 nl pc f)
  then show ?case by simp
next
  case (2 k nl pc f)
  show ?case
  proof (cases nl)
    case True
    with "2.prems"(2) obtain ys where ys: "fill k False pc f = (ys, nl', pc', f')"
      and xs: "xs = (if pc = 10 then LF else NUL) # ys" by (auto split: prod.splits)
    from "2.IH"(1) [OF True "2.prems"(1) ys] xs True
    show ?thesis by (simp add: owed_def)
  next
    case nl: False
    show ?thesis
    proof (cases "getc f")
      case None
      with nl "2.prems" show ?thesis by (simp add: owed_def frest_getc)
    next
      case (Some a)
      obtain c f1 where a: "a = (c, f1)" by force
      with Some "2.prems"(1) have f1: "frest f = c # frest f1" "frderr f1 = None"
        using getc_Some [of f c f1] by simp_all
      show ?thesis
      proof (cases "c = LF \<or> c = CR")
        case True
        with "2.prems"(2) nl Some a obtain ys where ys: "fill k True (of_char c) f1 = (ys, nl', pc', f')"
          and xs: "xs = CR # ys" by (auto split: prod.splits)
        from "2.IH"(2) [OF _ Some a [symmetric] True f1(2) ys] nl f1(1) True xs
        show ?thesis by (auto simp: owed_def)
      next
        case False
        with "2.prems"(2) nl Some a obtain ys where ys: "fill k False pc f1 = (ys, nl', pc', f')"
          and xs: "xs = c # ys" by (auto split: prod.splits)
        from "2.IH"(3) [OF _ Some a [symmetric] False f1(2) ys] nl f1(1) False xs
        show ?thesis by (auto simp: owed_def)
      qed
    qed
  qed
qed

lemma sys_read_ok:
  "frderr f = None \<Longrightarrow> sys_read f n = (k, xs, f') \<Longrightarrow>
     xs = take n (frest f) \<and> k = int (length xs) \<and> frest f' = drop n (frest f) \<and> frderr f' = None"
  by (auto simp: sys_read_def Let_def frest_def min_def add.commute)

text \<open>What filling the next buffer does, for both modes.\<close>

lemma read_ahead_fills:
  assumes "counter (bfs st (nextone st)) = BF_FREE" and "frderr f = None"
    and "read_ahead (int n) convert st f = (st', f')"
  shows "\<exists>b. bfs st' = (bfs st)(nextone st := b) \<and> bf_data b = take n (stream convert st f) \<and>
             counter b = int (length (bf_data b)) \<and> stream convert st' f' = drop n (stream convert st f) \<and>
             nextone st' = (\<not> nextone st) \<and> current st' = current st \<and> frderr f' = None"
proof (cases convert)
  case True
  obtain xs nl pc g where fl: "fill n (newline st) (prevchar st) f = (xs, nl, pc, g)"
    by (metis prod_cases4)
  with assms True fill_stream [OF assms(2) fl] show ?thesis
    by (auto simp: read_ahead_def Let_def stream_def bf_data_def)
next
  case False
  obtain k xs g where rd: "sys_read f n = (k, xs, g)" by (metis prod_cases3)
  with assms False sys_read_ok [OF assms(2) rd] show ?thesis
    by (auto simp: read_ahead_def Let_def stream_def bf_data_def)
qed

lemma read_ahead_nop:
  "counter (bfs st (nextone st)) \<noteq> BF_FREE \<Longrightarrow> read_ahead n convert st f = (st, f)"
  by (simp add: read_ahead_def Let_def)

definition src_next :: "nat \<Rightarrow> bool \<Rightarrow> subs \<times> cfile \<Rightarrow> int \<times> subs \<times> cfile" where
  "src_next n convert = (\<lambda>(st, f). readit (int n) convert st f)"

definition src_ahead :: "nat \<Rightarrow> bool \<Rightarrow> subs \<times> cfile \<Rightarrow> subs \<times> cfile" where
  "src_ahead n convert = (\<lambda>(st, f). read_ahead (int n) convert st f)"

definition src_hdr :: "char list \<Rightarrow> subs \<times> cfile \<Rightarrow> subs \<times> cfile" where
  "src_hdr h = (\<lambda>(st, f). (cur_write 0 h st, f))"

lemma readit_laws:
  assumes inv: "src_inv n convert (st, f)" and r: "readit (int n) convert st f = (k, st', f')"
  shows "src_blk (st', f') = take n (src_pending convert (st, f)) \<and>
         k = int (length (src_blk (st', f'))) \<and>
         src_pending convert (st', f') = drop n (src_pending convert (st, f)) \<and>
         src_inv n convert (st', f')"
proof -
  let ?c = "current st" and ?o = "\<not> current st"
  define st2 where "st2 = st\<lparr>bfs := (bfs st)(?c := (bfs st ?c)\<lparr>counter := BF_FREE\<rparr>), current := ?o\<rparr>"
  have s2: "stream convert st2 g = stream convert st g" for g
    by (simp add: st2_def stream_def)
  show ?thesis
  proof (cases "counter (bfs st ?o) = BF_FREE")
    case True
    with inv have no: "nextone st = ?o" and fe: "frderr f = None"
      by (simp_all add: src_inv_def)
    obtain st3 f3 where ra: "read_ahead (int n) convert st2 f = (st3, f3)" by force
    have "counter (bfs st2 (nextone st2)) = BF_FREE" using True no by (simp add: st2_def)
    from read_ahead_fills [OF this fe ra] obtain b where
      b2: "bfs st3 = (bfs st2)(nextone st2 := b)" "bf_data b = take n (stream convert st2 f)"
         "counter b = int (length (bf_data b))" "stream convert st3 f3 = drop n (stream convert st2 f)"
         "nextone st3 = (\<not> nextone st2)" "current st3 = current st2" "frderr f3 = None"
      by blast
    moreover have "nextone st2 = ?o" "current st2 = ?o" using no by (simp_all add: st2_def)
    ultimately have b: "bfs st3 = (bfs st2)(?o := b)" "bf_data b = take n (stream convert st f)"
         "counter b = int (length (bf_data b))" "stream convert st3 f3 = drop n (stream convert st f)"
         "nextone st3 = ?c" "current st3 = ?o" "frderr f3 = None"
      by (simp_all add: s2)
    have "(k, st', f') = (counter b, st3, f3)"
      using r True ra b(1) by (simp add: readit_def Let_def st2_def)
    with b True show ?thesis
      by (simp add: src_blk_def src_pending_def src_inv_def Let_def st2_def)
  next
    case False
    have "(k, st', f') = (counter (bfs st ?o), st2, f)"
      using r False by (simp add: readit_def Let_def st2_def)
    moreover have "length (bf_data (bfs st ?o)) = nat (counter (bfs st ?o))"
      by (simp add: bf_data_def)
    ultimately show ?thesis using False inv s2 [of f]
      by (auto simp: src_inv_def src_blk_def src_pending_def Let_def st2_def)
  qed
qed

lemma read_ahead_laws:
  assumes inv: "src_inv n convert (st, f)" and r: "read_ahead (int n) convert st f = (st', f')"
  shows "src_blk (st', f') = src_blk (st, f) \<and>
         src_pending convert (st', f') = src_pending convert (st, f) \<and> src_inv n convert (st', f')"
proof (cases "counter (bfs st (\<not> current st)) = BF_FREE")
  case True
  with inv have no: "nextone st = (\<not> current st)" and fe: "frderr f = None"
    by (simp_all add: src_inv_def)
  with True have fr: "counter (bfs st (nextone st)) = BF_FREE" by simp
  from read_ahead_fills [OF fr fe r] obtain b where
    b: "bfs st' = (bfs st)(nextone st := b)" "bf_data b = take n (stream convert st f)"
       "counter b = int (length (bf_data b))" "stream convert st' f' = drop n (stream convert st f)"
       "nextone st' = (\<not> nextone st)" "current st' = current st" "frderr f' = None"
    by blast
  with no inv True show ?thesis
    by (auto simp: src_blk_def src_pending_def src_inv_def Let_def)
next
  case False
  with inv have "counter (bfs st (nextone st)) \<noteq> BF_FREE" by (simp add: src_inv_def Let_def)
  with r inv show ?thesis by (simp add: read_ahead_nop)
qed

lemma bf_data_hdr:
  "length h = 4 \<Longrightarrow> bf_data (b\<lparr>bbuf := buf_write (bbuf b) 0 h\<rparr>) = bf_data b"
  by (simp add: bf_data_def buf_read_write_disjoint)

lemma cur_write_hdr_frame:
  "length h = 4 \<Longrightarrow> bf_data (bfs (cur_write 0 h st) i) = bf_data (bfs st i)"
  "counter (bfs (cur_write off h st) i) = counter (bfs st i)"
  "stream convert (cur_write off h st) f = stream convert st f"
  "current (cur_write off h st) = current st" "nextone (cur_write off h st) = nextone st"
  "prevchar (cur_write off h st) = prevchar st" "newline (cur_write off h st) = newline st"
  by (simp_all add: cur_write_def cur_buf_def bf_data_hdr stream_def)

lemma src_hdr_laws:
  assumes "length h = 4"
  shows "src_blk (src_hdr h s) = src_blk s" and "src_pending convert (src_hdr h s) = src_pending convert s"
    and "src_inv n convert s \<Longrightarrow> src_inv n convert (src_hdr h s)"
proof -
  obtain st f where s: "s = (st, f)" by force
  show "src_blk (src_hdr h s) = src_blk s"
    using assms s by (simp add: src_hdr_def src_blk_def cur_write_hdr_frame)
  show "src_pending convert (src_hdr h s) = src_pending convert s"
    using assms s by (simp add: src_hdr_def src_pending_def cur_write_hdr_frame Let_def)
  show "src_inv n convert (src_hdr h s)" if "src_inv n convert s"
    using assms s that by (simp add: src_hdr_def src_inv_def cur_write_hdr_frame Let_def)
qed

interpretation src: block_source "src_next n convert" "src_ahead n convert" src_hdr src_blk
  "src_pending convert" "src_inv n convert" n for n convert
proof
  fix s
  assume "src_inv n convert s"
  moreover obtain st f where s: "s = (st, f)" by force
  moreover obtain k st' f' where r: "readit (int n) convert st f = (k, st', f')"
    by (metis prod_cases3)
  moreover obtain st2 f2 where a: "read_ahead (int n) convert st f = (st2, f2)" by force
  ultimately have laws: "src_blk (st', f') = take n (src_pending convert s)"
      "k = int (length (src_blk (st', f')))"
      "src_pending convert (st', f') = drop n (src_pending convert s)" "src_inv n convert (st', f')"
      "src_blk (st2, f2) = src_blk s" "src_pending convert (st2, f2) = src_pending convert s"
      "src_inv n convert (st2, f2)"
    using readit_laws [OF _ r] read_ahead_laws [OF _ a] by simp_all
  have nx: "src_next n convert s = (k, st', f')" and ah: "src_ahead n convert s = (st2, f2)"
    using s r a by (simp_all add: src_next_def src_ahead_def)
  show "src_blk (snd (src_next n convert s)) = take n (src_pending convert s)"
    and "fst (src_next n convert s) = int (length (src_blk (snd (src_next n convert s))))"
    and "src_pending convert (snd (src_next n convert s)) = drop n (src_pending convert s)"
    and "src_inv n convert (snd (src_next n convert s))"
    and "src_blk (src_ahead n convert s) = src_blk s"
    and "src_pending convert (src_ahead n convert s) = src_pending convert s"
    and "src_inv n convert (src_ahead n convert s)"
    using laws nx ah by simp_all
qed (simp_all add: src_hdr_laws)

lemma src_start:
  "frderr f = None \<Longrightarrow> src_inv n convert (r_init st, f)"
  "src_pending convert (r_init st, f) = mode_enc convert (frest f)"
  by (simp_all add: src_inv_def r_init_def rw_init_def src_pending_def stream_def owed_def mode_enc_def)

subsection \<open>The write side is a block sink\<close>

text \<open>The file is positioned at its end, and a CR seen last is the last byte written.\<close>

definition out_inv :: "int \<Rightarrow> cfile \<Rightarrow> bool" where
  "out_inv pc f = (fpos f = length (fdata f) \<and> fspace f = None \<and>
     (pc = 13 \<longrightarrow> fdata f \<noteq> [] \<and> last (fdata f) = CR))"

definition snk_inv :: "bool \<Rightarrow> subs \<times> cfile \<Rightarrow> bool" where
  "snk_inv convert = (\<lambda>(st, f).
     out_inv (if convert then prevchar st else - 1) f \<and>
     counter (bfs st (current st)) = BF_ALLOC \<and>
     (let b = bfs st (\<not> current st)
      in if nextone st = current st then counter b = BF_FREE else 0 \<le> counter b))"

definition snk_wait :: "subs \<Rightarrow> char list" where
  "snk_wait st = (if nextone st = current st then [] else bf_data (bfs st (\<not> current st)))"

definition snk_ext :: "bool \<Rightarrow> char list \<times> bool \<Rightarrow> char list \<Rightarrow> char list \<times> bool" where
  "snk_ext convert s xs = (if convert then foldl na_put s xs else (fst s @ xs, snd s))"

definition snk_out :: "bool \<Rightarrow> subs \<times> cfile \<Rightarrow> char list \<times> bool" where
  "snk_out convert = (\<lambda>(st, f).
     snk_ext convert (fdata f, convert \<and> prevchar st = 13) (snk_wait st))"

definition snk_recvd :: "char list \<Rightarrow> subs \<times> cfile \<Rightarrow> subs \<times> cfile" where
  "snk_recvd p = (\<lambda>(st, f). (cur_write 0 p st, f))"

definition snk_data :: "subs \<times> cfile \<Rightarrow> nat \<Rightarrow> char list" where
  "snk_data = (\<lambda>(st, f) n. buf_read (cur_buf st) 4 n)"

definition snk_store :: "bool \<Rightarrow> int \<Rightarrow> subs \<times> cfile \<Rightarrow> subs \<times> cfile" where
  "snk_store convert ct = (\<lambda>(st, f). snd (writeit ct convert st f))"

definition snk_flush :: "bool \<Rightarrow> subs \<times> cfile \<Rightarrow> subs \<times> cfile" where
  "snk_flush convert = (\<lambda>(st, f). snd (write_behind convert st f))"

lemma snk_ext_append: "snk_ext convert (snk_ext convert s xs) ys = snk_ext convert s (xs @ ys)"
  by (simp add: snk_ext_def)

lemma snk_ext_Nil [simp]: "snk_ext convert s [] = s"
  by (simp add: snk_ext_def)

lemma fseek_putc:
  "fpos f = length (fdata f) \<Longrightarrow> fdata f \<noteq> [] \<Longrightarrow>
     putc c (fseek_back f) = f\<lparr>fdata := butlast (fdata f) @ [c]\<rparr>"
  by (cases "fdata f" rule: rev_cases) (simp_all add: fseek_back_def put_at_def)

lemma putc_end:
  "fpos f = length (fdata f) \<Longrightarrow> fspace f = None \<Longrightarrow>
     putc c f = f\<lparr>fdata := fdata f @ [c], fpos := Suc (length (fdata f))\<rparr>"
  by (simp add: put_at_def)

lemma unconv_out:
  "out_inv pc f \<Longrightarrow> unconv xs pc f = (f', pc') \<Longrightarrow>
     (fdata f', pc' = 13) = foldl na_put (fdata f, pc = 13) xs \<and> out_inv pc' f'"
proof (induction xs arbitrary: pc f)
  case Nil
  then show ?case by simp
next
  case (Cons c xs)
  have fe: "fpos f = length (fdata f)" "fspace f = None"
    and last: "pc = 13 \<Longrightarrow> fdata f \<noteq> [] \<and> last (fdata f) = CR"
    using Cons.prems(1) by (simp_all add: out_inv_def)
  consider "pc = 13" "c = LF" | "pc = 13" "c = NUL" | "pc \<noteq> 13 \<or> c \<noteq> LF \<and> c \<noteq> NUL" by blast
  then show ?case
  proof cases
    case 1
    let ?g = "f\<lparr>fdata := butlast (fdata f) @ [LF]\<rparr>"
    have "out_inv (schar LF) ?g" using fe last 1 by (simp add: out_inv_def)
    moreover have "unconv xs (schar LF) ?g = (f', pc')"
      using Cons.prems(2) 1 fe last by (simp add: fseek_putc)
    ultimately show ?thesis using Cons.IH 1 by fastforce
  next
    case 2
    have "out_inv (schar NUL) f" using fe by (simp add: out_inv_def)
    moreover have "unconv xs (schar NUL) f = (f', pc')"
      using Cons.prems(2) 2 by simp
    ultimately show ?thesis using Cons.IH 2 by fastforce
  next
    case 3
    let ?g = "f\<lparr>fdata := fdata f @ [c], fpos := Suc (length (fdata f))\<rparr>"
    have "out_inv (schar c) ?g" using fe by (simp add: out_inv_def)
    moreover have "unconv xs (schar c) ?g = (f', pc')"
      using Cons.prems(2) 3 fe by (auto simp: putc_end)
    ultimately show ?thesis using Cons.IH [of "schar c" ?g] 3 by auto
  qed
qed

text \<open>Flushing the buffer that waits, for both modes.\<close>

lemma write_behind_waiting:
  assumes nx: "nextone st = i" and c: "0 \<le> counter (bfs st i)"
    and oi: "out_inv (if convert then prevchar st else - 1) f"
    and wb: "write_behind convert st f = (k, st', f')"
  shows "bfs st' = (bfs st)(i := (bfs st i)\<lparr>counter := BF_FREE\<rparr>) \<and> nextone st' = (\<not> i) \<and>
         current st' = current st \<and> out_inv (if convert then prevchar st' else - 1) f' \<and>
         (fdata f', convert \<and> prevchar st' = 13)
           = snk_ext convert (fdata f, convert \<and> prevchar st = 13) (bf_data (bfs st i))"
proof (cases "counter (bfs st i) = 0")
  case True
  with assms show ?thesis
    by (auto simp: write_behind_def Let_def bf_data_def)
next
  case False
  let ?d = "bf_data (bfs st i)"
  show ?thesis
  proof (cases convert)
    case True
    obtain g pc where u: "unconv ?d (prevchar st) f = (g, pc)" by force
    have "(fdata g, pc = 13) = foldl na_put (fdata f, prevchar st = 13) ?d \<and> out_inv pc g"
      using unconv_out [OF _ u] oi True by simp
    with u True False c nx wb show ?thesis
      by (auto simp: write_behind_def Let_def bf_data_def snk_ext_def)
  next
    case c0: False
    with oi have "fpos f = length (fdata f)" "fspace f = None" by (simp_all add: out_inv_def)
    with c0 False c nx wb show ?thesis
      by (auto simp: write_behind_def Let_def bf_data_def snk_ext_def sys_write_append out_inv_def)
  qed
qed

lemma write_behind_nop:
  "counter (bfs st (nextone st)) < - 1 \<Longrightarrow> write_behind convert st f = (0, st, f)"
  by (simp add: write_behind_def Let_def)

lemma snk_flush_laws:
  assumes "snk_inv convert (st, f)"
  shows "snk_out convert (snk_flush convert (st, f)) = snk_out convert (st, f)
       \<and> snk_inv convert (snk_flush convert (st, f))"
proof (cases "nextone st = current st")
  case True
  with assms show ?thesis
    by (simp add: snk_inv_def snk_flush_def write_behind_nop)
next
  case False
  obtain k st' f' where wb: "write_behind convert st f = (k, st', f')" by (metis prod_cases3)
  have "0 \<le> counter (bfs st (nextone st))"
    using assms False by (simp add: snk_inv_def Let_def)
  from write_behind_waiting [OF refl this _ wb] assms False
  show ?thesis
    by (auto simp: snk_inv_def snk_flush_def wb snk_out_def snk_wait_def Let_def)
qed

lemma snk_store_laws:
  assumes inv: "snk_inv convert (st, f)" and ct: "0 \<le> ct"
  shows "snk_out convert (snk_store convert ct (st, f))
           = snk_ext convert (snk_out convert (st, f)) (snk_data (st, f) (nat ct))
       \<and> snk_inv convert (snk_store convert ct (st, f))"
proof -
  let ?c = "current st" and ?o = "\<not> current st"
  define st2 where "st2 = st\<lparr>bfs := (bfs st)(?c := (bfs st ?c)\<lparr>counter := ct\<rparr>), current := ?o\<rparr>"
  have d: "bf_data (bfs st2 ?c) = snk_data (st, f) (nat ct)"
    by (simp add: bf_data_def snk_data_def st2_def cur_buf_def)
  have oi: "out_inv (if convert then prevchar st else - 1) f"
    using inv by (simp add: snk_inv_def)
  show ?thesis
  proof (cases "nextone st = ?c")
    case True
    then have "counter (bfs st ?o) = BF_FREE" using inv by (simp add: snk_inv_def)
    then have "snk_store convert ct (st, f)
        = (st2\<lparr>bfs := (bfs st2)(?o := (bfs st2 ?o)\<lparr>counter := BF_ALLOC\<rparr>)\<rparr>, f)"
      by (simp add: snk_store_def writeit_def Let_def st2_def)
    with True oi ct d show ?thesis
      by (simp add: snk_inv_def snk_out_def snk_wait_def Let_def st2_def split: if_splits)
  next
    case False
    then have nx: "nextone st2 = ?o" and c: "0 \<le> counter (bfs st2 ?o)"
      using inv by (auto simp: snk_inv_def st2_def Let_def split: if_splits)
    obtain k st3 f3 where wb: "write_behind convert st2 f = (k, st3, f3)" by (metis prod_cases3)
    have "out_inv (if convert then prevchar st2 else - 1) f"
      using oi by (simp add: st2_def split: if_splits)
    from write_behind_waiting [OF nx c this wb]
    have b: "bfs st3 = (bfs st2)(?o := (bfs st2 ?o)\<lparr>counter := BF_FREE\<rparr>)" "nextone st3 = ?c"
        "current st3 = ?o" "out_inv (if convert then prevchar st3 else - 1) f3"
        "(fdata f3, convert \<and> prevchar st3 = 13)
           = snk_ext convert (fdata f, convert \<and> prevchar st = 13) (bf_data (bfs st ?o))"
      by (simp_all add: st2_def)
    have st: "snk_store convert ct (st, f)
        = (st3\<lparr>bfs := (bfs st3)(?o := (bfs st3 ?o)\<lparr>counter := BF_ALLOC\<rparr>)\<rparr>, f3)"
      using c wb by (simp add: snk_store_def writeit_def Let_def st2_def)
    have "bf_data (bfs st3 ?c) = snk_data (st, f) (nat ct)" using d b(1) by simp
    moreover have "counter (bfs st3 ?c) = ct" using b(1) by (simp add: st2_def)
    ultimately show ?thesis using False b(2-5) ct
      by (simp add: st snk_inv_def snk_out_def snk_wait_def Let_def split: if_splits)
  qed
qed

lemma snk_recvd_laws:
  "snk_inv convert s \<Longrightarrow> snk_out convert (snk_recvd p s) = snk_out convert s"
  "snk_inv convert s \<Longrightarrow> snk_inv convert (snk_recvd p s)"
  "4 \<le> length p \<Longrightarrow> snk_data (snk_recvd p s) (length p - 4) = drop 4 p"
proof -
  obtain st f where s: "s = (st, f)" by force
  have o: "bfs (cur_write 0 p st) (\<not> current st) = bfs st (\<not> current st)"
    by (simp add: cur_write_def)
  show "snk_out convert (snk_recvd p s) = snk_out convert s" if "snk_inv convert s"
    using that s o by (simp add: snk_out_def snk_recvd_def snk_wait_def cur_write_hdr_frame)
  show "snk_inv convert (snk_recvd p s)" if "snk_inv convert s"
    using that s o
    by (simp add: snk_inv_def snk_recvd_def cur_write_hdr_frame Let_def split: if_splits)
  show "snk_data (snk_recvd p s) (length p - 4) = drop 4 p" if "4 \<le> length p"
    using that s
    by (intro nth_equalityI) (auto simp: snk_data_def snk_recvd_def cur_buf_def cur_write_def buf_write_def)
qed

interpretation snk: block_sink snk_recvd snk_data "snk_store convert" "snk_flush convert"
  "snk_out convert" "snk_ext convert" "snk_inv convert" for convert
proof
  fix s :: "subs \<times> cfile" and ct :: int
  obtain st f where s: "s = (st, f)" by force
  assume inv: "snk_inv convert s"
  show "snk_out convert (snk_flush convert s) = snk_out convert s"
    and "snk_inv convert (snk_flush convert s)"
    using inv s snk_flush_laws by auto
  assume "0 \<le> ct"
  then show "snk_out convert (snk_store convert ct s) = snk_ext convert (snk_out convert s) (snk_data s (nat ct))"
    and "snk_inv convert (snk_store convert ct s)"
    using inv s snk_store_laws by auto
qed (auto simp: snk_recvd_laws)

lemma snk_start:
  "fdata f = [] \<Longrightarrow> fpos f = 0 \<Longrightarrow> fspace f = None \<Longrightarrow> snk_inv convert (w_init st, f)"
  "fdata f = [] \<Longrightarrow> snk_out convert (w_init st, f) = ([], False)"
  by (simp_all add: snk_inv_def out_inv_def w_init_def rw_init_def snk_out_def snk_wait_def)

text \<open>After a flush nothing waits: the file holds the whole output.\<close>

lemma snk_flushed_file:
  assumes "snk_inv convert (st, f)" and "snk_flush convert (st, f) = (st', f')"
  shows "fdata f' = fst (snk_out convert (st, f))"
proof -
  have "snk_out convert (st', f') = snk_out convert (st, f)" and "snk_inv convert (st', f')"
    using assms snk.flush_out snk.flush_inv by metis+
  moreover have "snk_wait st' = []"
  proof (cases "nextone st = current st")
    case True
    with assms show ?thesis by (auto simp: snk_inv_def snk_flush_def write_behind_nop snk_wait_def)
  next
    case False
    obtain k where wb: "write_behind convert st f = (k, st', f')"
      using assms(2) by (cases "write_behind convert st f") (simp add: snk_flush_def)
    have "0 \<le> counter (bfs st (nextone st))" "out_inv (if convert then prevchar st else - 1) f"
      using assms(1) False by (simp_all add: snk_inv_def Let_def)
    from write_behind_waiting [OF refl this wb] False show ?thesis by (auto simp: snk_wait_def)
  qed
  moreover have "fst (snk_out convert (st', f')) = fdata f'" if "snk_wait st' = []"
    using that by (simp add: snk_out_def)
  ultimately show ?thesis by simp
qed

lemma snk_ext_mode_dec: "fst (snk_ext convert ([], False) xs) = mode_dec convert xs"
  by (simp add: snk_ext_def mode_dec_def na_dec_def)

end
