(* ===== verification/Options.thy ===== *)
theory Options
  imports TftpSubs
begin

text \<open>
  Option negotiation (\<open>tftpd.c\<close>, RFC 2347 to 2349): the global variables the options set,
  the six option handlers, the option table and \<open>do_opt\<close>, which appends an accepted option
  to the OACK packet under construction in \<open>ackbuf\<close>. A handler gets the value behind
  \<open>vp\<close> and returns its verdict, the new value behind \<open>vp\<close>, and the new globals.
\<close>

unbundle bit_operations_syntax

abbreviation TIMEOUT :: u64 where "TIMEOUT \<equiv> 1000000"
abbreviation TIMEOUT_LIMIT :: u64 where "TIMEOUT_LIMIT \<equiv> 63"
abbreviation SEGSIZE :: int where "SEGSIZE \<equiv> 512"

record opts =
  segsize :: int
  max_blksize :: u32
  tsize_ok :: bool
  tsize :: int
  timeout :: u64
  rexmtval :: u64
  maxtimeout :: u64
  rollover_val :: u16
  blksize_set :: bool

definition init_opts :: opts where
  "init_opts = \<lparr>segsize = SEGSIZE, max_blksize = of_nat MAX_SEGSIZE, tsize_ok = False, tsize = 0,
     timeout = TIMEOUT, rexmtval = TIMEOUT, maxtimeout = TIMEOUT_LIMIT * TIMEOUT,
     rollover_val = 0, blksize_set = False\<rparr>"

text \<open>Storing an unsigned 64-bit value in an \<open>int\<close>.\<close>

definition to_int32 :: "u64 \<Rightarrow> int" where
  "to_int32 w = sint (ucast w :: u32)"

type_synonym opt_fnc = "u64 \<Rightarrow> opts \<Rightarrow> bool \<times> u64 \<times> opts"

definition set_blksize :: opt_fnc where
  "set_blksize vp g =
     (if blksize_set g then (False, vp, g)
      else if vp < 8 then (False, vp, g)
      else let sz = (if ucast (max_blksize g) < vp then ucast (max_blksize g) else vp)
           in (True, word_of_int (to_int32 sz), g\<lparr>segsize := to_int32 sz, blksize_set := True\<rparr>))"

text \<open>The loop \<open>while (sz >>= 1) sz1 <<= 1\<close>.\<close>

function pow2_loop :: "u64 \<Rightarrow> u32 \<Rightarrow> u32" where
  "pow2_loop sz sz1 =
     (let sz' = drop_bit 1 sz in if sz' = 0 then sz1 else pow2_loop sz' (push_bit 1 sz1))"
  by pat_completeness auto
termination
proof (relation "measure (\<lambda>(sz, sz1). unat sz)")
  fix sz sz' :: u64 and sz1 :: u32
  assume a: "sz' = drop_bit 1 sz" "sz' \<noteq> 0"
  have "unat sz' = unat sz div 2" using a(1) by (simp add: drop_bit_eq_div unat_div)
  moreover have "unat sz' \<noteq> 0" using a(2) by (simp only: unat_eq_0 simp_thms)
  ultimately show "((sz', push_bit 1 sz1), sz, sz1) \<in> measure (\<lambda>(sz, sz1). unat sz)" by simp
qed simp

declare pow2_loop.simps [simp del]

definition set_blksize2 :: opt_fnc where
  "set_blksize2 vp g =
     (if blksize_set g then (False, vp, g)
      else if vp < 8 then (False, vp, g)
      else let sz = (if ucast (max_blksize g) < vp then ucast (max_blksize g)
                     else if vp AND (vp - 1) \<noteq> 0 then ucast (pow2_loop vp 1) else vp)
           in (True, word_of_int (to_int32 sz), g\<lparr>segsize := to_int32 sz, blksize_set := True\<rparr>))"

definition set_rollover :: opt_fnc where
  "set_rollover vp g =
     (if 65535 < vp then (False, vp, g) else (True, vp, g\<lparr>rollover_val := ucast vp\<rparr>))"

definition set_tsize :: opt_fnc where
  "set_tsize vp g =
     (if \<not> tsize_ok g then (False, vp, g)
      else (True, (if vp = 0 then word_of_int (tsize g) else vp), g))"

definition set_timeout :: opt_fnc where
  "set_timeout vp g =
     (if vp < 1 \<or> 255 < vp then (False, vp, g)
      else let t = vp * 1000000
           in (True, vp, g\<lparr>rexmtval := t, timeout := t, maxtimeout := t * TIMEOUT_LIMIT\<rparr>))"

definition set_utimeout :: opt_fnc where
  "set_utimeout vp g =
     (if vp < 10000 \<or> 255000000 < vp then (False, vp, g)
      else (True, vp, g\<lparr>rexmtval := vp, timeout := vp, maxtimeout := vp * TIMEOUT_LIMIT\<rparr>))"

type_synonym opt_table = "(string \<times> opt_fnc) list"

definition options :: opt_table where
  "options = [(''blksize'', set_blksize), (''blksize2'', set_blksize2), (''tsize'', set_tsize),
              (''timeout'', set_timeout), (''utimeout'', set_utimeout), (''rollover'', set_rollover)]"

text \<open>\<open>nak\<close> and \<open>exit\<close> end the process; what they carry is the error code and the text.\<close>

type_synonym nak_msg = "int \<times> string option"

abbreviation EUNDEF :: int where "EUNDEF \<equiv> 0"
abbreviation ENOTFOUND :: int where "ENOTFOUND \<equiv> 1"
abbreviation EACCESS :: int where "EACCESS \<equiv> 2"
abbreviation ENOSPACE :: int where "ENOSPACE \<equiv> 3"
abbreviation EBADOP :: int where "EBADOP \<equiv> 4"
abbreviation EEXISTS :: int where "EEXISTS \<equiv> 6"
abbreviation EOPTNEG :: int where "EOPTNEG \<equiv> 8"

text \<open>The OACK under construction: \<open>ackbuf\<close>, and the offset of \<open>ap\<close> in it.\<close>

record oack =
  ackbuf :: cbuf
  ap :: nat

definition do_opt :: "opt_table \<Rightarrow> string \<Rightarrow> string \<Rightarrow> oack \<Rightarrow> opts \<Rightarrow> nak_msg + (oack \<times> opts)" where
  "do_opt tab opt val a g0 =
     (let g = g0\<lparr>blksize_set := False\<rparr>
      in if opt = [] \<or> val = [] then Inr (a, g)
      else let (v, vend, erange) = strtoumax val
      in if vend \<noteq> [] \<or> erange then Inr (a, g)
      else case find (\<lambda>(name, fnc). strcaseeq name opt) tab of
             None \<Rightarrow> Inr (a, g)
           | Some (name, fnc) \<Rightarrow>
               (case fnc v g of
                  (False, v', g') \<Rightarrow> Inl (EOPTNEG, Some ''Unsupported option(s) requested'')
                | (True, v', g') \<Rightarrow>
                    (let ret = utoa (unat v'); p = ap a
                     in if PKTSIZE \<le> p + length opt + length ret + 2
                        then Inl (EOPTNEG, Some ''Insufficient space for options'')
                        else Inr (\<lparr>ackbuf = buf_write (buf_write (ackbuf a) p (opt @ [NUL]))
                                              (p + length opt + 1) (ret @ [NUL]),
                                   ap = p + length opt + 1 + length ret + 1\<rparr>, g'))))"

subsection \<open>The invariant of the transfer parameters\<close>

definition opts_inv :: "opts \<Rightarrow> bool" where
  "opts_inv g =
     (512 \<le> unat (max_blksize g) \<and> unat (max_blksize g) \<le> MAX_SEGSIZE \<and>
      8 \<le> segsize g \<and> segsize g \<le> int (unat (max_blksize g)) \<and>
      10000 \<le> unat (rexmtval g) \<and> unat (rexmtval g) \<le> 255000000 \<and>
      timeout g = rexmtval g \<and> unat (maxtimeout g) = 63 * unat (rexmtval g))"

text \<open>What every option handler promises to \<open>do_opt\<close>.\<close>

locale opt_handler =
  fixes h :: opt_fnc
  assumes keeps_inv: "opts_inv g \<Longrightarrow> h v g = (b, v', g') \<Longrightarrow> opts_inv g'"
    and refusal: "h v g = (False, v', g') \<Longrightarrow> v' = v \<and> g' = g"
    and limits: "h v g = (b, v', g') \<Longrightarrow>
      max_blksize g' = max_blksize g \<and> tsize g' = tsize g \<and> tsize_ok g' = tsize_ok g"
    and rollover: "h v g = (b, v', g') \<Longrightarrow>
      rollover_val g' = rollover_val g \<or> unat (rollover_val g') = unat v"
begin

lemma keeps_limit: "opts_inv g \<Longrightarrow> h v g = (b, v', g') \<Longrightarrow> segsize g' \<le> int (unat (max_blksize g))"
proof -
  assume g: "opts_inv g" and h: "h v g = (b, v', g')"
  have "segsize g' \<le> int (unat (max_blksize g'))"
    using keeps_inv [OF g h] by (simp add: opts_inv_def)
  with limits [OF h] show ?thesis by simp
qed

end

lemma ucast_max: "unat (ucast (max_blksize g) :: u64) = unat (max_blksize g)"
proof -
  have "unat (max_blksize g) < 2 ^ 64"
    using unsigned_less [of "max_blksize g", where ?'a = nat] by simp
  then show ?thesis by (simp add: unsigned_ucast_eq take_bit_nat_eq_self)
qed

lemma to_int32_small: "unat w \<le> MAX_SEGSIZE \<Longrightarrow> to_int32 w = int (unat w)"
proof -
  assume w: "unat w \<le> MAX_SEGSIZE"
  then have "int (unat w) \<le> int MAX_SEGSIZE" by (simp only: of_nat_le_iff)
  then have "uint w \<le> 65464" by simp
  then have "signed_take_bit 31 (uint w) = uint w"
    by (intro signed_take_bit_int_eq_self) (auto intro: order_trans [of _ 0])
  then have "to_int32 w = uint w"
    unfolding to_int32_def ucast_eq by (subst sint_sbintrunc') simp
  then show ?thesis by simp
qed

lemma word_of_int_to_int32: "unat w \<le> MAX_SEGSIZE \<Longrightarrow> word_of_int (to_int32 w) = (w :: u64)"
  by (simp add: to_int32_small)

text \<open>A clamped block size lies between 8 and the configured maximum.\<close>

lemma clamp_bounds:
  assumes "opts_inv g" and "\<not> vp < (8 :: u64)" and "sz = (if ucast (max_blksize g) < vp then ucast (max_blksize g) else vp)"
  shows "8 \<le> unat sz \<and> unat sz \<le> unat (max_blksize g) \<and> unat sz \<le> MAX_SEGSIZE"
  using assms by (auto simp: opts_inv_def word_less_nat_alt ucast_max)

lemma pow2_loop_eq:
  "2 ^ k \<le> unat sz \<Longrightarrow> unat sz < 2 ^ Suc k \<Longrightarrow> pow2_loop sz sz1 = push_bit k sz1"
proof (induction k arbitrary: sz sz1)
  case 0
  then have "unat sz = 1" by simp
  then have "unat (drop_bit 1 sz) = 0" by (simp add: unat_drop_bit_eq drop_bit_eq_div unat_div)
  then have "drop_bit 1 sz = 0" by (simp only: unat_eq_0)
  then show ?case by (subst pow2_loop.simps) simp
next
  case (Suc k)
  have d: "unat (drop_bit 1 sz) = unat sz div 2" by (simp add: drop_bit_eq_div unat_div)
  with Suc.prems have b: "2 ^ k \<le> unat (drop_bit 1 sz)" "unat (drop_bit 1 sz) < 2 ^ Suc k"
    by simp_all
  then have "0 < unat (drop_bit 1 sz)" by (metis gr0I not_less power_eq_0_iff zero_neq_numeral le_zero_eq)
  then have "drop_bit 1 sz \<noteq> 0" by (metis less_numeral_extra(3) unsigned_0)
  then have "pow2_loop sz sz1 = pow2_loop (drop_bit 1 sz) (push_bit 1 sz1)"
    by (subst pow2_loop.simps) (simp add: Let_def)
  also have "\<dots> = push_bit k (push_bit 1 sz1)" using Suc.IH b by blast
  finally show ?case by (simp add: push_bit_push_bit add.commute)
qed

lemma log2_bracket: "0 < n \<Longrightarrow> \<exists>k. 2 ^ k \<le> n \<and> n < 2 ^ Suc k" for n :: nat
proof (induction n rule: less_induct)
  case (less n)
  show ?case
  proof (cases "n = 1")
    case True
    then show ?thesis by (intro exI [of _ 0]) simp
  next
    case False
    with less.prems obtain k where "2 ^ k \<le> n div 2 \<and> n div 2 < 2 ^ Suc k"
      using less.IH [of "n div 2"] by auto
    then show ?thesis by (intro exI [of _ "Suc k"]) auto
  qed
qed

text \<open>The loop rounds a size in range down to a power of two.\<close>

lemma pow2_loop_floor:
  assumes "8 \<le> unat v" and "unat v \<le> MAX_SEGSIZE"
  shows "\<exists>k. unat (ucast (pow2_loop v 1) :: u64) = 2 ^ k \<and> 2 ^ k \<le> unat v \<and> unat v < 2 ^ Suc k"
proof -
  obtain k where k: "2 ^ k \<le> unat v" "unat v < 2 ^ Suc k"
    using log2_bracket [of "unat v"] assms by auto
  have "(2 :: nat) ^ k < 2 ^ 32" using k(1) assms(2) by simp
  then have "k < 32" by (rule power_less_imp_less_exp [rotated]) simp
  then have "unat (of_nat (2 ^ k) :: u32) = 2 ^ k"
    by (simp only: unsigned_of_nat) (simp add: take_bit_nat_eq_self)
  then have "unat (push_bit k 1 :: u32) = 2 ^ k" by (simp add: push_bit_eq_mult)
  moreover have "unat (ucast (pow2_loop v 1) :: u64) = unat (pow2_loop v 1)"
    using unsigned_less [of "pow2_loop v 1", where ?'a = nat]
    by (simp add: unsigned_ucast_eq take_bit_nat_eq_self)
  ultimately show ?thesis using k pow2_loop_eq [OF k] by auto
qed

subsection \<open>The handlers keep the contract\<close>

lemma set_size_inv:
  assumes "opts_inv g" and "8 \<le> unat sz" and "unat sz \<le> unat (max_blksize g)"
  shows "opts_inv (g\<lparr>segsize := to_int32 sz, blksize_set := True\<rparr>)"
proof -
  have "unat sz \<le> MAX_SEGSIZE" using assms by (simp add: opts_inv_def)
  then have "to_int32 sz = int (unat sz)" by (rule to_int32_small)
  moreover have "int 8 \<le> int (unat sz)" "int (unat sz) \<le> int (unat (max_blksize g))"
    using assms by (simp_all only: of_nat_le_iff)
  ultimately show ?thesis using assms(1) by (simp add: opts_inv_def)
qed

lemma set_timers_inv:
  assumes "opts_inv g" and "10000 \<le> unat t" and "unat t \<le> 255000000"
  shows "opts_inv (g\<lparr>rexmtval := t, timeout := t, maxtimeout := t * TIMEOUT_LIMIT\<rparr>)"
proof -
  have "unat (t * 63) = unat t * 63" using assms(3) by (simp add: unat_word_ariths)
  with assms show ?thesis by (simp add: opts_inv_def)
qed

interpretation blksize_opt: opt_handler set_blksize
proof
  fix g v b v' g'
  assume inv: "opts_inv g" and r: "set_blksize v g = (b, v', g')"
  show "opts_inv g'"
  proof (cases "blksize_set g \<or> v < 8")
    case True
    with r inv show ?thesis by (auto simp: set_blksize_def split: if_splits)
  next
    case False
    define sz where "sz = (if ucast (max_blksize g) < v then ucast (max_blksize g) else v)"
    have "g' = g\<lparr>segsize := to_int32 sz, blksize_set := True\<rparr>"
      using r False by (auto simp: set_blksize_def Let_def sz_def split: if_splits)
    moreover have "\<not> v < 8" using False by simp
    then have "8 \<le> unat sz \<and> unat sz \<le> unat (max_blksize g) \<and> unat sz \<le> MAX_SEGSIZE"
      using inv sz_def by (intro clamp_bounds)
    ultimately show ?thesis using inv set_size_inv by simp
  qed
qed (auto simp: set_blksize_def Let_def split: if_splits)

text \<open>The block size \<open>set_blksize2\<close> stores: the maximum, or a power of two.\<close>

lemma blksize2_size:
  assumes inv: "opts_inv g" and v: "\<not> v < (8 :: u64)"
    and sz: "sz = (if ucast (max_blksize g) < v then ucast (max_blksize g)
                   else if v AND (v - 1) \<noteq> 0 then ucast (pow2_loop v 1) else v)"
  shows "8 \<le> unat sz \<and> unat sz \<le> unat (max_blksize g)"
proof -
  have v8: "8 \<le> unat v" using v by (simp add: word_less_nat_alt)
  show ?thesis
  proof (cases "ucast (max_blksize g) < v")
    case True
    with sz inv show ?thesis by (simp add: ucast_max opts_inv_def)
  next
    case False
    then have le: "unat v \<le> unat (max_blksize g)" by (simp add: word_less_nat_alt ucast_max)
    then have "unat v \<le> MAX_SEGSIZE" using inv by (simp add: opts_inv_def)
    then obtain k where k: "unat (ucast (pow2_loop v 1) :: u64) = 2 ^ k" "2 ^ k \<le> unat v" "unat v < 2 ^ Suc k"
      using pow2_loop_floor [OF v8] by blast
    then have "(2 :: nat) ^ 3 < 2 ^ Suc k" using v8 by simp
    then have "3 < Suc k" by (rule power_less_imp_less_exp [rotated]) simp
    then have "(2 :: nat) ^ 3 \<le> 2 ^ k" by (intro power_increasing) simp_all
    with sz False le v8 k show ?thesis by (simp split: if_splits)
  qed
qed

interpretation blksize2_opt: opt_handler set_blksize2
proof
  fix g v b v' g'
  assume inv: "opts_inv g" and r: "set_blksize2 v g = (b, v', g')"
  show "opts_inv g'"
  proof (cases "blksize_set g \<or> v < 8")
    case True
    with r inv show ?thesis by (auto simp: set_blksize2_def split: if_splits)
  next
    case False
    define sz :: u64 where "sz = (if ucast (max_blksize g) < v then ucast (max_blksize g)
                   else if v AND (v - 1) \<noteq> 0 then ucast (pow2_loop v 1) else v)"
    have "g' = g\<lparr>segsize := to_int32 sz, blksize_set := True\<rparr>"
      using r False unfolding set_blksize2_def sz_def Let_def by (simp split: if_splits)
    moreover have "\<not> v < 8" using False by simp
    then have "8 \<le> unat sz \<and> unat sz \<le> unat (max_blksize g)"
      using inv sz_def by (intro blksize2_size)
    ultimately show ?thesis using inv set_size_inv by simp
  qed
qed (auto simp: set_blksize2_def Let_def split: if_splits)

lemma unat_ucast_u16: "\<not> 65535 < v \<Longrightarrow> unat (ucast v :: u16) = unat v" for v :: u64
  by (simp add: word_less_nat_alt unsigned_ucast_eq take_bit_nat_eq_self)

interpretation rollover_opt: opt_handler set_rollover
  by unfold_locales (auto simp: set_rollover_def opts_inv_def unat_ucast_u16 split: if_splits)

interpretation tsize_opt: opt_handler set_tsize
  by unfold_locales (auto simp: set_tsize_def split: if_splits)

interpretation timeout_opt: opt_handler set_timeout
proof
  fix g v b v' g'
  assume inv: "opts_inv g" and r: "set_timeout v g = (b, v', g')"
  show "opts_inv g'"
  proof (cases "v < 1 \<or> 255 < v")
    case True
    with r inv show ?thesis by (auto simp: set_timeout_def split: if_splits)
  next
    case False
    then have "1 \<le> unat v" "unat v \<le> 255" by (simp_all add: word_less_nat_alt)
    then have "unat (v * 1000000) = unat v * 1000000" by (simp add: unat_word_ariths)
    with \<open>1 \<le> unat v\<close> \<open>unat v \<le> 255\<close> inv False r set_timers_inv [of g "v * 1000000"]
    show ?thesis by (auto simp: set_timeout_def Let_def split: if_splits)
  qed
qed (auto simp: set_timeout_def Let_def split: if_splits)

interpretation utimeout_opt: opt_handler set_utimeout
proof
  fix g v b v' g'
  assume inv: "opts_inv g" and r: "set_utimeout v g = (b, v', g')"
  show "opts_inv g'"
  proof (cases "v < 10000 \<or> 255000000 < v")
    case True
    with r inv show ?thesis by (auto simp: set_utimeout_def split: if_splits)
  next
    case False
    then have "10000 \<le> unat v" "unat v \<le> 255000000" by (simp_all add: word_less_nat_alt)
    with inv False r set_timers_inv [of g v]
    show ?thesis by (auto simp: set_utimeout_def split: if_splits)
  qed
qed (auto simp: set_utimeout_def split: if_splits)

subsection \<open>Properties of the negotiation\<close>

lemma options_handlers: "h \<in> set (map snd options) \<Longrightarrow> opt_handler h"
  by (auto simp: options_def blksize_opt.opt_handler_axioms blksize2_opt.opt_handler_axioms
      tsize_opt.opt_handler_axioms timeout_opt.opt_handler_axioms utimeout_opt.opt_handler_axioms
      rollover_opt.opt_handler_axioms)

lemma opts_inv_blksize_set [simp]: "opts_inv (g\<lparr>blksize_set := b\<rparr>) = opts_inv g"
  by (simp add: opts_inv_def)

text \<open>The cases of \<open>do_opt\<close>: the option is passed over, or accepted and appended to the reply.\<close>

lemma do_opt_cases:
  assumes "do_opt tab opt val a g = Inr (a', g')"
  obtains (skipped) "a' = a" "g' = g\<lparr>blksize_set := False\<rparr>"
    "opt = [] \<or> val = [] \<or> snd (strtoumax val) \<noteq> ([], False) \<or> (\<forall>(name, fnc) \<in> set tab. \<not> strcaseeq name opt)"
  | (accepted) name fnc v v' where "(name, fnc) \<in> set tab" "strcaseeq name opt" "opt \<noteq> []" "val \<noteq> []"
    "strtoumax val = (v, [], False)" "fnc v (g\<lparr>blksize_set := False\<rparr>) = (True, v', g')"
    "ap a + length opt + length (utoa (unat v')) + 2 < PKTSIZE"
    "ackbuf a' = buf_write (buf_write (ackbuf a) (ap a) (opt @ [NUL]))
                   (ap a + length opt + 1) (utoa (unat v') @ [NUL])"
    "ap a' = ap a + length opt + length (utoa (unat v')) + 2"
proof -
  obtain v vend er where st: "strtoumax val = (v, vend, er)" by (metis prod_cases3)
  show thesis
  proof (cases "opt = [] \<or> val = [] \<or> vend \<noteq> [] \<or> er")
    case True
    with assms st have "a' = a \<and> g' = g\<lparr>blksize_set := False\<rparr>"
      by (simp add: do_opt_def Let_def split: if_splits)
    with True st show thesis by (intro skipped) auto
  next
    case False
    show thesis
    proof (cases "find (\<lambda>(name, fnc). strcaseeq name opt) tab")
      case None
      with False assms st have "a' = a \<and> g' = g\<lparr>blksize_set := False\<rparr>"
        by (simp add: do_opt_def Let_def)
      with None show thesis by (intro skipped) (auto simp: find_None_iff)
    next
      case (Some nf)
      obtain name fnc where nf: "nf = (name, fnc)" by force
      obtain b v' h where fn: "fnc v (g\<lparr>blksize_set := False\<rparr>) = (b, v', h)" by (metis prod_cases3)
      have mem: "(name, fnc) \<in> set tab" "strcaseeq name opt"
        using Some nf by (auto simp: find_Some_iff) (metis nth_mem)
      have b and "\<not> PKTSIZE \<le> ap a + length opt + length (utoa (unat v')) + 2"
        and "h = g'" and a': "a' = \<lparr>ackbuf = buf_write (buf_write (ackbuf a) (ap a) (opt @ [NUL]))
                   (ap a + length opt + 1) (utoa (unat v') @ [NUL]),
               ap = ap a + length opt + 1 + length (utoa (unat v')) + 1\<rparr>"
        using assms False st Some nf fn by (auto simp: do_opt_def Let_def split: bool.splits if_splits)
      then show thesis using False st mem fn by (intro accepted [of name fnc v v']) auto
    qed
  qed
qed

lemma do_opt_inv:
  assumes "opts_inv g" and "map snd tab = map snd options"
    and "do_opt tab opt val a g = Inr (a', g')"
  shows "opts_inv g' \<and>
    (rollover_val g' = rollover_val g \<or> (\<exists>v. strtoumax val = (v, [], False) \<and> unat (rollover_val g') = unat v))"
  using assms(3)
proof (cases rule: do_opt_cases)
  case skipped
  with assms(1) show ?thesis by simp
next
  case (accepted name fnc v v')
  then have "fnc \<in> set (map snd options)" using assms(2) by (metis image_eqI list.set_map snd_conv)
  then have h: "opt_handler fnc" by (rule options_handlers)
  have "opts_inv (g\<lparr>blksize_set := False\<rparr>)" using assms(1) by simp
  with h have "opts_inv g'" using accepted(6) by (rule opt_handler.keeps_inv)
  moreover have "rollover_val g' = rollover_val g \<or> unat (rollover_val g') = unat v"
    using opt_handler.rollover [OF h accepted(6)] by simp
  ultimately show ?thesis using accepted(5) by blast
qed

text \<open>
  C26. Negotiation keeps the transfer parameters sane: whatever option string and value the
  client sends, if \<open>do_opt\<close> does not refuse the request then the block size stays between 8
  and the configured maximum (at most 65464), the retransmission time stays between 10 ms
  and 255 s, the overall limit stays 63 times it, and the block number to continue with after
  65535 is the one from before or exactly the number the client wrote, which therefore fits
  16 bits. Entries disabled by \<open>-r\<close> keep their handler, so any table with the handlers of
  \<open>options\<close> is covered.
\<close>

theorem do_opt_keeps_inv:
  assumes "opts_inv g" and "map snd tab = map snd options"
    and "do_opt tab opt val a g = Inr (a', g')"
  shows "opts_inv g' \<and>
    (rollover_val g' = rollover_val g \<or> (\<exists>v. strtoumax val = (v, [], False) \<and> unat (rollover_val g') = unat v))"
  using assms by (rule do_opt_inv)

lemma init_opts_inv: "opts_inv init_opts"
  by (simp add: opts_inv_def init_opts_def)

definition ex_oack :: oack where
  "ex_oack = \<lparr>ackbuf = mem_of [], ap = 2\<rparr>"

lemma ex_do_opt:
  "\<exists>a'. do_opt options ''timeout'' ''3'' ex_oack init_opts
     = Inr (a', init_opts\<lparr>rexmtval := 3000000, timeout := 3000000, maxtimeout := 189000000\<rparr>)"
  by (simp add: do_opt_def Let_def strtoumax_def isspace_def isdigit_def options_def strcaseeq_def
      tolower_def set_timeout_def init_opts_def ex_oack_def utoa.simps word_less_nat_alt)

theorem do_opt_keeps_inv_witness:
  "opts_inv (init_opts\<lparr>rexmtval := 3000000, timeout := 3000000, maxtimeout := 189000000\<rparr>)"
proof -
  obtain a' where "do_opt options ''timeout'' ''3'' ex_oack init_opts
     = Inr (a', init_opts\<lparr>rexmtval := 3000000, timeout := 3000000, maxtimeout := 189000000\<rparr>)"
    using ex_do_opt by blast
  from do_opt_keeps_inv [OF init_opts_inv refl this] show ?thesis by blast
qed

lemma do_opt_appends:
  assumes r: "do_opt tab opt val a g = Inr (a', g')" and new: "a' \<noteq> a"
  shows "\<exists>name fnc v v' ret. (name, fnc) \<in> set tab \<and> strcaseeq name opt \<and> strtoumax val = (v, [], False) \<and>
           fnc v (g\<lparr>blksize_set := False\<rparr>) = (True, v', g') \<and> strtoumax ret = (v', [], False) \<and>
           buf_read (ackbuf a') (ap a) (ap a' - ap a) = opt @ [NUL] @ ret @ [NUL] \<and> ap a' < PKTSIZE \<and>
           ap a' = ap a + length opt + length ret + 2 \<and>
           (\<forall>i. i < ap a \<or> ap a' \<le> i \<longrightarrow> ackbuf a' i = ackbuf a i)"
  using r
proof (cases rule: do_opt_cases)
  case skipped
  with new show ?thesis by simp
next
  case (accepted name fnc v v')
  let ?ret = "utoa (unat v')" and ?p = "ap a" and ?q = "ap a + length opt + 1"
  let ?b1 = "buf_write (ackbuf a) ?p (opt @ [NUL])"
  have "unat v' < 2 ^ 64" using unsigned_less [of v', where ?'a = nat] by simp
  then have rd: "strtoumax ?ret = (v', [], False)" by (simp add: strtoumax_utoa)
  have len: "ap a' - ?p = (length opt + 1) + (length ?ret + 1)" using accepted by simp
  have "buf_read (ackbuf a') ?p (ap a' - ?p)
      = buf_read (ackbuf a') ?p (length opt + 1) @ buf_read (ackbuf a') ?q (length ?ret + 1)"
    unfolding len buf_read_append by (simp add: add.assoc)
  also have "buf_read (ackbuf a') ?q (length ?ret + 1) = ?ret @ [NUL]"
    using accepted by simp
  also have "buf_read (ackbuf a') ?p (length opt + 1) = buf_read ?b1 ?p (length opt + 1)"
    using accepted by (simp add: buf_read_write_disjoint)
  also have "\<dots> = opt @ [NUL]" by simp
  finally have "buf_read (ackbuf a') ?p (ap a' - ?p) = opt @ [NUL] @ ?ret @ [NUL]" by simp
  moreover have "\<forall>i. i < ap a \<or> ap a' \<le> i \<longrightarrow> ackbuf a' i = ackbuf a i"
    using accepted by (auto simp: buf_write_def)
  ultimately show ?thesis using accepted rd
    by (intro exI [of _ name] exI [of _ fnc] exI [of _ v] exI [of _ v'] exI [of _ ?ret]) auto
qed

text \<open>
  C27. The reply to an accepted option: the option is one of the table, its handler was called
  with the client's number, accepted it and returned the value to grant and the new parameters;
  the bytes already in \<open>ackbuf\<close> stay, the client's own spelling of the option and a decimal
  number follow, each with its NUL; read back, that number is the value the handler granted
  (not the one asked for); and nothing is written at or past the end of the buffer.
\<close>

theorem do_opt_reply:
  assumes r: "do_opt tab opt val a g = Inr (a', g')" and new: "a' \<noteq> a"
  shows "\<exists>name fnc v v' ret. (name, fnc) \<in> set tab \<and> strcaseeq name opt \<and> strtoumax val = (v, [], False) \<and>
           fnc v (g\<lparr>blksize_set := False\<rparr>) = (True, v', g') \<and> strtoumax ret = (v', [], False) \<and>
           buf_read (ackbuf a') (ap a) (ap a' - ap a) = opt @ [NUL] @ ret @ [NUL] \<and> ap a' < PKTSIZE \<and>
           ap a' = ap a + length opt + length ret + 2 \<and>
           (\<forall>i. i < ap a \<or> ap a' \<le> i \<longrightarrow> ackbuf a' i = ackbuf a i)"
  using assms by (rule do_opt_appends)

lemma ex_clamped:
  "\<exists>a'. do_opt options ''blksize'' ''70000'' ex_oack init_opts
     = Inr (a', init_opts\<lparr>segsize := 65464, blksize_set := True\<rparr>) \<and> a' \<noteq> ex_oack"
proof -
  have m: "set_blksize 70000 (init_opts\<lparr>blksize_set := False\<rparr>)
      = (True, 65464, init_opts\<lparr>segsize := 65464, blksize_set := True\<rparr>)"
    by (simp add: set_blksize_def init_opts_def to_int32_def word_less_nat_alt Let_def)
  show ?thesis
    using m by (simp add: do_opt_def Let_def strtoumax_def isspace_def isdigit_def options_def strcaseeq_def
      tolower_def ex_oack_def utoa.simps)
qed

theorem do_opt_reply_witness:
  "\<exists>a' g' v' ret. do_opt options ''blksize'' ''70000'' ex_oack init_opts = Inr (a', g') \<and>
     buf_read (ackbuf a') 2 (ap a' - 2) = ''blksize'' @ [NUL] @ ret @ [NUL] \<and> strtoumax ret = (v', [], False) \<and>
     segsize g' = 65464"
proof -
  obtain a' g' where r: "do_opt options ''blksize'' ''70000'' ex_oack init_opts = Inr (a', g')" "a' \<noteq> ex_oack"
    and g: "g' = init_opts\<lparr>segsize := 65464, blksize_set := True\<rparr>"
    using ex_clamped by blast
  from do_opt_reply [OF r] r(1) g show ?thesis by (fastforce simp: ex_oack_def)
qed

text \<open>
  The guard against a second block-size option never fires: \<open>do_opt\<close> clears
  \<open>blksize_set\<close> before it calls the handler, so its behaviour does not depend on the flag,
  and a request may name \<open>blksize\<close> twice, or \<open>blksize\<close> and \<open>blksize2\<close>, with the last one
  in force.
\<close>

lemma do_opt_ignores_blksize_set:
  "do_opt tab opt val a (g\<lparr>blksize_set := True\<rparr>) = do_opt tab opt val a g"
  by (simp add: do_opt_def)

lemma bit_top: "2 ^ k \<le> n \<Longrightarrow> n < 2 ^ Suc k \<Longrightarrow> bit n k" for n :: nat
proof -
  assume "2 ^ k \<le> n" "n < 2 ^ Suc k"
  then have "n div 2 ^ k = 1" by (intro div_nat_eqI) simp_all
  then show ?thesis by (simp add: bit_iff_odd)
qed

lemma and_pred_zero_pow2:
  assumes "v AND (v - 1) = (0 :: u64)" and "2 ^ k \<le> unat v" and "unat v < 2 ^ Suc k"
  shows "unat v = 2 ^ k"
proof (rule ccontr)
  assume "unat v \<noteq> 2 ^ k"
  with assms have gt: "2 ^ k < unat v" by simp
  then have "v \<noteq> 0" by (metis not_less_zero unsigned_0)
  then have "unat (v - 1) = unat v - 1" by (simp add: unat_minus_one)
  with gt assms(3) have "bit (unat (v - 1)) k" by (intro bit_top) auto
  moreover have "bit (unat v) k" using assms by (intro bit_top)
  ultimately have "bit v k \<and> bit (v - 1) k" by (simp add: bit_unsigned_iff)
  then have "bit (v AND (v - 1)) k" by (simp add: bit_and_iff)
  with assms(1) show False by simp
qed

text \<open>
  C28. The nonstandard \<open>blksize2\<close> option: a request for 8 bytes or more is granted; a size up
  to the maximum becomes the largest power of two that is not above it, and a larger one
  becomes the maximum itself, whether or not that is a power of two.
\<close>

theorem set_blksize2_correct:
  assumes inv: "opts_inv g" and nb: "\<not> blksize_set g" and v: "8 \<le> unat v"
    and r: "set_blksize2 v g = (b, v', g')"
  shows "b \<and> segsize g' = int (unat v') \<and>
         (if unat (max_blksize g) < unat v then unat v' = unat (max_blksize g)
          else \<exists>k. unat v' = 2 ^ k \<and> 2 ^ k \<le> unat v \<and> unat v < 2 ^ Suc k)"
proof -
  define sz :: u64 where "sz = (if ucast (max_blksize g) < v then ucast (max_blksize g)
                   else if v AND (v - 1) \<noteq> 0 then ucast (pow2_loop v 1) else v)"
  have v8: "\<not> v < 8" using v by (simp add: word_less_nat_alt)
  have "unat sz \<le> unat (max_blksize g)" using blksize2_size [OF inv v8 sz_def] by simp
  then have small: "unat sz \<le> MAX_SEGSIZE" using inv by (simp add: opts_inv_def)
  have "(b, v', g') = (True, word_of_int (to_int32 sz), g\<lparr>segsize := to_int32 sz, blksize_set := True\<rparr>)"
    using r nb v8 unfolding set_blksize2_def sz_def Let_def by simp
  then have res: "b" "v' = sz" "segsize g' = int (unat sz)"
    using small by (simp_all add: word_of_int_to_int32 to_int32_small)
  show ?thesis
  proof (cases "unat (max_blksize g) < unat v")
    case True
    then show ?thesis using res by (simp add: sz_def word_less_nat_alt ucast_max)
  next
    case False
    then have "unat v \<le> MAX_SEGSIZE" using inv by (simp add: opts_inv_def)
    then obtain k where k: "unat (ucast (pow2_loop v 1) :: u64) = 2 ^ k" "2 ^ k \<le> unat v" "unat v < 2 ^ Suc k"
      using pow2_loop_floor [OF v] by blast
    have "unat sz = 2 ^ k"
      using False k and_pred_zero_pow2 [OF _ k(2,3)] by (auto simp: sz_def word_less_nat_alt ucast_max)
    with res k False show ?thesis by auto
  qed
qed

theorem set_blksize2_correct_witness:
  "\<exists>v' g'. set_blksize2 70000 init_opts = (True, v', g') \<and> segsize g' = 65464"
proof -
  obtain b v' g' where r: "set_blksize2 70000 init_opts = (b, v', g')" by (metis prod_cases3)
  have "\<not> blksize_set init_opts" by (simp add: init_opts_def)
  moreover have "8 \<le> unat (70000 :: u64)" and mx: "unat (max_blksize init_opts) = MAX_SEGSIZE"
    and lt: "unat (max_blksize init_opts) < unat (70000 :: u64)"
    by (simp_all add: init_opts_def)
  ultimately have "b \<and> segsize g' = int (unat v') \<and> unat v' = unat (max_blksize init_opts)"
    using set_blksize2_correct [OF init_opts_inv _ _ r] by (simp only: if_True simp_thms)
  then have c: "b" "segsize g' = int (unat v')" "unat v' = MAX_SEGSIZE" unfolding mx by blast+
  from c(2) have "segsize g' = int MAX_SEGSIZE" by (simp only: c(3))
  with r c(1) show ?thesis by simp
qed

text \<open>
  Option values are not limited to positive integers, as the comment above \<open>do_opt\<close> has
  it: a negative \<open>blksize\<close> is accepted and gives the largest block size.
\<close>

lemma negative_blksize_accepted:
  "\<exists>a'. do_opt options ''blksize'' ''-1'' ex_oack init_opts
      = Inr (a', init_opts\<lparr>segsize := 65464, blksize_set := True\<rparr>) \<and> a' \<noteq> ex_oack"
proof -
  have m: "set_blksize (- 1) (init_opts\<lparr>blksize_set := False\<rparr>)
      = (True, 65464, init_opts\<lparr>segsize := 65464, blksize_set := True\<rparr>)"
    by (simp add: set_blksize_def init_opts_def to_int32_def word_less_nat_alt Let_def
        unsigned_minus_1_eq_mask mask_eq_exp_minus_1)
  show ?thesis
    using m by (simp add: do_opt_def Let_def strtoumax_def isspace_def isdigit_def options_def strcaseeq_def
      tolower_def ex_oack_def utoa.simps)
qed

end
