(* ===== verification/WooData.thy ===== *)
theory WooData
  imports CLib
begin

text \<open>
  The server's side of the shared-memory segment (\<open>common.h\<close>, \<open>data.h\<close>, \<open>data.c\<close>): five
  operation slots, a count of the slots in use, and one handle per server process. Calls
  on an enabled handle update the slot named by \<open>opid\<close>. A \<open>char\<close> array is the C string
  in it; \<open>strcpy\<close> of a string that does not fit is a fault. Several setters fall off the
  end of a function that returns \<open>int\<close>: their result is \<open>None\<close>, no value.
\<close>

unbundle bit_operations_syntax

abbreviation WOOTFTPD_MAX_NBOP :: nat where "WOOTFTPD_MAX_NBOP \<equiv> 5"
abbreviation INET6_ADDRSTRLEN :: nat where "INET6_ADDRSTRLEN \<equiv> 46"
abbreviation FILENAME_SIZE :: nat where "FILENAME_SIZE \<equiv> 128"

definition WOOTFTPD_RESET :: u8 where "WOOTFTPD_RESET = 0"
definition WOOTFTPD_ENABLE :: u8 where "WOOTFTPD_ENABLE = 1"
definition WOOTFTPD_END :: u8 where "WOOTFTPD_END = 2"
definition WOOTFTPD_UPLOAD :: u8 where "WOOTFTPD_UPLOAD = 4"
definition WOOTFTPD_DOWNLOAD :: u8 where "WOOTFTPD_DOWNLOAD = 8"
definition WOOTFTPD_TIMEOUT :: u8 where "WOOTFTPD_TIMEOUT = 16"

lemmas woo_flag_defs = WOOTFTPD_RESET_def WOOTFTPD_ENABLE_def WOOTFTPD_END_def
  WOOTFTPD_UPLOAD_def WOOTFTPD_DOWNLOAD_def WOOTFTPD_TIMEOUT_def

definition WOOTFTPD_CHECK_FLAG :: "u8 \<Rightarrow> u8 \<Rightarrow> bool" where
  "WOOTFTPD_CHECK_FLAG fl flag = (fl AND flag = flag)"

record wootftpd_operation =
  oflags :: u8
  op_filename :: string
  op_port :: int
  op_ip :: string
  op_block :: u32
  op_total_block :: u32

record wootftpd_shared_data =
  client_pid :: int
  nb_operation :: u8
  operations :: "wootftpd_operation list"

text \<open>
  The handle. \<open>semaphore\<close> and \<open>mapped\<close> say whether the pointers differ from \<open>SEM_FAILED\<close> and
  \<open>MAP_FAILED\<close>; \<open>sem_live\<close>, \<open>map_live\<close> and \<open>fd_live\<close> whether the semaphore, the mapping
  and a descriptor that \<open>shm_open\<close> gave for this handle are still open;
  \<open>signals\<close> lists the processes sent \<open>SIGUSR1\<close>.
\<close>

record woo_data =
  enable :: int
  semaphore :: bool
  smid :: int
  opid :: int
  mapped :: bool
  sem_live :: bool
  map_live :: bool
  fd_live :: bool
  signals :: "int list"

text \<open>What the system calls of \<open>woo_init\<close> answer.\<close>

record woo_env =
  env_sem_open :: bool
  env_shm_open :: int
  env_mmap :: bool
  env_kill0 :: "int \<Rightarrow> int"

text \<open>\<open>woo_free\<close> does not close \<open>smid\<close>.\<close>

definition woo_free :: "woo_data \<Rightarrow> int \<times> woo_data" where
  "woo_free w =
     (let w1 = (if mapped w then w\<lparr>map_live := False\<rparr> else w);
          w2 = (if semaphore w1 then w1\<lparr>sem_live := False\<rparr> else w1)
      in (0, w2))"

definition woo_wake_up_gui :: "woo_data \<Rightarrow> wootftpd_shared_data \<Rightarrow> int \<times> woo_data" where
  "woo_wake_up_gui w m =
     (if enable w = 0 then (10, w) else (0, w\<lparr>signals := signals w @ [client_pid m]\<rparr>))"

definition slot_enabled :: "wootftpd_operation \<Rightarrow> bool" where
  "slot_enabled p = WOOTFTPD_CHECK_FLAG (oflags p) WOOTFTPD_ENABLE"

text \<open>The search loop of \<open>woo_alloc_operation\<close>: the first slot that is not enabled.\<close>

definition free_slot :: "wootftpd_operation list \<Rightarrow> nat option" where
  "free_slot ops = find (\<lambda>x. \<not> slot_enabled (ops ! x)) [0 ..< WOOTFTPD_MAX_NBOP]"

definition reset_slot :: "wootftpd_operation \<Rightarrow> wootftpd_operation" where
  "reset_slot p = p\<lparr>oflags := WOOTFTPD_RESET OR WOOTFTPD_ENABLE, op_block := 0\<rparr>"

definition woo_alloc_operation ::
  "woo_data \<Rightarrow> wootftpd_shared_data \<Rightarrow> int \<times> woo_data \<times> wootftpd_shared_data" where
  "woo_alloc_operation w m =
     (if enable w = 0 then (10, w, m)
      else if of_nat WOOTFTPD_MAX_NBOP \<le> nb_operation m then (20, w, m)
      else case free_slot (operations m) of
             None \<Rightarrow> (30, w\<lparr>opid := - 1, enable := 0\<rparr>, m)
           | Some x \<Rightarrow>
               (0, w\<lparr>opid := int x\<rparr>,
                m\<lparr>nb_operation := nb_operation m + 1,
                  operations := (operations m)[x := reset_slot (operations m ! x)]\<rparr>))"

definition woo_init ::
  "woo_env \<Rightarrow> woo_data \<Rightarrow> wootftpd_shared_data \<Rightarrow> int \<times> woo_data \<times> wootftpd_shared_data" where
  "woo_init env w0 m =
     (let w = w0\<lparr>semaphore := False, mapped := False\<rparr>
      in if \<not> env_sem_open env then (20, w\<lparr>enable := 0\<rparr>, m)
      else let w = w\<lparr>semaphore := True, sem_live := True, smid := env_shm_open env,
                        fd_live := fd_live w \<or> env_shm_open env \<noteq> - 1\<rparr>
      in if smid w = - 1 then (30, snd (woo_free (w\<lparr>enable := 0\<rparr>)), m)
      else if \<not> env_mmap env then (40, snd (woo_free (w\<lparr>enable := 0\<rparr>)), m)
      else let w = w\<lparr>mapped := True, map_live := True\<rparr>
      in if env_kill0 env (client_pid m) \<noteq> 0 then (50, snd (woo_free (w\<lparr>enable := 0\<rparr>)), m)
      else case woo_alloc_operation (w\<lparr>enable := 1\<rparr>) m of
             (rv, w1, m1) \<Rightarrow>
               if rv \<noteq> 0 then (60, snd (woo_free (w1\<lparr>enable := 0\<rparr>)), m1)
               else (0, snd (woo_wake_up_gui w1 m1), m1))"

subsection \<open>Calls on the slot of the process\<close>

definition my_slot :: "woo_data \<Rightarrow> wootftpd_shared_data \<Rightarrow> wootftpd_operation" where
  "my_slot w m = operations m ! nat (opid w)"

definition upd_slot ::
  "woo_data \<Rightarrow> (wootftpd_operation \<Rightarrow> wootftpd_operation) \<Rightarrow> wootftpd_shared_data \<Rightarrow> wootftpd_shared_data" where
  "upd_slot w g m = m\<lparr>operations := (operations m)[nat (opid w) := g (my_slot w m)]\<rparr>"

definition woo_set_ip ::
  "woo_data \<Rightarrow> wootftpd_shared_data \<Rightarrow> string \<Rightarrow> fault + (int option \<times> wootftpd_shared_data)" where
  "woo_set_ip w m ip =
     (if enable w = 0 then Inr (Some 10, m)
      else if INET6_ADDRSTRLEN \<le> length ip then Inl Out_of_bounds
      else Inr (None, upd_slot w (op_ip_update (\<lambda>_. ip)) m))"

definition woo_set_port :: "woo_data \<Rightarrow> wootftpd_shared_data \<Rightarrow> int \<Rightarrow> int option \<times> wootftpd_shared_data" where
  "woo_set_port w m port =
     (if enable w = 0 then (Some 10, m) else (None, upd_slot w (op_port_update (\<lambda>_. port)) m))"

text \<open>
  \<open>getpeername\<close> and \<open>inet_ntop\<close> give the peer's address text (parameter \<open>ipstr\<close>) and its
  port in network order, which \<open>ntohs\<close> turns into a number below 65536.
\<close>

definition woo_set_ip_port_from_socket_id ::
  "woo_data \<Rightarrow> wootftpd_shared_data \<Rightarrow> string \<Rightarrow> u16 \<Rightarrow> fault + (int \<times> wootftpd_shared_data)" where
  "woo_set_ip_port_from_socket_id w m ipstr port =
     (if enable w = 0 then Inr (10, m)
      else case woo_set_ip w m ipstr of
             Inl e \<Rightarrow> Inl e
           | Inr (_, m1) \<Rightarrow> Inr (0, snd (woo_set_port w m1 (uint port))))"

definition woo_set_filename ::
  "woo_data \<Rightarrow> wootftpd_shared_data \<Rightarrow> string \<Rightarrow> fault + (int option \<times> wootftpd_shared_data)" where
  "woo_set_filename w m fname =
     (if enable w = 0 then Inr (Some 10, m)
      else if FILENAME_SIZE \<le> length fname then Inl Out_of_bounds
      else Inr (None, upd_slot w (op_filename_update (\<lambda>_. fname)) m))"

definition woo_set_flag_upload :: "woo_data \<Rightarrow> wootftpd_shared_data \<Rightarrow> int option \<times> wootftpd_shared_data" where
  "woo_set_flag_upload w m =
     (if enable w = 0 then (Some 10, m)
      else (None, upd_slot w (oflags_update (\<lambda>fl. fl OR WOOTFTPD_UPLOAD)) m))"

definition woo_set_flag_download :: "woo_data \<Rightarrow> wootftpd_shared_data \<Rightarrow> int option \<times> wootftpd_shared_data" where
  "woo_set_flag_download w m =
     (if enable w = 0 then (Some 10, m)
      else (None, upd_slot w (oflags_update (\<lambda>fl. fl OR WOOTFTPD_DOWNLOAD)) m))"

definition woo_set_total_block :: "woo_data \<Rightarrow> wootftpd_shared_data \<Rightarrow> int \<Rightarrow> int option \<times> wootftpd_shared_data" where
  "woo_set_total_block w m nb =
     (if enable w = 0 then (Some 10, m)
      else (None, upd_slot w (op_total_block_update (\<lambda>_. word_of_int nb)) m))"

definition woo_increment_block :: "woo_data \<Rightarrow> wootftpd_shared_data \<Rightarrow> int \<Rightarrow> int option \<times> wootftpd_shared_data" where
  "woo_increment_block w m v =
     (if enable w = 0 then (Some 10, m)
      else (None, upd_slot w (op_block_update (\<lambda>b. b + word_of_int v)) m))"

definition end_slot :: "wootftpd_operation \<Rightarrow> wootftpd_operation" where
  "end_slot p =
     (let q = p\<lparr>oflags := oflags p OR WOOTFTPD_END\<rparr>
      in if WOOTFTPD_CHECK_FLAG (oflags q) WOOTFTPD_UPLOAD
         then q\<lparr>op_block := 1, op_total_block := 1\<rparr> else q)"

definition woo_end_operation :: "woo_data \<Rightarrow> wootftpd_shared_data \<Rightarrow> int option \<times> wootftpd_shared_data" where
  "woo_end_operation w m =
     (if enable w = 0 then (Some 10, m) else (None, upd_slot w end_slot m))"

subsection \<open>The segment's invariant\<close>

definition nb_enabled :: "wootftpd_operation list \<Rightarrow> nat" where
  "nb_enabled ops = length (filter slot_enabled ops)"

definition shm_inv :: "wootftpd_shared_data \<Rightarrow> bool" where
  "shm_inv m = (length (operations m) = WOOTFTPD_MAX_NBOP \<and>
                unat (nb_operation m) = nb_enabled (operations m))"

text \<open>An enabled handle names a slot of the table that is in use.\<close>

definition woo_inv :: "woo_data \<Rightarrow> wootftpd_shared_data \<Rightarrow> bool" where
  "woo_inv w m = (enable w \<noteq> 0 \<longrightarrow>
     0 \<le> opid w \<and> opid w < int WOOTFTPD_MAX_NBOP \<and> slot_enabled (my_slot w m))"

lemma nb_enabled_le: "nb_enabled ops \<le> length ops"
  by (simp add: nb_enabled_def)

lemma nb_enabled_update:
  "x < length ops \<Longrightarrow>
     nb_enabled (ops[x := p]) + of_bool (slot_enabled (ops ! x)) = nb_enabled ops + of_bool (slot_enabled p)"
proof (induction ops arbitrary: x)
  case Nil
  then show ?case by simp
next
  case (Cons q ops)
  then show ?case by (cases x) (auto simp: nb_enabled_def)
qed

text \<open>The flag tests, bit by bit.\<close>

lemma and_exp_iff_bit: "k < 8 \<Longrightarrow> (fl :: u8) AND 2 ^ k = 2 ^ k \<longleftrightarrow> bit fl k"
proof
  assume k: "k < 8" and "fl AND 2 ^ k = 2 ^ k"
  then have "bit (fl AND 2 ^ k) k = bit (2 ^ k :: u8) k" by simp
  with k show "bit fl k" by (simp add: bit_and_iff bit_exp_iff)
next
  assume k: "k < 8" and "bit fl k"
  then show "fl AND 2 ^ k = 2 ^ k"
    by (intro bit_eqI) (auto simp: bit_and_iff bit_exp_iff)
qed

lemma check_flag_bits [simp]:
  "WOOTFTPD_CHECK_FLAG fl WOOTFTPD_ENABLE \<longleftrightarrow> bit fl 0"
  "WOOTFTPD_CHECK_FLAG fl WOOTFTPD_END \<longleftrightarrow> bit fl 1"
  "WOOTFTPD_CHECK_FLAG fl WOOTFTPD_UPLOAD \<longleftrightarrow> bit fl 2"
  "WOOTFTPD_CHECK_FLAG fl WOOTFTPD_DOWNLOAD \<longleftrightarrow> bit fl 3"
  "WOOTFTPD_CHECK_FLAG fl WOOTFTPD_TIMEOUT \<longleftrightarrow> bit fl 4"
  using and_exp_iff_bit [of 0 fl] and_exp_iff_bit [of 1 fl] and_exp_iff_bit [of 2 fl]
    and_exp_iff_bit [of 3 fl] and_exp_iff_bit [of 4 fl]
  by (simp_all add: WOOTFTPD_CHECK_FLAG_def woo_flag_defs)

lemma slot_enabled_bit: "slot_enabled p \<longleftrightarrow> bit (oflags p) 0"
  by (simp add: slot_enabled_def)

lemma flag_bit_tests:
  "\<not> bit WOOTFTPD_END 0" "\<not> bit WOOTFTPD_UPLOAD 0" "\<not> bit WOOTFTPD_DOWNLOAD 0"
  "\<not> bit WOOTFTPD_TIMEOUT 0" "bit WOOTFTPD_ENABLE 0" "\<not> bit WOOTFTPD_RESET n" "bit WOOTFTPD_END 1"
  by (simp_all add: woo_flag_defs)

lemma slot_enabled_reset: "slot_enabled (reset_slot p)"
  by (simp add: slot_enabled_bit reset_slot_def bit_or_iff flag_bit_tests)

lemma slot_enabled_end: "slot_enabled (end_slot p) = slot_enabled p"
  by (simp add: slot_enabled_bit end_slot_def Let_def bit_or_iff flag_bit_tests)

subsection \<open>The contract of the calls on a slot\<close>

text \<open>
  Every setter obeys one contract: without the GUI it does nothing; with it, it changes
  the process's own slot only, and neither the count nor the enable flag.
\<close>

locale slot_call =
  fixes call :: "woo_data \<Rightarrow> wootftpd_shared_data \<Rightarrow> wootftpd_shared_data"
  assumes disabled: "enable w = 0 \<Longrightarrow> call w m = m"
    and frame: "x \<noteq> nat (opid w) \<Longrightarrow> operations (call w m) ! x = operations m ! x"
    and len: "length (operations (call w m)) = length (operations m)"
    and count: "nb_operation (call w m) = nb_operation m"
    and pid: "client_pid (call w m) = client_pid m"
    and keeps_enable: "nat (opid w) < length (operations m) \<Longrightarrow>
      slot_enabled (operations (call w m) ! nat (opid w)) = slot_enabled (operations m ! nat (opid w))"
begin

lemma call_enabled:
  assumes "x < length (operations m)"
  shows "slot_enabled (operations (call w m) ! x) = slot_enabled (operations m ! x)"
  using assms frame [of x w m] keeps_enable [of w m] by (cases "x = nat (opid w)") auto

lemma call_nb_enabled: "nb_enabled (operations (call w m)) = nb_enabled (operations m)"
proof -
  have "{i. i < length (operations (call w m)) \<and> slot_enabled (operations (call w m) ! i)}
      = {i. i < length (operations m) \<and> slot_enabled (operations m ! i)}"
    using call_enabled by (auto simp: len)
  then show ?thesis by (simp add: nb_enabled_def length_filter_conv_card)
qed

lemma call_shm_inv: "shm_inv m \<Longrightarrow> shm_inv (call w m)"
  by (simp add: shm_inv_def len count call_nb_enabled)

lemma call_woo_inv: "shm_inv m \<Longrightarrow> woo_inv v m \<Longrightarrow> woo_inv v (call w m)"
  by (auto simp: woo_inv_def my_slot_def shm_inv_def call_enabled)

end

lemma upd_slot_call:
  assumes "\<And>p. slot_enabled (g p) = slot_enabled p"
  shows "slot_call (\<lambda>w m. if enable w = 0 then m else upd_slot w g m)"
  using assms by unfold_locales (auto simp: upd_slot_def my_slot_def)

definition done_or :: "'m \<Rightarrow> fault + (int option \<times> 'm) \<Rightarrow> 'm" where
  "done_or m r = (case r of Inl _ \<Rightarrow> m | Inr (_, m') \<Rightarrow> m')"

interpretation set_upload: slot_call "\<lambda>w m. snd (woo_set_flag_upload w m)"
  using upd_slot_call [of "oflags_update (\<lambda>fl. fl OR WOOTFTPD_UPLOAD)"]
  by (simp add: woo_set_flag_upload_def if_distrib slot_enabled_bit bit_or_iff flag_bit_tests cong: if_cong)

interpretation set_download: slot_call "\<lambda>w m. snd (woo_set_flag_download w m)"
  using upd_slot_call [of "oflags_update (\<lambda>fl. fl OR WOOTFTPD_DOWNLOAD)"]
  by (simp add: woo_set_flag_download_def if_distrib slot_enabled_bit bit_or_iff flag_bit_tests cong: if_cong)

interpretation set_total: slot_call "\<lambda>w m. snd (woo_set_total_block w m nb)" for nb
  using upd_slot_call [of "op_total_block_update (\<lambda>_. word_of_int nb)"]
  by (simp add: woo_set_total_block_def if_distrib slot_enabled_bit cong: if_cong)

interpretation increment: slot_call "\<lambda>w m. snd (woo_increment_block w m v)" for v
  using upd_slot_call [of "op_block_update (\<lambda>b. b + word_of_int v)"]
  by (simp add: woo_increment_block_def if_distrib slot_enabled_bit cong: if_cong)

interpretation end_op: slot_call "\<lambda>w m. snd (woo_end_operation w m)"
  using upd_slot_call [of end_slot]
  by (simp add: woo_end_operation_def if_distrib slot_enabled_end cong: if_cong)

interpretation set_port: slot_call "\<lambda>w m. snd (woo_set_port w m port)" for port
  using upd_slot_call [of "op_port_update (\<lambda>_. port)"]
  by (simp add: woo_set_port_def if_distrib slot_enabled_bit cong: if_cong)

interpretation set_filename: slot_call "\<lambda>w m. done_or m (woo_set_filename w m fname)" for fname
  by unfold_locales
     (auto simp: woo_set_filename_def done_or_def upd_slot_def my_slot_def slot_enabled_bit)

interpretation set_ip: slot_call "\<lambda>w m. done_or m (woo_set_ip w m ip)" for ip
  by unfold_locales
     (auto simp: woo_set_ip_def done_or_def upd_slot_def my_slot_def slot_enabled_bit)

subsection \<open>Allocation and initialisation\<close>

lemma free_slot_Some:
  assumes "free_slot ops = Some x"
  shows "x < WOOTFTPD_MAX_NBOP \<and> \<not> slot_enabled (ops ! x) \<and> (\<forall>y < x. slot_enabled (ops ! y))"
  using assms by (auto simp: free_slot_def find_Some_iff)

lemma free_slot_None_full:
  "free_slot ops = None \<Longrightarrow> length ops = WOOTFTPD_MAX_NBOP \<Longrightarrow> nb_enabled ops = WOOTFTPD_MAX_NBOP"
proof -
  assume "free_slot ops = None" and len: "length ops = WOOTFTPD_MAX_NBOP"
  then have "\<forall>x < length ops. slot_enabled (ops ! x)" by (auto simp: free_slot_def find_None_iff)
  then have "filter slot_enabled ops = ops" by (auto simp: all_set_conv_all_nth)
  with len show ?thesis by (simp add: nb_enabled_def)
qed

lemma nb_operation_full:
  "shm_inv m \<Longrightarrow> of_nat WOOTFTPD_MAX_NBOP \<le> nb_operation m \<longleftrightarrow> nb_enabled (operations m) = WOOTFTPD_MAX_NBOP"
proof -
  assume inv: "shm_inv m"
  have "of_nat WOOTFTPD_MAX_NBOP \<le> nb_operation m \<longleftrightarrow> WOOTFTPD_MAX_NBOP \<le> unat (nb_operation m)"
    by (simp add: word_le_nat_alt)
  with inv nb_enabled_le [of "operations m"] show ?thesis by (auto simp: shm_inv_def)
qed

lemma alloc_slot_keeps_inv:
  assumes inv: "shm_inv m" and fs: "free_slot (operations m) = Some x"
  shows "shm_inv (m\<lparr>nb_operation := nb_operation m + 1,
                    operations := (operations m)[x := reset_slot (operations m ! x)]\<rparr>)"
proof -
  from fs have x: "x < WOOTFTPD_MAX_NBOP" "\<not> slot_enabled (operations m ! x)"
    using free_slot_Some by blast+
  have len: "length (operations m) = WOOTFTPD_MAX_NBOP" and nb: "unat (nb_operation m) = nb_enabled (operations m)"
    using inv by (simp_all add: shm_inv_def)
  have "nb_enabled ((operations m)[x := reset_slot (operations m ! x)]) = nb_enabled (operations m) + 1"
    using nb_enabled_update [of x "operations m" "reset_slot (operations m ! x)"] x len
    by (simp add: slot_enabled_reset)
  moreover have "unat (nb_operation m) \<le> 5" using nb nb_enabled_le [of "operations m"] len by simp
  then have "unat (nb_operation m + 1) = unat (nb_operation m) + 1"
    by (simp add: unat_word_ariths)
  ultimately show ?thesis using len nb by (simp add: shm_inv_def)
qed

lemma woo_alloc_operation_split:
  assumes inv: "shm_inv m" and en: "enable w \<noteq> 0"
    and r: "woo_alloc_operation w m = (rv, w', m')"
  shows "nb_enabled (operations m) = WOOTFTPD_MAX_NBOP \<and> rv = 20 \<and> w' = w \<and> m' = m \<or>
         nb_enabled (operations m) \<noteq> WOOTFTPD_MAX_NBOP \<and> rv = 0 \<and>
         (\<exists>x. free_slot (operations m) = Some x \<and> w' = w\<lparr>opid := int x\<rparr> \<and>
              m' = m\<lparr>nb_operation := nb_operation m + 1,
                     operations := (operations m)[x := reset_slot (operations m ! x)]\<rparr> \<and>
              shm_inv m' \<and> woo_inv w' m')"
proof (cases "nb_enabled (operations m) = WOOTFTPD_MAX_NBOP")
  case True
  with r en nb_operation_full [OF inv] show ?thesis by (simp add: woo_alloc_operation_def)
next
  case False
  have len: "length (operations m) = WOOTFTPD_MAX_NBOP" using inv by (simp add: shm_inv_def)
  with False free_slot_None_full obtain x where x: "free_slot (operations m) = Some x" by fastforce
  then have xs: "x < WOOTFTPD_MAX_NBOP" using free_slot_Some by blast
  have "\<not> of_nat WOOTFTPD_MAX_NBOP \<le> nb_operation m" using nb_operation_full [OF inv] False by simp
  with r en x have r': "rv = 0" "w' = w\<lparr>opid := int x\<rparr>"
      "m' = m\<lparr>nb_operation := nb_operation m + 1,
              operations := (operations m)[x := reset_slot (operations m ! x)]\<rparr>"
    by (simp_all add: woo_alloc_operation_def)
  moreover have "shm_inv m'" using alloc_slot_keeps_inv [OF inv x] r' by simp
  moreover have "woo_inv w' m'" using r' xs len by (simp add: woo_inv_def my_slot_def slot_enabled_reset)
  ultimately show ?thesis using False x by blast
qed

text \<open>
  C24. Slot allocation: on a consistent segment an enabled handle gets error 20 exactly when
  all five slots are in use, with nothing changed; otherwise it gets the lowest free slot.
  Whatever flags the slot had, it now has the enabled flag and no other, its block counter is
  zero, its other fields are as before, every other slot is left alone, the counter of the
  segment is one higher and the segment stays consistent. The ``no free id'' error 30 cannot occur.
\<close>

theorem woo_alloc_operation_correct:
  assumes inv: "shm_inv m" and en: "enable w \<noteq> 0"
    and r: "woo_alloc_operation w m = (rv, w', m')"
  shows "if nb_enabled (operations m) = WOOTFTPD_MAX_NBOP then rv = 20 \<and> w' = w \<and> m' = m
         else rv = 0 \<and> shm_inv m' \<and> woo_inv w' m' \<and> w' = w\<lparr>opid := opid w'\<rparr> \<and>
              \<not> slot_enabled (my_slot w' m) \<and>
              my_slot w' m' = (my_slot w' m)\<lparr>oflags := WOOTFTPD_ENABLE, op_block := 0\<rparr> \<and>
              nb_operation m' = nb_operation m + 1 \<and> client_pid m' = client_pid m \<and>
              (\<forall>y < nat (opid w'). slot_enabled (operations m ! y)) \<and>
              (\<forall>y. y \<noteq> nat (opid w') \<longrightarrow> operations m' ! y = operations m ! y)"
proof -
  have len: "length (operations m) = WOOTFTPD_MAX_NBOP" using inv by (simp add: shm_inv_def)
  from woo_alloc_operation_split [OF assms] show ?thesis
    using free_slot_Some len by (auto simp: my_slot_def reset_slot_def WOOTFTPD_RESET_def)
qed

text \<open>A segment with one slot in use, and a handle, for concrete instances.\<close>

definition ex_slot :: "u8 \<Rightarrow> wootftpd_operation" where
  "ex_slot fl = \<lparr>oflags = fl, op_filename = [], op_port = 0, op_ip = [], op_block = 7, op_total_block = 0\<rparr>"

definition ex_shm :: wootftpd_shared_data where
  "ex_shm = \<lparr>client_pid = 42, nb_operation = 1,
             operations = [ex_slot 1, ex_slot 0, ex_slot 0, ex_slot 0, ex_slot 0]\<rparr>"

definition ex_woo :: woo_data where
  "ex_woo = \<lparr>enable = 1, semaphore = True, smid = 3, opid = 0, mapped = True, sem_live = True,
             map_live = True, fd_live = True, signals = []\<rparr>"

lemma ex_shm_inv: "shm_inv ex_shm"
  by (simp add: shm_inv_def ex_shm_def ex_slot_def nb_enabled_def slot_enabled_bit)

lemma ex_alloc:
  "woo_alloc_operation ex_woo ex_shm =
     (0, ex_woo\<lparr>opid := 1\<rparr>,
      ex_shm\<lparr>nb_operation := 2, operations := (operations ex_shm)[1 := reset_slot (ex_slot 0)]\<rparr>)"
  by (simp add: woo_alloc_operation_def ex_woo_def ex_shm_def ex_slot_def free_slot_def
      slot_enabled_bit upt_conv_Cons word_le_nat_alt)

theorem woo_alloc_operation_correct_witness:
  "shm_inv (snd (snd (woo_alloc_operation ex_woo ex_shm)))
     \<and> \<not> slot_enabled (my_slot (fst (snd (woo_alloc_operation ex_woo ex_shm))) ex_shm)
     \<and> oflags (my_slot (fst (snd (woo_alloc_operation ex_woo ex_shm))) (snd (snd (woo_alloc_operation ex_woo ex_shm))))
         = WOOTFTPD_ENABLE"
proof -
  have "nb_enabled (operations ex_shm) = 1" "enable ex_woo \<noteq> 0"
    by (simp_all add: ex_shm_def ex_slot_def nb_enabled_def slot_enabled_bit ex_woo_def)
  with woo_alloc_operation_correct [OF ex_shm_inv _ ex_alloc] show ?thesis
    by (simp add: ex_alloc)
qed

text \<open>
  C25. Initialisation. The error code says which step failed: 20 the semaphore, 30 \<open>shm_open\<close>,
  40 \<open>mmap\<close>, 50 no monitor under the process id of the segment, 60 no free slot. Without error
  the handle is enabled, owns a slot that is in use, the segment is consistent, the monitor has
  been signalled, and semaphore, mapping and descriptor are open. On an error the handle is
  disabled, the segment is untouched, and the mapping and the semaphore it opened are released;
  but after 40, 50 and 60 the descriptor of \<open>shm_open\<close> stays open, as nothing closes it.
\<close>

theorem woo_init_correct:
  assumes inv: "shm_inv m" and r: "woo_init env w0 m = (rv, w, m')"
  shows "rv = (if \<not> env_sem_open env then 20 else if env_shm_open env = - 1 then 30
               else if \<not> env_mmap env then 40 else if env_kill0 env (client_pid m) \<noteq> 0 then 50
               else if nb_enabled (operations m) = WOOTFTPD_MAX_NBOP then 60 else 0)
       \<and> (if rv = 0 then enable w = 1 \<and> woo_inv w m' \<and> shm_inv m' \<and>
             signals w = signals w0 @ [client_pid m] \<and> sem_live w \<and> map_live w \<and> fd_live w
          else enable w = 0 \<and> m' = m \<and> signals w = signals w0 \<and>
             (mapped w \<longrightarrow> \<not> map_live w) \<and> (semaphore w \<longrightarrow> \<not> sem_live w) \<and>
             fd_live w = (fd_live w0 \<or> rv \<noteq> 20 \<and> rv \<noteq> 30))"
proof -
  let ?w = "w0\<lparr>semaphore := True, sem_live := True, smid := env_shm_open env, fd_live := True, mapped := True,
                map_live := True, enable := 1\<rparr>"
  show ?thesis
  proof (cases "env_sem_open env \<and> env_shm_open env \<noteq> - 1 \<and> env_mmap env \<and> env_kill0 env (client_pid m) = 0")
    case False
    with r show ?thesis
      by (auto simp: woo_init_def Let_def woo_free_def split: if_splits)
  next
    case True
    obtain rv1 w1 m1 where al: "woo_alloc_operation ?w m = (rv1, w1, m1)" by (metis prod_cases3)
    note c = woo_alloc_operation_split [OF inv _ al]
    from True r al c show ?thesis
      by (auto simp: woo_init_def Let_def woo_free_def woo_wake_up_gui_def woo_inv_def my_slot_def
          split: if_splits)
  qed
qed

theorem woo_init_correct_witness:
  "let env = \<lparr>env_sem_open = True, env_shm_open = 3, env_mmap = True, env_kill0 = (\<lambda>_. - 1)\<rparr>
   in \<exists>w. woo_init env ex_woo ex_shm = (50, w, ex_shm) \<and> enable w = 0 \<and> \<not> map_live w \<and> fd_live w"
proof -
  define env where "env = \<lparr>env_sem_open = True, env_shm_open = 3, env_mmap = True, env_kill0 = (\<lambda>_ :: int. - 1 :: int)\<rparr>"
  obtain rv w m' where r: "woo_init env ex_woo ex_shm = (rv, w, m')" by (metis prod_cases3)
  have "mapped w" using r by (auto simp: woo_init_def env_def Let_def woo_free_def)
  with woo_init_correct [OF ex_shm_inv r] show ?thesis
    by (simp add: r env_def flip: env_def) (simp add: r env_def)
qed

text \<open>
  Copying the requested file name into the slot: with the GUI enabled, the \<open>strcpy\<close> into
  the 128-byte array writes past it exactly when the name has 128 bytes or more; a shorter
  name is stored as it is and no other field or slot changes.
\<close>

lemma woo_set_filename_overflow:
  assumes "enable w \<noteq> 0" and "nat (opid w) < length (operations m)"
  shows "(woo_set_filename w m fname = Inl Out_of_bounds \<longleftrightarrow> 128 \<le> length fname) \<and>
         (length fname < 128 \<longrightarrow> (\<exists>m'. woo_set_filename w m fname = Inr (None, m') \<and>
            my_slot w m' = (my_slot w m)\<lparr>op_filename := fname\<rparr> \<and>
            (\<forall>y. y \<noteq> nat (opid w) \<longrightarrow> operations m' ! y = operations m ! y) \<and>
            nb_operation m' = nb_operation m))"
  using assms by (simp add: woo_set_filename_def upd_slot_def my_slot_def)

end
