(* ===== verification/Remap.thy ===== *)
theory Remap
  imports CLib
begin

text \<open>
  File name remapping (\<open>tftpd/remap.c\<close>): the rule parser, the substitution routine
  \<open>genmatchstring\<close> and the interpreter \<open>rewrite_string\<close>. The regular-expression library is
  outside the program: \<open>regcomp\<close> and \<open>regexec\<close> are parameters. \<open>genmatchstring\<close> is called
  twice, first without an output buffer to get the length and then to fill the allocated
  buffer; the flag \<open>out\<close> tells the two apart, and writing more than was allocated is a
  fault. A rule set that never stops is the result \<open>None\<close>.
\<close>

unbundle bit_operations_syntax

abbreviation DEADMAN_MAX_STEPS :: nat where "DEADMAN_MAX_STEPS \<equiv> 1024"
abbreviation MAXLINE :: nat where "MAXLINE \<equiv> 16384"

abbreviation BSL :: char where "BSL \<equiv> CHR 0x5C"

definition RULE_REWRITE :: u32 where "RULE_REWRITE = 1"
definition RULE_GLOBAL :: u32 where "RULE_GLOBAL = 2"
definition RULE_EXIT :: u32 where "RULE_EXIT = 4"
definition RULE_RESTART :: u32 where "RULE_RESTART = 8"
definition RULE_ABORT :: u32 where "RULE_ABORT = 16"
definition RULE_INVERSE :: u32 where "RULE_INVERSE = 32"

lemmas rule_flag_defs = RULE_REWRITE_def RULE_GLOBAL_def RULE_EXIT_def RULE_RESTART_def
  RULE_ABORT_def RULE_INVERSE_def

record 'rx rule =
  nrule :: int
  rule_flags :: u32
  rule_mode :: char
  rx :: 'rx
  pattern :: string

definition has_flag :: "'rx rule \<Rightarrow> u32 \<Rightarrow> bool" where
  "has_flag r fl = (rule_flags r AND fl \<noteq> 0)"

text \<open>The ten sub-match ranges, and the result of \<open>regexec\<close>.\<close>

type_synonym pmatch = "nat \<Rightarrow> int \<times> int"

datatype rx_result = Rx_match pmatch | Rx_nomatch | Rx_error

type_synonym 'rx regexec = "'rx \<Rightarrow> string \<Rightarrow> rx_result"

text \<open>
  \<open>macrosub(macro, string)\<close>: the length it returns and the text it writes; the flag says
  whether \<open>string\<close> is non-null.
\<close>

type_synonym macrosub = "char \<Rightarrow> bool \<Rightarrow> int \<times> string"

definition xform_null :: "char \<Rightarrow> char" where "xform_null c = c"
definition xform_toupper :: "char \<Rightarrow> char" where "xform_toupper c = toupper c"
definition xform_tolower :: "char \<Rightarrow> char" where "xform_tolower c = tolower c"

subsection \<open>Substitution\<close>

text \<open>The loop over the pattern: the length counted and the text produced.\<close>

fun gm_loop :: "bool \<Rightarrow> string \<Rightarrow> string \<Rightarrow> pmatch \<Rightarrow> macrosub option \<Rightarrow> (char \<Rightarrow> char) \<Rightarrow>
    fault + (int \<times> string)" where
  "gm_loop out [] input pm ms xf = Inr (0, [])"
| "gm_loop out [c] input pm ms xf = Inr (1, [xf c])"
| "gm_loop out (c # m # rest) input pm ms xf =
     (if c = BSL then
        (if isdigit m then
           (let (so, eo) = pm (of_char m - 48); mlen = eo - so
            in if so = - 1 then gm_loop out rest input pm ms xf
               else if out \<and> \<not> (0 \<le> so \<and> so \<le> eo \<and> eo \<le> int (length input)) then Inl Out_of_bounds
               else map_sum id (\<lambda>(l, s). (mlen + l,
                        map xf (take (nat mlen) (drop (nat so) input)) @ s))
                      (gm_loop out rest input pm ms xf))
         else if m = CHR ''L'' then gm_loop out rest input pm ms xform_tolower
         else if m = CHR ''U'' then gm_loop out rest input pm ms xform_toupper
         else if m = CHR ''E'' then gm_loop out rest input pm ms xform_null
         else (case ms of
                 Some f \<Rightarrow>
                   (let (sublen, text) = f m out
                    in if 0 \<le> sublen
                       then map_sum id (\<lambda>(l, s). (sublen + l, map xf (take (nat sublen) text) @ s))
                              (gm_loop out rest input pm ms xf)
                       else map_sum id (\<lambda>(l, s). (1 + l, xf m # s)) (gm_loop out rest input pm ms xf))
               | None \<Rightarrow> map_sum id (\<lambda>(l, s). (1 + l, xf m # s)) (gm_loop out rest input pm ms xf)))
      else map_sum id (\<lambda>(l, s). (1 + l, xf c # s)) (gm_loop out (m # rest) input pm ms xf))"

text \<open>
  The whole routine. With an output buffer the two \<open>memcpy\<close> calls get the lengths
  \<open>rm_so\<close> and \<open>strlen(input) - rm_eo\<close>, which are out of range when the match is unset.
\<close>

definition genmatchstring ::
  "bool \<Rightarrow> string \<Rightarrow> string \<Rightarrow> pmatch \<Rightarrow> macrosub option \<Rightarrow> fault + (int \<times> string)" where
  "genmatchstring out pat input pm ms =
     (let (so, eo) = pm 0; endbytes = int (length input) - eo; len = so + endbytes
      in if out \<and> \<not> (0 \<le> so \<and> so \<le> int (length input)) then Inl Bad_copy_length
         else case gm_loop out pat input pm ms xform_null of
                Inl e \<Rightarrow> Inl e
              | Inr (l, s) \<Rightarrow>
                  if out \<and> \<not> (0 \<le> eo \<and> eo \<le> int (length input)) then Inl Bad_copy_length
                  else Inr (len + l, take (nat so) input @ s @ drop (nat eo) input))"

text \<open>The two calls around \<open>tfmalloc(len + 1)\<close> in \<open>rewrite_string\<close>.\<close>

definition gen_newstr :: "string \<Rightarrow> string \<Rightarrow> pmatch \<Rightarrow> macrosub option \<Rightarrow> fault + string" where
  "gen_newstr pat input pm ms =
     (case genmatchstring False pat input pm ms of
        Inl e \<Rightarrow> Inl e
      | Inr (len, _) \<Rightarrow>
          (case genmatchstring True pat input pm ms of
             Inl e \<Rightarrow> Inl e
           | Inr (_, s) \<Rightarrow> if len < int (length s) then Inl Out_of_bounds else Inr s))"

subsection \<open>The rule parser\<close>

fun esc_loop :: "bool \<Rightarrow> string \<Rightarrow> string \<times> string" where
  "esc_loop wasbs [] = ([], [])"
| "esc_loop wasbs (c # cs) =
     (if \<not> wasbs \<and> (isspace c \<or> c = CHR ''#'') then ([], c # cs)
      else (let (buf, rest) = esc_loop (\<not> wasbs \<and> c = BSL) cs in (c # buf, rest)))"

text \<open>\<open>readescstring\<close>: the token put into \<open>buf\<close> (its length is the result) and the new \<open>*str\<close>.\<close>

definition readescstring :: "string \<Rightarrow> string \<times> string" where
  "readescstring str = esc_loop False (dropWhile isspace str)"

primrec parse_flags :: "string \<Rightarrow> u32 \<Rightarrow> char \<Rightarrow> bool \<Rightarrow> (u32 \<times> char \<times> bool) option" where
  "parse_flags [] fl mode icase = Some (fl, mode, icase)"
| "parse_flags (p # ps) fl mode icase =
     (if p = CHR ''r'' then parse_flags ps (fl OR RULE_REWRITE) mode icase
      else if p = CHR ''g'' then parse_flags ps (fl OR RULE_GLOBAL) mode icase
      else if p = CHR ''e'' then parse_flags ps (fl OR RULE_EXIT) mode icase
      else if p = CHR ''s'' then parse_flags ps (fl OR RULE_RESTART) mode icase
      else if p = CHR ''a'' then parse_flags ps (fl OR RULE_ABORT) mode icase
      else if p = CHR ''i'' then parse_flags ps fl mode True
      else if p = CHR ''~'' then parse_flags ps (fl OR RULE_INVERSE) mode icase
      else if p = CHR ''G'' \<or> p = CHR ''P'' then parse_flags ps fl p icase
      else None)"

datatype 'rx parsed = No_rule | Parse_error | Rule_found "'rx rule"

definition parseline :: "(string \<Rightarrow> bool \<Rightarrow> 'rx option) \<Rightarrow> string \<Rightarrow> int \<Rightarrow> 'rx parsed \<times> int" where
  "parseline regcomp line n =
     (let (buf1, l1) = readescstring line
      in if buf1 = [] then (No_rule, n)
      else case parse_flags buf1 0 NUL False of
             None \<Rightarrow> (Parse_error, n)
           | Some (fl0, mode, icase) \<Rightarrow>
               (let fl = (if fl0 AND RULE_REWRITE = 0 then fl0 AND NOT RULE_GLOBAL else fl0)
                in if fl AND (RULE_INVERSE OR RULE_REWRITE) = (RULE_INVERSE OR RULE_REWRITE)
                   then (Parse_error, n)
                   else let (buf2, l2) = readescstring l1
                   in if buf2 = [] then (Parse_error, n)
                   else case regcomp buf2 icase of
                          None \<Rightarrow> (Parse_error, n)
                        | Some c \<Rightarrow>
                            (let (buf3, l3) = readescstring l2
                             in (Rule_found \<lparr>nrule = n, rule_flags = fl, rule_mode = mode,
                                             rx = c, pattern = buf3\<rparr>, n + 1))))"

text \<open>
  \<open>fgets(line, MAXLINE, f)\<close> until the end of the file: pieces that end after a newline or
  after 16383 bytes. \<open>room\<close> counts the bytes the current piece may still take. As a C string a
  piece ends at its first NUL.
\<close>

definition c_line :: "string \<Rightarrow> string" where
  "c_line acc = takeWhile (\<lambda>c. c \<noteq> NUL) (rev acc)"

fun fgets_loop :: "nat \<Rightarrow> string \<Rightarrow> string \<Rightarrow> string list" where
  "fgets_loop room acc [] = (if acc = [] then [] else [c_line acc])"
| "fgets_loop room acc (c # cs) =
     (if c = LF \<or> room \<le> 1 then c_line (c # acc) # fgets_loop (MAXLINE - 1) [] cs
      else fgets_loop (room - 1) (c # acc) cs)"

fun parse_lines :: "(string \<Rightarrow> bool \<Rightarrow> 'rx option) \<Rightarrow> string list \<Rightarrow> int \<Rightarrow> 'rx rule list \<times> bool \<times> int" where
  "parse_lines regcomp [] n = ([], False, n)"
| "parse_lines regcomp (l # ls) n =
     (let (r, n1) = parseline regcomp l n; (rules, err, n2) = parse_lines regcomp ls n1
      in (case r of
            No_rule \<Rightarrow> (rules, err, n2)
          | Parse_error \<Rightarrow> (rules, True, n2)
          | Rule_found x \<Rightarrow> (x # rules, err, n2)))"

text \<open>\<open>None\<close> is \<open>exit(EX_CONFIG)\<close>.\<close>

definition parserulefile :: "(string \<Rightarrow> bool \<Rightarrow> 'rx option) \<Rightarrow> string \<Rightarrow> int \<Rightarrow> ('rx rule list \<times> int) option" where
  "parserulefile regcomp text n =
     (let (rules, err, n') = parse_lines regcomp (fgets_loop (MAXLINE - 1) [] text) n
      in if err then None else Some (rules, n'))"

subsection \<open>The interpreter\<close>

text \<open>A string, NULL with the error message (\<open>None\<close> is a null message), or a fault.\<close>

datatype rw_result = Rw_ok string | Rw_null "string option" | Rw_fault fault

datatype loop_result = Cont string bool | Stop rw_result

definition rule_matches :: "'rx regexec \<Rightarrow> 'rx rule \<Rightarrow> string \<Rightarrow> pmatch option" where
  "rule_matches regexec r cur =
     (case regexec (rx r) cur of
        Rx_match pm \<Rightarrow> if has_flag r RULE_INVERSE then None else Some pm
      | Rx_nomatch \<Rightarrow> if has_flag r RULE_INVERSE then Some (\<lambda>_. (- 1, - 1)) else None
      | Rx_error \<Rightarrow> None)"

definition rule_abort :: "macrosub option \<Rightarrow> 'rx rule \<Rightarrow> string \<Rightarrow> pmatch \<Rightarrow> rw_result" where
  "rule_abort ms r cur pm =
     (if pattern r = [] then Rw_null None
      else case gen_newstr (pattern r) cur pm ms of
             Inl e \<Rightarrow> Rw_fault e
           | Inr s \<Rightarrow> Rw_null (Some s))"

text \<open>The \<open>do\<close> loop on one rule; \<open>was\<close> is \<open>was_match\<close>.\<close>

partial_function (option) rule_loop ::
  "'rx regexec \<Rightarrow> macrosub option \<Rightarrow> 'rx rule \<Rightarrow> string \<Rightarrow> bool \<Rightarrow> loop_result option" where
  "rule_loop regexec ms r cur was =
     (case rule_matches regexec r cur of
        None \<Rightarrow> Some (Cont cur was)
      | Some pm \<Rightarrow>
          if has_flag r RULE_ABORT then Some (Stop (rule_abort ms r cur pm))
          else case (if has_flag r RULE_REWRITE then gen_newstr (pattern r) cur pm ms else Inr cur) of
                 Inl e \<Rightarrow> Some (Stop (Rw_fault e))
               | Inr cur' \<Rightarrow> if has_flag r RULE_GLOBAL then rule_loop regexec ms r cur' True
                            else Some (Cont cur' True))"

text \<open>
  The \<open>for\<close> loop: the rules from \<open>ruleptr\<close> on, \<open>deadman\<close>, \<open>current\<close>. A restart sets
  \<open>ruleptr = rules\<close>, after which the loop header still steps to the next rule.
\<close>

function rewrite_loop ::
  "'rx regexec \<Rightarrow> macrosub option \<Rightarrow> 'rx rule list \<Rightarrow> char \<Rightarrow> 'rx rule list \<Rightarrow> nat \<Rightarrow> string \<Rightarrow>
    rw_result option" where
  "rewrite_loop regexec ms rules mode [] deadman cur = Some (Rw_ok cur)"
| "rewrite_loop regexec ms rules mode (r # rs) deadman cur =
     (if rule_mode r \<noteq> NUL \<and> rule_mode r \<noteq> mode
      then rewrite_loop regexec ms rules mode rs deadman cur
      else if deadman = 0 then Some (Rw_null (Some ''Remap table failure''))
      else case rule_loop regexec ms r cur False of
             None \<Rightarrow> None
           | Some (Stop res) \<Rightarrow> Some res
           | Some (Cont cur' was) \<Rightarrow>
               if was \<and> has_flag r RULE_EXIT then Some (Rw_ok cur')
               else if was \<and> has_flag r RULE_RESTART
               then rewrite_loop regexec ms rules mode (tl rules) (deadman - 1) cur'
               else rewrite_loop regexec ms rules mode rs (deadman - 1) cur')"
  by pat_completeness auto
termination
  by (relation "measures [\<lambda>(re, ms, rules, mode, rs, d, cur). d,
                          \<lambda>(re, ms, rules, mode, rs, d, cur). length rs]") auto

definition rewrite_string ::
  "'rx regexec \<Rightarrow> macrosub option \<Rightarrow> string \<Rightarrow> 'rx rule list \<Rightarrow> char \<Rightarrow> rw_result option" where
  "rewrite_string regexec ms input rules mode =
     rewrite_loop regexec ms rules mode rules DEADMAN_MAX_STEPS input"

subsection \<open>Substitution stays inside the buffer\<close>

text \<open>
  What the interpreter relies on. \<open>regexec\<close> reports ranges inside the string; for the macros
  of the pattern, the callback returns the same length with and without a buffer and writes
  that many bytes.
\<close>

definition pm_ok :: "string \<Rightarrow> pmatch \<Rightarrow> bool" where
  "pm_ok input pm = (\<forall>n < 10. fst (pm n) = - 1 \<or>
     0 \<le> fst (pm n) \<and> fst (pm n) \<le> snd (pm n) \<and> snd (pm n) \<le> int (length input))"

definition regexec_ok :: "'rx regexec \<Rightarrow> bool" where
  "regexec_ok regexec = (\<forall>c input pm. regexec c input = Rx_match pm \<longrightarrow> pm_ok input pm \<and> fst (pm 0) \<noteq> - 1)"

text \<open>The characters of a pattern that follow a backslash.\<close>

fun escaped :: "string \<Rightarrow> string" where
  "escaped (c # m # rest) = (if c = BSL then m # escaped rest else escaped (m # rest))"
| "escaped pat = []"

definition macrosub_ok :: "macrosub option \<Rightarrow> string \<Rightarrow> bool" where
  "macrosub_ok ms pat = (\<forall>f. \<forall>m \<in> set (escaped pat). ms = Some f \<longrightarrow> fst (f m True) = fst (f m False) \<and>
     (0 \<le> fst (f m True) \<longrightarrow> int (length (snd (f m True))) = fst (f m True)))"

lemma macrosub_ok_tl:
  "macrosub_ok ms (c # m # rest) \<Longrightarrow> (c = BSL \<longrightarrow> macrosub_ok ms rest) \<and> (c \<noteq> BSL \<longrightarrow> macrosub_ok ms (m # rest))"
  by (auto simp: macrosub_ok_def)

lemma isdigit_index: "isdigit m \<Longrightarrow> of_char m - 48 < (10 :: nat)"
  by (auto simp: isdigit_def Let_def)

lemma range_lengths:
  assumes "0 \<le> so" "so \<le> eo" "eo \<le> int (length xs)"
  shows "length (take (nat so) xs) = nat so" "length (drop (nat eo) xs) = length xs - nat eo"
    "length (take (nat (eo - so)) (drop (nat so) xs)) = nat (eo - so)"
  using assms by auto

text \<open>The pass that counts and the pass that writes agree.\<close>

definition gm_agree :: "string \<Rightarrow> string \<Rightarrow> pmatch \<Rightarrow> macrosub option \<Rightarrow> (char \<Rightarrow> char) \<Rightarrow> bool" where
  "gm_agree pat input pm ms xf =
     (\<exists>s s'. gm_loop True pat input pm ms xf = Inr (int (length s), s) \<and> gm_loop False pat input pm ms xf = Inr (int (length s), s'))"

lemma gm_agree_digit:
  assumes pm: "pm_ok input pm" and m: "isdigit m" and rest: "gm_agree rest input pm ms xf"
  shows "gm_agree (BSL # m # rest) input pm ms xf"
proof -
  obtain so eo where se: "pm (of_char m - 48) = (so, eo)" by force
  have "so = - 1 \<or> 0 \<le> so \<and> so \<le> eo \<and> eo \<le> int (length input)"
    using pm isdigit_index [OF m] se unfolding pm_ok_def by (metis fst_conv snd_conv)
  then show ?thesis using rest m se range_lengths(3) [of so eo input] by (auto simp: gm_agree_def Let_def)
qed

lemma gm_agree_macro:
  assumes ms: "macrosub_ok ms (BSL # m # rest)" and m: "\<not> isdigit m" "\<not> (m = CHR ''L'' \<or> m = CHR ''U'' \<or> m = CHR ''E'')"
    and rest: "gm_agree rest input pm ms xf"
  shows "gm_agree (BSL # m # rest) input pm ms xf"
proof (cases ms)
  case None
  then show ?thesis using rest m by (auto simp: gm_agree_def)
next
  case (Some f)
  obtain l t l' t' where f: "f m True = (l, t)" "f m False = (l', t')" by force
  then have "l' = l" "0 \<le> l \<Longrightarrow> int (length t) = l"
    using ms Some by (simp_all add: macrosub_ok_def)
  then show ?thesis using rest m Some f by (cases "0 \<le> l") (auto simp: gm_agree_def)
qed

lemma gm_loop_agree:
  assumes "pm_ok input pm" and "macrosub_ok ms pat"
  shows "gm_agree pat input pm ms xf"
  using assms(2)
proof (induction "length pat" arbitrary: pat xf rule: less_induct)
  case (less pat xf)
  consider "length pat < 2" | c m rest where "pat = c # m # rest" "c \<noteq> BSL" | m rest where "pat = BSL # m # rest"
    by (metis One_nat_def length_Cons less_2_cases_iff list.exhaust list.size(3))
  then show ?case
  proof cases
    case 1
    then show ?thesis by (cases pat; cases "tl pat") (auto simp: gm_agree_def)
  next
    case (2 c m rest)
    then have "gm_agree (m # rest) input pm ms xf" using less macrosub_ok_tl [of ms c m rest] by simp
    then show ?thesis using 2 by (auto simp: gm_agree_def)
  next
    case (3 m rest)
    have IH: "gm_agree rest input pm ms f" for f using less 3 macrosub_ok_tl [of ms BSL m rest] by simp
    show ?thesis
    proof (cases "isdigit m \<or> \<not> (m = CHR ''L'' \<or> m = CHR ''U'' \<or> m = CHR ''E'')")
      case True
      then show ?thesis using 3 gm_agree_digit [OF assms(1) _ IH] gm_agree_macro [OF less.prems [unfolded 3] _ _ IH] by blast
    next
      case False
      then show ?thesis using IH [of xform_tolower] IH [of xform_toupper] IH [of xform_null] 3
        by (auto simp: gm_agree_def)
    qed
  qed
qed

lemmas gm_loop_lengths = gm_loop_agree [unfolded gm_agree_def]

lemma gen_newstr_ok:
  assumes "pm_ok input pm" and "macrosub_ok ms pat" and "fst (pm 0) \<noteq> - 1"
  shows "\<exists>s. gen_newstr pat input pm ms = Inr s"
proof -
  obtain so eo where se: "pm 0 = (so, eo)" by force
  have b: "0 \<le> so" "so \<le> eo" "eo \<le> int (length input)"
    using assms(1,3) se unfolding pm_ok_def by (metis fst_conv snd_conv zero_less_numeral)+
  obtain s s' where s: "gm_loop True pat input pm ms xform_null = Inr (int (length s), s)"
    "gm_loop False pat input pm ms xform_null = Inr (int (length s), s')"
    using gm_loop_lengths [OF assms(1,2)] by blast
  have "genmatchstring True pat input pm ms
      = Inr (so + (int (length input) - eo) + int (length s), take (nat so) input @ s @ drop (nat eo) input)"
    using se s b by (simp add: genmatchstring_def)
  moreover have "genmatchstring False pat input pm ms
      = Inr (so + (int (length input) - eo) + int (length s), take (nat so) input @ s' @ drop (nat eo) input)"
    using se s by (simp add: genmatchstring_def)
  moreover have "int (length (take (nat so) input @ s @ drop (nat eo) input))
      = so + (int (length input) - eo) + int (length s)"
    unfolding length_append range_lengths [OF b] using b by simp
  ultimately show ?thesis by (simp add: gen_newstr_def)
qed

lemma gm_loop_plain:
  "BSL \<notin> set pat \<Longrightarrow> gm_loop out pat input pm ms xf = Inr (int (length pat), map xf pat)"
  by (induction out pat input pm ms xf rule: gm_loop.induct) auto

text \<open>A pattern without backslashes replaces the matched range by itself.\<close>

lemma gen_newstr_plain:
  assumes "BSL \<notin> set pat" and "pm 0 = (so, eo)" and "0 \<le> so" "so \<le> eo" "eo \<le> int (length input)"
  shows "gen_newstr pat input pm ms = Inr (take (nat so) input @ pat @ drop (nat eo) input)"
proof -
  have "map xform_null pat = pat" by (simp add: xform_null_def map_idI)
  then have "genmatchstring out pat input pm ms
      = Inr (so + (int (length input) - eo) + int (length pat), take (nat so) input @ pat @ drop (nat eo) input)" for out
    using assms by (simp add: genmatchstring_def gm_loop_plain)
  moreover have "int (length (take (nat so) input @ pat @ drop (nat eo) input))
      = so + (int (length input) - eo) + int (length pat)"
    unfolding length_append range_lengths [OF assms(3-5)] using assms(3-5) by simp
  ultimately show ?thesis by (simp add: gen_newstr_def)
qed

subsection \<open>Safety and termination of the interpreter\<close>

text \<open>
  The rules that are safe to run: none rewrites under an inverted match (the parser refuses
  those) and none builds an abort message under an inverted match.
\<close>

definition safe_rule :: "'rx rule \<Rightarrow> bool" where
  "safe_rule r = (has_flag r RULE_INVERSE \<longrightarrow>
     \<not> has_flag r RULE_REWRITE \<and> (has_flag r RULE_ABORT \<longrightarrow> pattern r = []))"

lemma rule_matches_ok:
  "rule_matches regexec r cur = Some pm \<Longrightarrow> regexec_ok regexec \<Longrightarrow> \<not> has_flag r RULE_INVERSE \<Longrightarrow>
     pm_ok cur pm \<and> fst (pm 0) \<noteq> - 1"
  by (auto simp: rule_matches_def regexec_ok_def split: rx_result.splits)

lemma rule_step_ok:
  assumes "rule_matches regexec r cur = Some pm" and "regexec_ok regexec" and "macrosub_ok ms (pattern r)" and "safe_rule r"
  shows "has_flag r RULE_ABORT \<Longrightarrow> rule_abort ms r cur pm \<noteq> Rw_fault e"
    and "has_flag r RULE_REWRITE \<Longrightarrow> gen_newstr (pattern r) cur pm ms \<noteq> Inl e"
proof -
  have ok: "\<exists>s. gen_newstr (pattern r) cur pm ms = Inr s" if "\<not> has_flag r RULE_INVERSE"
    using rule_matches_ok [OF assms(1,2) that] gen_newstr_ok [OF _ assms(3)] by blast
  show "rule_abort ms r cur pm \<noteq> Rw_fault e" if "has_flag r RULE_ABORT"
    using ok assms(4) that by (cases "has_flag r RULE_INVERSE") (auto simp: rule_abort_def safe_rule_def)
  show "gen_newstr (pattern r) cur pm ms \<noteq> Inl e" if "has_flag r RULE_REWRITE"
    using ok assms(4) that by (auto simp: safe_rule_def)
qed

lemma rule_loop_no_fault:
  assumes "rule_loop regexec ms r cur was = Some y"
    and ok: "regexec_ok regexec" "macrosub_ok ms (pattern r)" "safe_rule r"
  shows "y \<noteq> Stop (Rw_fault e)"
proof -
  have "regexec_ok regexec \<longrightarrow> macrosub_ok ms (pattern r) \<longrightarrow> safe_rule r \<longrightarrow> y \<noteq> Stop (Rw_fault e)"
  proof (rule rule_loop.raw_induct [where P = "\<lambda>re ms r cur was y.
        regexec_ok re \<longrightarrow> macrosub_ok ms (pattern r) \<longrightarrow> safe_rule r \<longrightarrow> y \<noteq> Stop (Rw_fault e)", OF _ assms(1)])
    fix f :: "'a regexec \<Rightarrow> macrosub option \<Rightarrow> 'a rule \<Rightarrow> string \<Rightarrow> bool \<Rightarrow> loop_result option"
      and re ms r cur was y
    assume IH: "\<And>re ms r cur was y. f re ms r cur was = Some y \<Longrightarrow>
        regexec_ok re \<longrightarrow> macrosub_ok ms (pattern r) \<longrightarrow> safe_rule r \<longrightarrow> y \<noteq> Stop (Rw_fault e)"
      and body: "(case rule_matches re r cur of
        None \<Rightarrow> Some (Cont cur was)
      | Some pm \<Rightarrow>
          if has_flag r RULE_ABORT then Some (Stop (rule_abort ms r cur pm))
          else case (if has_flag r RULE_REWRITE then gen_newstr (pattern r) cur pm ms else Inr cur) of
                 Inl e \<Rightarrow> Some (Stop (Rw_fault e))
               | Inr cur' \<Rightarrow> if has_flag r RULE_GLOBAL then f re ms r cur' True
                            else Some (Cont cur' True)) = Some y"
    show "regexec_ok re \<longrightarrow> macrosub_ok ms (pattern r) \<longrightarrow> safe_rule r \<longrightarrow> y \<noteq> Stop (Rw_fault e)"
    proof (intro impI)
      assume oks: "regexec_ok re" "macrosub_ok ms (pattern r)" "safe_rule r"
      show "y \<noteq> Stop (Rw_fault e)"
      proof (cases "rule_matches re r cur")
        case None
        with body show ?thesis by auto
      next
        case (Some pm)
        note st = rule_step_ok [OF Some oks]
        from body Some st IH oks show ?thesis
          by (auto split: if_splits sum.splits)
      qed
    qed
  qed
  with ok show ?thesis by blast
qed

text \<open>
  Memory safety of the interpreter, for any macro callback: if the regular-expression library
  reports sub-matches inside the string and the callback keeps its contract for the macros
  of the rules, then running rules none of which builds an abort message under an inverted
  match never writes outside an allocated string and never copies a negative length, however
  often rules repeat or restart.
\<close>

lemma rewrite_string_no_fault:
  assumes "regexec_ok regexec" and "\<forall>r \<in> set rules. safe_rule r \<and> macrosub_ok ms (pattern r)"
    and "rewrite_string regexec ms input rules mode = Some res"
  shows "res \<noteq> Rw_fault e"
proof -
  have "res \<noteq> Rw_fault e"
    if "rewrite_loop regexec ms rules mode rs d cur = Some res" and "set rs \<subseteq> set rules"
      and "regexec_ok regexec" "\<forall>r \<in> set rules. safe_rule r \<and> macrosub_ok ms (pattern r)" for rs d cur
    using that
  proof (induction regexec ms rules mode rs d cur rule: rewrite_loop.induct)
    case (2 regexec ms rules mode r rs d cur)
    show ?case
    proof (cases "rule_mode r \<noteq> NUL \<and> rule_mode r \<noteq> mode \<or> d = 0")
      case True
      with 2 show ?thesis by (auto split: if_splits)
    next
      case False
      have tl: "set (tl rules) \<subseteq> set rules" by (cases rules) auto
      have nf: "rule_loop regexec ms r cur False \<noteq> Some (Stop (Rw_fault e))"
        using rule_loop_no_fault 2(5-7) by fastforce
      show ?thesis
        using 2 False tl nf by (auto split: option.splits loop_result.splits if_splits)
    qed
  qed auto
  then show ?thesis using assms by (auto simp: rewrite_string_def)
qed

text \<open>
  A matcher for concrete instances: the compiled expression is a literal that must be the
  whole string; and rules over it.
\<close>

definition lit_regexec :: "string regexec" where
  "lit_regexec c input =
     (if c = input then Rx_match (\<lambda>n. if n = 0 then (0, int (length input)) else (- 1, - 1)) else Rx_nomatch)"

definition lit_rule :: "u32 \<Rightarrow> string \<Rightarrow> string \<Rightarrow> string rule" where
  "lit_rule fl c pat = \<lparr>nrule = 0, rule_flags = fl, rule_mode = NUL, rx = c, pattern = pat\<rparr>"

lemma lit_regexec_ok: "regexec_ok lit_regexec"
  by (auto simp: regexec_ok_def lit_regexec_def pm_ok_def split: if_splits)

lemma lit_rule_flags [simp]:
  "has_flag (lit_rule fl c pat) g = (fl AND g \<noteq> 0)" "pattern (lit_rule fl c pat) = pat"
  "rx (lit_rule fl c pat) = c" "rule_mode (lit_rule fl c pat) = NUL"
  by (simp_all add: lit_rule_def has_flag_def)

lemma lit_rewrite:
  "BSL \<notin> set pat \<Longrightarrow> fl AND RULE_INVERSE = 0 \<Longrightarrow> fl AND RULE_ABORT = 0 \<Longrightarrow> fl AND RULE_REWRITE \<noteq> 0 \<Longrightarrow>
   fl AND RULE_GLOBAL = 0 \<Longrightarrow>
   rule_loop lit_regexec ms (lit_rule fl c pat) cur was
     = (if cur = c then Some (Cont pat True) else Some (Cont cur was))"
  by (subst rule_loop.simps) (auto simp: rule_matches_def lit_regexec_def gen_newstr_plain)

lemma ex_rewrite:
  "rewrite_string lit_regexec None ''boot'' [lit_rule 1 ''boot'' ''kernel''] mode = Some (Rw_ok ''kernel'')"
  by (simp add: rewrite_string_def lit_rewrite rule_flag_defs)

text \<open>
  C30. Termination: a rule set without global rules always gives an answer, whatever the
  regular expressions do, because at most 1024 rules are run.
\<close>

theorem rewrite_string_terminates:
  assumes "\<forall>r \<in> set rules. \<not> has_flag r RULE_GLOBAL"
  shows "\<exists>res. rewrite_string regexec ms input rules mode = Some res"
proof -
  have one: "\<exists>y. rule_loop regexec ms r cur was = Some y" if "\<not> has_flag r RULE_GLOBAL" for r cur was
    using that by (subst rule_loop.simps) (auto split: option.splits sum.splits)
  have "\<exists>res. rewrite_loop regexec ms rules mode rs d cur = Some res" if "set rs \<subseteq> set rules" for rs d cur
    using that assms one
  proof (induction regexec ms rules mode rs d cur rule: rewrite_loop.induct)
    case (2 regexec ms rules mode r rs d cur)
    have "set (tl rules) \<subseteq> set rules" by (cases rules) auto
    moreover obtain y where "rule_loop regexec ms r cur False = Some y" using 2(4-6) by fastforce
    ultimately show ?case using 2 by (cases y) auto
  qed auto
  then show ?thesis by (simp add: rewrite_string_def)
qed

theorem rewrite_string_terminates_witness:
  "\<exists>res. rewrite_string lit_regexec None ''a'' [lit_rule 9 ''a'' ''a'', lit_rule 9 ''a'' ''a''] (CHR ''G'') = Some res"
  by (rule rewrite_string_terminates) (simp add: rule_flag_defs)

lemma rule_loop_stuck:
  assumes "rule_matches regexec r cur = Some pm" and "\<not> has_flag r RULE_ABORT" and "has_flag r RULE_GLOBAL"
    and "has_flag r RULE_REWRITE" and "gen_newstr (pattern r) cur pm ms = Inr cur"
  shows "rule_loop regexec ms r cur was = None"
proof (rule ccontr)
  assume "rule_loop regexec ms r cur was \<noteq> None"
  then obtain y where y: "rule_loop regexec ms r cur was = Some y" by blast
  have "\<not> (regexec = regexec \<and> r = r \<and> cur = cur \<and> ms = ms)"
  proof (rule rule_loop.raw_induct [where P = "\<lambda>re' ms' r' cur' was' y.
        \<not> (re' = regexec \<and> r' = r \<and> cur' = cur \<and> ms' = ms)", OF _ y])
    fix f :: "'a regexec \<Rightarrow> macrosub option \<Rightarrow> 'a rule \<Rightarrow> string \<Rightarrow> bool \<Rightarrow> loop_result option"
      and re' ms' r' cur' was' y
    assume IH: "\<And>re' ms' r' cur' was' y. f re' ms' r' cur' was' = Some y \<Longrightarrow>
        \<not> (re' = regexec \<and> r' = r \<and> cur' = cur \<and> ms' = ms)"
      and body: "(case rule_matches re' r' cur' of
        None \<Rightarrow> Some (Cont cur' was')
      | Some pm \<Rightarrow>
          if has_flag r' RULE_ABORT then Some (Stop (rule_abort ms' r' cur' pm))
          else case (if has_flag r' RULE_REWRITE then gen_newstr (pattern r') cur' pm ms' else Inr cur') of
                 Inl e \<Rightarrow> Some (Stop (Rw_fault e))
               | Inr cur2 \<Rightarrow> if has_flag r' RULE_GLOBAL then f re' ms' r' cur2 True
                            else Some (Cont cur2 True)) = Some y"
    show "\<not> (re' = regexec \<and> r' = r \<and> cur' = cur \<and> ms' = ms)"
    proof
      assume eq: "re' = regexec \<and> r' = r \<and> cur' = cur \<and> ms' = ms"
      with body assms have "f regexec ms r cur True = Some y" by simp
      from IH [OF this] show False by simp
    qed
  qed
  then show False by simp
qed

text \<open>
  The step limit does not cover global rules: a global rewrite rule whose result still
  matches it and is equal to its input is repeated for ever, so the request is never
  answered.
\<close>

lemma global_rule_diverges:
  assumes m: "rule_matches regexec r input = Some pm" and "\<not> has_flag r RULE_ABORT"
    and "has_flag r RULE_GLOBAL" and "has_flag r RULE_REWRITE" and "rule_mode r = NUL"
    and "gen_newstr (pattern r) input pm ms = Inr input"
  shows "rewrite_string regexec ms input (r # rules) mode = None"
  using rule_loop_stuck [OF assms(1-4,6)] assms(5) by (simp add: rewrite_string_def)

lemma global_rule_example:
  "rewrite_string lit_regexec None ''a'' [lit_rule 3 ''a'' ''a''] (CHR ''G'') = None"
proof -
  let ?pm = "\<lambda>n :: nat. if n = 0 then (0, int (length ''a'')) else (- 1, - 1 :: int)"
  have "rule_matches lit_regexec (lit_rule 3 ''a'' ''a'') ''a'' = Some ?pm"
    by (simp add: rule_matches_def lit_regexec_def rule_flag_defs)
  moreover have "gen_newstr ''a'' ''a'' ?pm None = Inr ''a''"
    by (subst gen_newstr_plain [where so = 0 and eo = "int (length ''a'')"]) simp_all
  ultimately show ?thesis by (intro global_rule_diverges) (simp_all add: rule_flag_defs)
qed

text \<open>
  A restart does not start from the top: the loop steps past the first rule. With the
  rules a to b, and c to a with a restart, the name c becomes a, where a restart at the
  first rule would give b.
\<close>

lemma restart_skips_first_rule:
  "rewrite_string lit_regexec None ''c'' [lit_rule 1 ''a'' ''b'', lit_rule 9 ''c'' ''a''] (CHR ''G'')
     = Some (Rw_ok ''a'')
   \<and> rewrite_string lit_regexec None ''a'' [lit_rule 1 ''a'' ''b'', lit_rule 9 ''c'' ''a''] (CHR ''G'')
     = Some (Rw_ok ''b'')"
  by (simp add: rewrite_string_def lit_rewrite rule_flag_defs)

text \<open>
  An inverted abort rule with a message runs into a \<open>memcpy\<close> of a negative length: the
  match ranges are all -1 when \<open>genmatchstring\<close> is called to fill the message, whatever the
  message is.
\<close>

lemma map_sum_Inl_iff: "map_sum id g x = Inl e \<longleftrightarrow> x = Inl e"
  by (cases x) auto

lemma gm_loop_counts: "gm_loop False pat input pm ms xf \<noteq> Inl e"
proof (induction "length pat" arbitrary: pat xf rule: less_induct)
  case (less pat xf)
  consider "pat = []" | c where "pat = [c]" | c m rest where "pat = c # m # rest" by (metis list.exhaust)
  then show ?case
  proof cases
    case (3 c m rest)
    then have "gm_loop False rest input pm ms f \<noteq> Inl e" "gm_loop False (m # rest) input pm ms xf \<noteq> Inl e" for f
      using less by simp_all
    then show ?thesis unfolding 3
      by (cases "c = BSL"; cases "isdigit m"; cases "pm (of_char m - 48)"; cases ms)
        (simp_all add: Let_def map_sum_Inl_iff case_prod_beta)
  qed simp_all
qed

lemma inverse_abort_message_faults:
  assumes "regexec (rx r) input = Rx_nomatch" and "has_flag r RULE_INVERSE" and "has_flag r RULE_ABORT"
    and "pattern r \<noteq> []" and "rule_mode r = NUL"
  shows "rewrite_string regexec ms input (r # rules) mode = Some (Rw_fault Bad_copy_length)"
proof -
  obtain l s where "gm_loop False (pattern r) input (\<lambda>_. (- 1, - 1)) ms xform_null = Inr (l, s)"
    using gm_loop_counts by (metis obj_sumE surj_pair)
  then have "gen_newstr (pattern r) input (\<lambda>_. (- 1, - 1)) ms = Inl Bad_copy_length"
    by (simp add: gen_newstr_def genmatchstring_def)
  then have "rule_loop regexec ms r input False = Some (Stop (Rw_fault Bad_copy_length))"
    using assms by (subst rule_loop.simps) (simp add: rule_matches_def rule_abort_def)
  then show ?thesis using assms(5) by (simp add: rewrite_string_def)
qed

subsection \<open>What the parser guarantees\<close>

lemma esc_loop_split: "esc_loop b cs = (buf, rest) \<Longrightarrow> cs = buf @ rest"
  by (induction b cs arbitrary: buf rule: esc_loop.induct) (auto split: if_splits prod.splits)

lemma esc_loop_stop:
  "esc_loop b cs = (buf, rest) \<Longrightarrow> rest = [] \<or> isspace (hd rest) \<or> hd rest = CHR ''#''"
  by (induction b cs arbitrary: buf rule: esc_loop.induct) (auto split: if_splits prod.splits)

lemma esc_loop_plain:
  "\<forall>c \<in> set w. \<not> isspace c \<and> c \<noteq> CHR ''#'' \<and> c \<noteq> BSL \<Longrightarrow> isspace d \<or> d = CHR ''#'' \<Longrightarrow>
     esc_loop False (w @ d # rest) = (w, d # rest)"
  by (induction w) auto

text \<open>
  The tokenizer loses nothing and stops in the right place: leading blanks, the token
  and the remaining text make up the line, and the remaining text is empty or starts with a
  blank or a comment sign.
\<close>

lemma readescstring_correct:
  assumes "readescstring line = (buf, rest)"
  shows "line = takeWhile isspace line @ buf @ rest \<and>
         (rest = [] \<or> isspace (hd rest) \<or> hd rest = CHR ''#'')"
proof -
  have e: "esc_loop False (dropWhile isspace line) = (buf, rest)"
    using assms by (simp add: readescstring_def)
  from esc_loop_split [OF e] have "line = takeWhile isspace line @ buf @ rest"
    by (metis takeWhile_dropWhile_id)
  with esc_loop_stop [OF e] show ?thesis by blast
qed

lemma ex_readescstring: "readescstring ''  rg foo'' = (''rg'', '' foo'')"
  by (simp add: readescstring_def isspace_def)

theorem readescstring_correct_witness:
  "''  rg foo'' = takeWhile isspace ''  rg foo'' @ ''rg'' @ '' foo''"
  using readescstring_correct [OF ex_readescstring] by blast

lemma and_flag_bit:
  "(fl :: u32) AND RULE_REWRITE = 0 \<longleftrightarrow> \<not> bit fl 0" "fl AND RULE_GLOBAL = 0 \<longleftrightarrow> \<not> bit fl 1"
  "fl AND RULE_INVERSE = 0 \<longleftrightarrow> \<not> bit fl 5"
  using and_exp_eq_0_iff_not_bit [of fl 0] and_exp_eq_0_iff_not_bit [of fl 1]
    and_exp_eq_0_iff_not_bit [of fl 5] by (simp_all add: rule_flag_defs)

lemma both_flags:
  fixes fl :: u32
  assumes b: "bit fl 0" "bit fl 5"
  shows "fl AND (RULE_INVERSE OR RULE_REWRITE) = RULE_INVERSE OR RULE_REWRITE"
proof (rule bit_eqI)
  fix n
  have i: "bit RULE_INVERSE n \<longleftrightarrow> n = 5" and r: "bit RULE_REWRITE n \<longleftrightarrow> n = 0"
    using bit_exp_iff [of 5 n, where ?'a = u32] bit_exp_iff [of 0 n, where ?'a = u32]
    by (auto simp: rule_flag_defs)
  show "bit (fl AND (RULE_INVERSE OR RULE_REWRITE)) n \<longleftrightarrow> bit (RULE_INVERSE OR RULE_REWRITE) n"
    unfolding bit_and_iff bit_or_iff i r using b by auto
qed

text \<open>The flags a parsed rule can carry, and its number.\<close>

definition parsed_rule_ok :: "'rx rule \<Rightarrow> bool" where
  "parsed_rule_ok r =
     (\<not> (has_flag r RULE_INVERSE \<and> has_flag r RULE_REWRITE) \<and>
      (has_flag r RULE_GLOBAL \<longrightarrow> has_flag r RULE_REWRITE))"

lemma parseline_rule:
  assumes "parseline regcomp line n = (Rule_found r, n')"
  shows "parsed_rule_ok r \<and> nrule r = n \<and> n' = n + 1"
proof -
  define fix_global where "fix_global fl0 =
    (if fl0 AND RULE_REWRITE = 0 then fl0 AND NOT RULE_GLOBAL else fl0)" for fl0 :: u32
  obtain fl0 fl where fl: "fl = fix_global fl0"
    and nb: "\<not> fl AND (RULE_INVERSE OR RULE_REWRITE) = (RULE_INVERSE OR RULE_REWRITE)"
    and r: "rule_flags r = fl" "nrule r = n" "n' = n + 1"
    using assms unfolding parseline_def fix_global_def [symmetric]
    by (auto simp: Let_def split: prod.splits if_splits option.splits)
  have "\<not> (bit fl 0 \<and> bit fl 5)" using nb both_flags by blast
  moreover have "bit fl 1 \<Longrightarrow> bit fl 0"
    using fl bit_exp_iff [of 1 1, where ?'a = u32]
    by (auto simp: fix_global_def and_flag_bit bit_and_iff bit_not_iff RULE_GLOBAL_def split: if_splits)
  ultimately show ?thesis using r by (auto simp: parsed_rule_ok_def has_flag_def and_flag_bit)
qed

lemma parse_lines_rules:
  "parse_lines regcomp ls n = (rules, err, n') \<Longrightarrow>
     (\<forall>r \<in> set rules. parsed_rule_ok r) \<and> map nrule rules = map (\<lambda>i. n + int i) [0 ..< length rules] \<and>
     n' = n + int (length rules)"
proof (induction ls arbitrary: n rules err n')
  case Nil
  then show ?case by simp
next
  case (Cons l ls)
  obtain pr n1 where p: "parseline regcomp l n = (pr, n1)" by force
  obtain rs e n2 where t: "parse_lines regcomp ls n1 = (rs, e, n2)" by (metis prod_cases3)
  note IH = Cons.IH [OF t]
  show ?case
  proof (cases pr)
    case (Rule_found r)
    then have "parsed_rule_ok r" "nrule r = n" "n1 = n + 1"
      using parseline_rule p by blast+
    moreover have "rules = r # rs" "n' = n2" using Cons.prems p t Rule_found by auto
    ultimately show ?thesis using IH by (simp add: upt_conv_Cons map_Suc_upt [symmetric] o_def del: upt_Suc)
  qed (use IH p t Cons.prems in \<open>auto simp: parseline_def Let_def split: prod.splits if_splits option.splits\<close>)
qed

lemma parserulefile_ok:
  assumes "parserulefile regcomp text n = Some (rules, n')"
  shows "(\<forall>r \<in> set rules. parsed_rule_ok r) \<and>
         map nrule rules = map (\<lambda>i. n + int i) [0 ..< length rules] \<and> n' = n + int (length rules)"
proof -
  obtain err where "parse_lines regcomp (fgets_loop (MAXLINE - 1) [] text) n = (rules, err, n')"
    using assms by (auto simp: parserulefile_def Let_def split: prod.splits if_splits)
  from parse_lines_rules [OF this] show ?thesis .
qed

text \<open>
  C31. A rule file that parses without error yields rules that are never both inverted and
  rewriting, are global only if they rewrite, and are numbered consecutively from the
  counter's value in file order.
\<close>

theorem parserulefile_rules:
  assumes "parserulefile regcomp text n = Some (rules, n')"
  shows "(\<forall>r \<in> set rules. \<not> (has_flag r RULE_INVERSE \<and> has_flag r RULE_REWRITE) \<and>
            (has_flag r RULE_GLOBAL \<longrightarrow> has_flag r RULE_REWRITE)) \<and>
         map nrule rules = map (\<lambda>i. n + int i) [0 ..< length rules] \<and> n' = n + int (length rules)"
  using parserulefile_ok [OF assms] by (simp add: parsed_rule_ok_def)

lemma ex_parse:
  "parserulefile (\<lambda>s icase. Some s) ''rg a b'' 0
     = Some ([\<lparr>nrule = 0, rule_flags = 3, rule_mode = NUL, rx = ''a'', pattern = ''b''\<rparr>], 1)"
  by (simp add: parserulefile_def parseline_def readescstring_def isspace_def rule_flag_defs c_line_def)

theorem parserulefile_rules_witness:
  "\<exists>rules n'. parserulefile (\<lambda>s icase. Some s) ''rg a b'' 0 = Some (rules, n') \<and> rules \<noteq> [] \<and>
     (\<forall>r \<in> set rules. has_flag r RULE_GLOBAL \<and> has_flag r RULE_REWRITE \<and> \<not> has_flag r RULE_INVERSE) \<and>
     map nrule rules = [0] \<and> n' = 1"
  using parserulefile_rules [OF ex_parse] ex_parse by (simp add: has_flag_def rule_flag_defs)

end
