(* ===== verification/Access.thy ===== *)
theory Access
  imports Options WooData Remap "HOL-Library.Sublist"
begin

text \<open>
  From the requested name to an open file: the macros of the remap engine
  (\<open>rewrite_macros\<close>), remapping (\<open>rewrite_access\<close>) and the access checks
  (\<open>validate_access\<close>) of \<open>tftpd.c\<close>.
\<close>

unbundle bit_operations_syntax

subsection \<open>Macros and remapping\<close>

datatype client_addr = Addr_in u32 | Addr_in6 "u8 list"

definition hexdigit :: "nat \<Rightarrow> char" where
  "hexdigit n = char_of (if n < 10 then 48 + n else 55 + n)"

text \<open>\<open>%0kX\<close> of a value below \<open>16 ^ k\<close>.\<close>

primrec hex :: "nat \<Rightarrow> nat \<Rightarrow> string" where
  "hex 0 n = []"
| "hex (Suc k) n = hex k (n div 16) @ [hexdigit (n mod 16)]"

text \<open>\<open>ntop\<close> is what \<open>inet_ntop\<close> returns for the client's address.\<close>

definition rewrite_macros :: "client_addr \<Rightarrow> string option \<Rightarrow> macrosub" where
  "rewrite_macros from ntop macro output =
     (if macro = CHR ''i'' then
        (case ntop of
           None \<Rightarrow> (0, [])
         | Some p \<Rightarrow> (int (length p), if output then p else []))
      else if macro = CHR ''x'' then
        (if output then
           (case from of
              Addr_in a \<Rightarrow> (8, hex 8 (unat a))
            | Addr_in6 c \<Rightarrow> (let tb = concat (map (\<lambda>b. hex 2 (unat b)) (take 16 c)) in (int (length tb), tb)))
         else (0, []))
      else (- 1, []))"

text \<open>\<open>None\<close> among the rules is the null pointer of a server without a map file.\<close>

definition rewrite_access ::
  "'rx regexec \<Rightarrow> macrosub \<Rightarrow> 'rx rule list option \<Rightarrow> string \<Rightarrow> bool \<Rightarrow> rw_result option" where
  "rewrite_access regexec ms rewrite_rules filename rrq =
     (case rewrite_rules of
        None \<Rightarrow> Some (Rw_ok filename)
      | Some rules \<Rightarrow> rewrite_string regexec (Some ms) filename rules (if rrq then CHR ''G'' else CHR ''P''))"

subsection \<open>Access checks\<close>

record access_cfg =
  secure :: bool
  cancreate :: bool
  unixperms :: bool
  dirs :: "string list"

text \<open>
  An opened file: its contents, what \<open>fstat\<close> reports, and whether \<open>fstat\<close>, the lock,
  \<open>ftruncate\<close> and \<open>fdopen\<close> succeed on it.
\<close>

record opened =
  o_file :: cfile
  st_mode :: u32
  st_size :: int
  o_fstat :: bool
  o_lock :: bool
  o_trunc :: bool
  o_fdopen :: bool

text \<open>\<open>open\<close> of a path for reading or writing, possibly creating it: \<open>errno\<close> or a file.\<close>

type_synonym sys_open = "string \<Rightarrow> bool \<Rightarrow> bool \<Rightarrow> int + opened"

abbreviation ENOENT :: int where "ENOENT \<equiv> 2"
abbreviation ENOTDIR :: int where "ENOTDIR \<equiv> 20"
abbreviation ENOSPC :: int where "ENOSPC \<equiv> 28"
abbreviation EEXIST :: int where "EEXIST \<equiv> 17"

datatype access_result = Acc_ok cfile | Acc_err int "string option" | Acc_exit int

text \<open>The search for \<open>/../\<close>: \<open>for (i = 1; i < len - 3; i++)\<close>.\<close>

definition reverse_path :: "string \<Rightarrow> bool" where
  "reverse_path filename =
     list_ex (\<lambda>i. filename ! i = CHR ''.'' \<and> take 4 (drop (i - 1) filename) = ''/../'')
       [1 ..< length filename - 3]"

definition forbidden_dir :: "string list \<Rightarrow> string \<Rightarrow> bool" where
  "forbidden_dir ds filename =
     (ds \<noteq> [] \<and> \<not> list_ex (\<lambda>d. take (length d) filename = d) ds)"

definition name_check :: "access_cfg \<Rightarrow> string \<Rightarrow> string option" where
  "name_check cfg filename =
     (if secure cfg then None
      else if filename = [] \<or> hd filename \<noteq> CHR ''/'' then Some ''Only absolute filenames allowed''
      else if reverse_path filename then Some ''Reverse path not allowed''
      else if forbidden_dir (dirs cfg) filename then Some ''Forbidden directory''
      else None)"

definition open_error :: "int \<Rightarrow> int" where
  "open_error e =
     (if e = ENOENT \<or> e = ENOTDIR then ENOTFOUND
      else if e = ENOSPC then ENOSPACE
      else if e = EEXIST then EEXISTS
      else e + 100)"

text \<open>\<open>lock_file\<close> returns 0 exactly if the lock was taken.\<close>

definition lock_file :: "opened \<Rightarrow> bool \<Rightarrow> int" where
  "lock_file fd lock_write = (if o_lock fd then 0 else - 1)"

definition S_IROTH :: u32 where "S_IROTH = 4"
definition S_IWOTH :: u32 where "S_IWOTH = 2"

text \<open>After \<open>open\<close>: the result and the parameters with \<open>tsize\<close> and \<open>tsize_ok\<close>.\<close>

definition check_opened :: "access_cfg \<Rightarrow> bool \<Rightarrow> bool \<Rightarrow> opened \<Rightarrow> opts \<Rightarrow> access_result \<times> opts" where
  "check_opened cfg rrq convert fd g =
     (if \<not> o_fstat fd then (Acc_exit 71, g)
      else if lock_file fd (\<not> rrq) \<noteq> 0 then (Acc_exit 0, g)
      else if rrq then
        (if \<not> unixperms cfg \<and> st_mode fd AND S_IROTH = 0
         then (Acc_err EACCESS (Some ''File must have global read permissions''), g)
         else let g1 = g\<lparr>tsize := st_size fd, tsize_ok := \<not> convert\<rparr>
              in (if o_fdopen fd then Acc_ok (o_file fd) else Acc_exit 71, g1))
      else
        (if \<not> unixperms cfg \<and> st_mode fd AND S_IWOTH = 0
         then (Acc_err EACCESS (Some ''File must have global write permissions''), g)
         else if \<not> o_trunc fd then (Acc_err EACCESS (Some ''Cannot reset file size''), g)
         else let g1 = g\<lparr>tsize := 0, tsize_ok := True\<rparr>
              in (if o_fdopen fd then Acc_ok ((o_file fd)\<lparr>fdata := [], fpos := 0\<rparr>) else Acc_exit 71, g1)))"

definition validate_access ::
  "access_cfg \<Rightarrow> sys_open \<Rightarrow> bool \<Rightarrow> bool \<Rightarrow> string \<Rightarrow> woo_data \<Rightarrow> wootftpd_shared_data \<Rightarrow> opts
     \<Rightarrow> fault + (access_result \<times> wootftpd_shared_data \<times> opts)" where
  "validate_access cfg opn rrq convert filename w m g0 =
     (let g = g0\<lparr>tsize_ok := False\<rparr>
      in case woo_set_filename w m filename of
           Inl e \<Rightarrow> Inl e
         | Inr (_, m1) \<Rightarrow>
             (case name_check cfg filename of
                Some msg \<Rightarrow> Inr (Acc_err EACCESS (Some msg), m1, g)
              | None \<Rightarrow>
                  (case opn filename rrq (\<not> rrq \<and> cancreate cfg) of
                     Inl e \<Rightarrow> Inr (Acc_err (open_error e) None, m1, g)
                   | Inr fd \<Rightarrow>
                       (case check_opened cfg rrq convert fd g of
                          (Acc_ok f, g1) \<Rightarrow>
                            Inr (Acc_ok f, snd (woo_set_total_block w m1 (sint (word_of_int (tsize g1) :: u32))), g1)
                        | (r, g1) \<Rightarrow> Inr (r, m1, g1)))))"


subsection \<open>What the name checks guarantee\<close>

lemma take4_drop_iff:
  "take 4 (drop k xs) = ''/../'' \<longleftrightarrow> (\<exists>a b. xs = a @ ''/../'' @ b \<and> length a = k)"
proof
  assume t: "take 4 (drop k xs) = ''/../''"
  then have "length (take 4 (drop k xs)) = 4" by simp
  then have "length (take k xs) = k" by simp
  moreover have "xs = take k xs @ ''/../'' @ drop 4 (drop k xs)"
    using append_take_drop_id [of 4 "drop k xs"] unfolding t by (metis append_take_drop_id)
  ultimately show "\<exists>a b. xs = a @ ''/../'' @ b \<and> length a = k" by blast
qed auto

lemma reverse_path_iff:
  "reverse_path filename \<longleftrightarrow> (\<exists>a b. filename = a @ ''/../'' @ b \<and> b \<noteq> [])"
proof
  assume "reverse_path filename"
  then obtain i where i: "1 \<le> i" "i < length filename - 3" "take 4 (drop (i - 1) filename) = ''/../''"
    by (auto simp: reverse_path_def list_ex_iff)
  then obtain a b where "filename = a @ ''/../'' @ b" "length a = i - 1"
    unfolding take4_drop_iff by blast
  with i show "\<exists>a b. filename = a @ ''/../'' @ b \<and> b \<noteq> []" by (intro exI conjI) auto
next
  assume "\<exists>a b. filename = a @ ''/../'' @ b \<and> b \<noteq> []"
  then obtain a b where f: "filename = a @ ''/../'' @ b" "b \<noteq> []" by blast
  have "take 4 (drop (Suc (length a) - 1) filename) = ''/../''" using f by simp
  moreover have "filename ! Suc (length a) = CHR ''.''" using f by (simp add: nth_append)
  moreover have "length filename = length a + 4 + length b" "0 < length b" using f by simp_all
  then have "1 \<le> Suc (length a)" "Suc (length a) < length filename - 3" by linarith+
  then have "Suc (length a) \<in> set [1 ..< length filename - 3]" by (simp only: set_upt atLeastLessThan_iff)
  ultimately show "reverse_path filename" unfolding reverse_path_def list_ex_iff by blast
qed

lemma forbidden_dir_iff: "forbidden_dir ds f \<longleftrightarrow> ds \<noteq> [] \<and> (\<forall>d \<in> set ds. \<not> prefix d f)"
proof -
  have "take (length d) f = d \<longleftrightarrow> prefix d f" for d
    by (metis append_eq_conv_conj prefixE prefixI append_take_drop_id)
  then show ?thesis by (simp add: forbidden_dir_def list_ex_iff)
qed

lemma name_check_None:
  "name_check cfg f = None \<longleftrightarrow> secure cfg \<or>
     (prefix ''/'' f \<and> \<not> reverse_path f \<and> (dirs cfg = [] \<or> (\<exists>d \<in> set (dirs cfg). prefix d f)))"
  by (cases f) (auto simp: name_check_def forbidden_dir_iff)

lemma check_opened_ok:
  assumes "check_opened cfg rrq convert fd g = (Acc_ok f, g')"
  shows "(unixperms cfg \<or> (if rrq then st_mode fd AND S_IROTH \<noteq> 0 else st_mode fd AND S_IWOTH \<noteq> 0)) \<and> o_lock fd \<and>
    f = (if rrq then o_file fd else (o_file fd)\<lparr>fdata := [], fpos := 0\<rparr>) \<and>
    g' = g\<lparr>tsize := (if rrq then st_size fd else 0), tsize_ok := \<not> (rrq \<and> convert)\<rparr>"
  using assms by (auto simp: check_opened_def lock_file_def Let_def split: if_splits)

text \<open>
  C15. A granted request is one the policy allows. If \<open>validate_access\<close> grants a request, then
  the file was opened under the given name and is locked; it has the world read or write
  permission unless Unix permissions apply; outside secure mode the name is absolute, starts
  with one of the configured directories if there are any, and every \<open>/../\<close> in it ends the
  name; a file for writing starts out empty; the transfer size is known except for
  netascii reads. Of the parameters only the transfer size changes.
\<close>

theorem validate_access_granted:
  assumes "validate_access cfg opn rrq convert filename w m g = Inr (Acc_ok f, m', g')"
  shows "\<exists>fd. opn filename rrq (\<not> rrq \<and> cancreate cfg) = Inr fd \<and> o_lock fd \<and>
    (unixperms cfg \<or> (if rrq then st_mode fd AND S_IROTH \<noteq> 0 else st_mode fd AND S_IWOTH \<noteq> 0)) \<and>
    (\<not> secure cfg \<longrightarrow> prefix ''/'' filename \<and>
       (\<forall>a b. filename = a @ ''/../'' @ b \<longrightarrow> b = []) \<and>
       (dirs cfg \<noteq> [] \<longrightarrow> (\<exists>d \<in> set (dirs cfg). prefix d filename))) \<and>
    (rrq \<longrightarrow> f = o_file fd) \<and> (\<not> rrq \<longrightarrow> fdata f = [] \<and> fpos f = 0) \<and>
    g' = g\<lparr>tsize := (if rrq then st_size fd else 0), tsize_ok := \<not> (rrq \<and> convert)\<rparr>"
proof -
  obtain fd where nc: "name_check cfg filename = None"
    and op: "opn filename rrq (\<not> rrq \<and> cancreate cfg) = Inr fd"
    and co: "check_opened cfg rrq convert fd (g\<lparr>tsize_ok := False\<rparr>) = (Acc_ok f, g')"
    using assms by (auto simp: validate_access_def Let_def split: sum.splits option.splits prod.splits access_result.splits)
  note nc' = nc [unfolded name_check_None reverse_path_iff]
  show ?thesis using op check_opened_ok [OF co] nc' by (intro exI [of _ fd]) auto
qed

text \<open>A concrete policy and file system.\<close>

definition ex_cfg :: access_cfg where
  "ex_cfg = \<lparr>secure = False, cancreate = False, unixperms = False, dirs = [''/tftpboot'']\<rparr>"

definition ex_opened :: opened where
  "ex_opened = \<lparr>o_file = reading ''abc'', st_mode = 33188, st_size = 3, o_fstat = True, o_lock = True,
     o_trunc = True, o_fdopen = True\<rparr>"

definition ex_open :: sys_open where
  "ex_open path rrq creat = Inr ex_opened"

lemma ex_granted_any:
  "name_check ex_cfg filename = None \<Longrightarrow> length filename < 128 \<Longrightarrow>
     \<exists>m'. validate_access ex_cfg ex_open True False filename w m init_opts
        = Inr (Acc_ok (reading ''abc''), m', init_opts\<lparr>tsize := 3, tsize_ok := True\<rparr>)"
  by (simp add: validate_access_def Let_def woo_set_filename_def ex_open_def check_opened_def lock_file_def
      ex_opened_def ex_cfg_def S_IROTH_def)

lemmas ex_granted = ex_granted_any [where w = ex_woo and m = ex_shm]

theorem validate_access_granted_witness:
  "\<exists>m' g'. validate_access ex_cfg ex_open True False ''/tftpboot/abc'' ex_woo ex_shm init_opts
      = Inr (Acc_ok (reading ''abc''), m', g') \<and> tsize g' = 3 \<and> tsize_ok g'"
proof -
  have "name_check ex_cfg ''/tftpboot/abc'' = None"
    by (simp add: name_check_def ex_cfg_def reverse_path_def forbidden_dir_def upt_conv_Cons)
  then obtain m' g' where r: "validate_access ex_cfg ex_open True False ''/tftpboot/abc'' ex_woo ex_shm init_opts
      = Inr (Acc_ok (reading ''abc''), m', g')" using ex_granted [OF \<open>name_check ex_cfg ''/tftpboot/abc'' = None\<close>] by auto
  from validate_access_granted [OF r] r show ?thesis by (auto simp: ex_open_def ex_opened_def)
qed

text \<open>The file system lets the server use the file: it can be locked and has the permissions asked for.\<close>

definition openable :: "access_cfg \<Rightarrow> bool \<Rightarrow> opened \<Rightarrow> bool" where
  "openable cfg rrq fd = (o_fstat fd \<and> o_lock fd \<and> o_fdopen fd \<and>
     (if rrq then unixperms cfg \<or> st_mode fd AND S_IROTH \<noteq> 0
      else (unixperms cfg \<or> st_mode fd AND S_IWOTH \<noteq> 0) \<and> o_trunc fd))"

text \<open>
  C23. What the name checks decide, exactly, outside secure mode. Suppose the name fits the
  slot of the monitor (or there is none), and the file opens, can be locked and has the
  permissions asked for. Then the request is granted if and only if the name is absolute, has
  no \<open>/../\<close> with something behind it, and, if directories are configured, begins with the
  bytes of one of them; otherwise the answer is an access violation. So the check compares bytes
  and not path components: after a configured directory any characters are accepted, not only a
  slash; and the directory followed by \<open>/../\<close> is accepted, although it names the parent.
\<close>

theorem directory_check_exact:
  assumes "\<not> secure cfg" and "enable w = 0 \<or> length filename < FILENAME_SIZE"
    and "opn filename rrq (\<not> rrq \<and> cancreate cfg) = Inr fd" and "openable cfg rrq fd"
  shows "if prefix ''/'' filename \<and> (\<forall>a b. filename = a @ ''/../'' @ b \<longrightarrow> b = []) \<and>
            (dirs cfg = [] \<or> (\<exists>d rest. d \<in> set (dirs cfg) \<and> filename = d @ rest))
         then \<exists>f m' g'. validate_access cfg opn rrq convert filename w m g = Inr (Acc_ok f, m', g')
         else \<exists>msg m' g'. validate_access cfg opn rrq convert filename w m g
                = Inr (Acc_err EACCESS (Some msg), m', g')"
proof -
  obtain e m1 where sf: "woo_set_filename w m filename = Inr (e, m1)"
    using assms(2) by (cases "enable w = 0") (simp_all add: woo_set_filename_def not_le)
  obtain f g1 where co: "check_opened cfg rrq convert fd (g\<lparr>tsize_ok := False\<rparr>) = (Acc_ok f, g1)"
    using assms(4) by (cases rrq) (auto simp: openable_def check_opened_def lock_file_def Let_def)
  have va: "validate_access cfg opn rrq convert filename w m g =
      (case name_check cfg filename of
         Some msg \<Rightarrow> Inr (Acc_err EACCESS (Some msg), m1, g\<lparr>tsize_ok := False\<rparr>)
       | None \<Rightarrow> Inr (Acc_ok f, snd (woo_set_total_block w m1 (sint (word_of_int (tsize g1) :: u32))), g1))"
    by (cases "name_check cfg filename") (simp_all add: validate_access_def Let_def sf assms(3) co)
  have "name_check cfg filename = None \<longleftrightarrow> prefix ''/'' filename \<and> (\<forall>a b. filename = a @ ''/../'' @ b \<longrightarrow> b = []) \<and>
      (dirs cfg = [] \<or> (\<exists>d rest. d \<in> set (dirs cfg) \<and> filename = d @ rest))"
    using assms(1) by (auto simp: name_check_None reverse_path_iff prefix_def)
  then show ?thesis by (cases "name_check cfg filename") (simp_all add: va del: split_paired_Ex)
qed

text \<open>
  With \<open>/tftpboot\<close> as the only permitted directory the server opens a file of \<open>/tftpboot2\<close> and
  the parent directory, and refuses a name that goes through the parent.
\<close>

lemma ex_openable: "openable ex_cfg True ex_opened"
  by (simp add: openable_def ex_opened_def ex_cfg_def S_IROTH_def)

lemma ex_cfg_dirs [simp]: "\<not> secure ex_cfg" "dirs ex_cfg = [''/tftpboot'']"
  by (simp_all add: ex_cfg_def)

lemma no_inner_iff: "(\<forall>a b. f = a @ ''/../'' @ b \<longrightarrow> b = []) \<longleftrightarrow> \<not> reverse_path f"
  by (auto simp: reverse_path_iff)

theorem directory_check_exact_witness:
  "(\<exists>f m' g'. validate_access ex_cfg ex_open True False ''/tftpboot2/abc'' ex_woo ex_shm init_opts = Inr (Acc_ok f, m', g')) \<and>
   (\<exists>f m' g'. validate_access ex_cfg ex_open True False ''/tftpboot/../'' ex_woo ex_shm init_opts = Inr (Acc_ok f, m', g')) \<and>
   (\<exists>msg m' g'. validate_access ex_cfg ex_open True False ''/tftpboot/../x'' ex_woo ex_shm init_opts
      = Inr (Acc_err EACCESS (Some msg), m', g'))"
proof -
  have o: "ex_open n True (\<not> True \<and> cancreate ex_cfg) = Inr ex_opened" for n by (simp add: ex_open_def)
  note t = directory_check_exact [where opn = ex_open and rrq = True and cfg = ex_cfg, OF ex_cfg_dirs(1) _ o ex_openable,
      unfolded no_inner_iff]
  have "\<not> reverse_path ''/tftpboot2/abc''" "\<not> reverse_path ''/tftpboot/../''" "reverse_path ''/tftpboot/../x''"
    by (simp_all add: reverse_path_def upt_conv_Cons)
  then show ?thesis
    using t [of ex_woo "''/tftpboot2/abc''" False ex_shm init_opts] t [of ex_woo "''/tftpboot/../''" False ex_shm init_opts]
      t [of ex_woo "''/tftpboot/../x''" False ex_shm init_opts]
    by simp
qed

subsection \<open>The macros\<close>

lemma length_hex [simp]: "length (hex k n) = k"
  by (induction k arbitrary: n) simp_all

text \<open>
  The address macro \<open>\x\<close> breaks the contract of the remap engine, which first asks for
  the length without a buffer: it then returns 0. Every rewrite rule of a map file whose
  pattern contains \<open>\x\<close> and nothing else therefore writes past the string allocated for the
  result, for IPv4 clients and any match.
\<close>

lemma macro_x_overflow:
  assumes "pm_ok input pm" and "fst (pm 0) \<noteq> - 1"
  shows "gen_newstr [BSL, CHR ''x''] input pm (Some (rewrite_macros (Addr_in a) ntop)) = Inl Out_of_bounds"
proof -
  have ok: "0 \<le> fst (pm 0)" "fst (pm 0) \<le> snd (pm 0)" "snd (pm 0) \<le> int (length input)"
    using assms(1) [unfolded pm_ok_def, rule_format, of 0] assms(2) by simp_all
  obtain so eo where pm0: "pm 0 = (so, eo)" by force
  have "int (length (take (nat so) input @ map xform_null (hex 8 (unat a)) @ drop (nat eo) input))
      = so + (int (length input) - eo) + 8"
    using ok pm0 by (simp add: of_nat_diff)
  then show ?thesis
    using ok pm0 by (simp add: gen_newstr_def genmatchstring_def rewrite_macros_def Let_def isdigit_def)
qed

text \<open>The program's callback keeps its contract for every other macro.\<close>

lemma rewrite_macros_ok: "CHR ''x'' \<notin> set (escaped pat) \<Longrightarrow> macrosub_ok (Some (rewrite_macros from ntop)) pat"
  by (auto simp: macrosub_ok_def rewrite_macros_def split: option.splits)


text \<open>A map file that puts the client's address into the name.\<close>

lemma ex_map_file:
  "parserulefile (\<lambda>s icase. Some s) (''r boot '' @ BSL # ''i.img'') 0
     = Some ([\<lparr>nrule = 0, rule_flags = 1, rule_mode = NUL, rx = ''boot'', pattern = BSL # ''i.img''\<rparr>], 1)"
  by (simp add: parserulefile_def parseline_def readescstring_def isspace_def rule_flag_defs c_line_def)



end
