(* ===== verification/Session.thy ===== *)
theory Session
  imports TftpSubs Options WooData "HOL-Library.Sublist"
begin

text \<open>
  The state of one transfer in a child process of the server (static variables of
  \<open>tftpd.c\<close>), the calls that reach the network (\<open>send\<close>, \<open>nak\<close>, \<open>recv_time\<close>, \<open>timer\<close>) and
  the receive loop that the handlers of \<open>tftpd.c\<close> share: wait for a datagram, classify it,
  resend on a time-out.

  The network is explicit. \<open>send_ok E k\<close> says whether the \<open>k\<close>-th \<open>send\<close> of the process
  succeeds, and each call of \<open>recv_time\<close> consumes one script: the clock at entry and what
  every \<open>select\<close> and \<open>recv\<close> of the call answers. A handler whose scripts are used up is
  still waiting (\<open>Blocked\<close>).
\<close>

abbreviation RRQ :: u16 where "RRQ \<equiv> 1"
abbreviation WRQ :: u16 where "WRQ \<equiv> 2"
abbreviation DATA :: u16 where "DATA \<equiv> 3"
abbreviation ACK :: u16 where "ACK \<equiv> 4"
abbreviation ERROR :: u16 where "ERROR \<equiv> 5"
abbreviation OACK :: u16 where "OACK \<equiv> 6"

abbreviation EX_OSERR :: int where "EX_OSERR \<equiv> 71"

record xfer =
  xsubs :: subs
  xfile :: cfile
  fclosed :: bool
  xopts :: opts
  xack :: cbuf
  xbuf :: cbuf
  dp_opcode :: u16
  dp_block :: u16
  sent :: "char list list"
  nsend :: nat
  xwoo :: woo_data
  xshm :: wootftpd_shared_data

record net_env =
  send_ok :: "nat \<Rightarrow> bool"
  strerror :: "int \<Rightarrow> string"

text \<open>\<open>send(peer, p, len, 0) == len\<close>.\<close>

definition net_send :: "net_env \<Rightarrow> char list \<Rightarrow> xfer \<Rightarrow> bool \<times> xfer" where
  "net_send E pkt x =
     (let x1 = x\<lparr>nsend := Suc (nsend x)\<rparr>
      in if send_ok E (nsend x) then (True, x1\<lparr>sent := sent x @ [pkt]\<rparr>) else (False, x1))"

subsection \<open>Error packets\<close>

definition errmsgs :: "string list" where
  "errmsgs = [''Undefined error code'', ''File not found'', ''Access denied'',
     ''Disk full or allocation exceeded'', ''Illegal TFTP operation'', ''Unknown transfer ID'',
     ''File already exists'', ''No such user'', ''Failure to negotiate RFC2347 options'']"

text \<open>The code and the text of the packet.\<close>

definition nak_fields :: "(int \<Rightarrow> string) \<Rightarrow> int \<Rightarrow> string option \<Rightarrow> int \<times> string" where
  "nak_fields serr error msg =
     (if 100 \<le> error then (EUNDEF, case msg of None \<Rightarrow> serr (error - 100) | Some m \<Rightarrow> m)
      else let e = (if error < 0 \<or> int (length errmsgs) \<le> error then EUNDEF else error)
           in (e, case msg of None \<Rightarrow> errmsgs ! nat e | Some m \<Rightarrow> m))"

definition nak :: "net_env \<Rightarrow> int \<Rightarrow> string option \<Rightarrow> xfer \<Rightarrow> fault + xfer" where
  "nak E error msg x =
     (let (code, txt) = nak_fields (strerror E) error msg;
          length1 = length txt + 1
      in if PKTSIZE < 4 + length1 then Inl Out_of_bounds
         else let b = buf_write (buf_write (buf_write (xbuf x) 0 (be16 ERROR)) 2 (be16 (word_of_int code)))
                        4 (txt @ [NUL]);
                  x1 = x\<lparr>xbuf := b\<rparr>
              in Inr (snd (net_send E (buf_read b 0 (length1 + 4)) x1)))"

subsection \<open>Time-outs\<close>

text \<open>\<open>None\<close> is \<open>exit(0)\<close>, otherwise the jump back to the last \<open>sigsetjmp\<close>.\<close>

definition timer :: "bool \<Rightarrow> opts \<Rightarrow> opts option" where
  "timer timeout_quit g =
     (let g' = g\<lparr>timeout := push_bit 1 (timeout g)\<rparr>
      in if maxtimeout g' \<le> timeout g' \<or> timeout_quit then None else Some g')"

text \<open>
  What one round of \<open>recv_time\<close> meets. \<open>Sel_other\<close> is a positive result of \<open>select\<close> or a
  failure other than \<open>EINTR\<close>: both go on to \<open>recv\<close>. \<open>Rv_again\<close> is \<open>EWOULDBLOCK\<close> or
  \<open>EINTR\<close>; \<open>Rv_nonblock\<close> is a failure of \<open>set_socket_nonblock\<close>, which exits. The clock is
  in microseconds.
\<close>

datatype sel_result = Sel_intr | Sel_zero | Sel_other

datatype recv_result = Rv_data "char list" | Rv_again | Rv_err int | Rv_nonblock

type_synonym poll = "sel_result \<times> int \<times> recv_result"
type_synonym rcall = "int \<times> poll list"

datatype rt_result = Rt_data "char list" | Rt_timeout | Rt_error int | Rt_exit | Rt_waiting

definition time_left :: "u64 \<Rightarrow> int \<Rightarrow> int \<Rightarrow> u64" where
  "time_left timeout_us t0 t1 =
     (let dt = word_of_int (t1 - t0) in if timeout_us \<le> dt then 1 else timeout_us - dt)"

text \<open>The result and \<open>*timeout_us_p\<close> afterwards; \<open>left\<close> is its value so far.\<close>

fun recv_time_loop :: "nat \<Rightarrow> u64 \<Rightarrow> int \<Rightarrow> u64 \<Rightarrow> poll list \<Rightarrow> rt_result \<times> u64" where
  "recv_time_loop len tmo t0 left [] = (Rt_waiting, left)"
| "recv_time_loop len tmo t0 left ((sel, t1, rv) # ps) =
     (let left' = time_left tmo t0 t1
      in case sel of
           Sel_intr \<Rightarrow> recv_time_loop len tmo t0 left' ps
         | Sel_zero \<Rightarrow> (Rt_timeout, left')
         | Sel_other \<Rightarrow>
             (case rv of
                Rv_data p \<Rightarrow> (Rt_data (take len p), left')
              | Rv_again \<Rightarrow> recv_time_loop len tmo t0 left' ps
              | Rv_err e \<Rightarrow> (Rt_error e, left')
              | Rv_nonblock \<Rightarrow> (Rt_exit, left')))"

definition recv_time :: "nat \<Rightarrow> u64 \<Rightarrow> rcall \<Rightarrow> rt_result \<times> u64" where
  "recv_time len tmo c = recv_time_loop len tmo (fst c) tmo (snd c)"

subsection \<open>The receive loop of the handlers\<close>

datatype verdict = V_accept | V_again | V_resend | V_abort

datatype wait_result = W_ok int | W_abort | W_exit int | W_blocked

text \<open>
  \<open>for (;;) { n = recv_time(...); ... }\<close> with the \<open>sigsetjmp\<close> point and the label before
  it. \<open>resend\<close> is the code from there to the loop (\<open>False\<close>: the \<open>send\<close> failed, abort);
  \<open>classify\<close> is the loop's body: it stores the datagram and says how to go on.
\<close>

fun wait_loop ::
  "(xfer \<Rightarrow> bool \<times> xfer) \<Rightarrow> (char list \<Rightarrow> xfer \<Rightarrow> verdict \<times> xfer) \<Rightarrow> u64 \<Rightarrow> rcall list \<Rightarrow> xfer
     \<Rightarrow> wait_result \<times> rcall list \<times> xfer" where
  "wait_loop resend classify rt [] x = (W_blocked, [], x)"
| "wait_loop resend classify rt (c # cs) x =
     (case recv_time PKTSIZE rt c of
        (Rt_waiting, rt') \<Rightarrow> (W_blocked, cs, x)
      | (Rt_exit, rt') \<Rightarrow> (W_exit EX_OSERR, cs, x)
      | (Rt_error e, rt') \<Rightarrow> (W_abort, cs, x)
      | (Rt_timeout, rt') \<Rightarrow>
          (case timer False (xopts x) of
             None \<Rightarrow> (W_exit 0, cs, x)
           | Some g \<Rightarrow>
               (case resend (x\<lparr>xopts := g\<rparr>) of
                  (False, x1) \<Rightarrow> (W_abort, cs, x1)
                | (True, x1) \<Rightarrow> wait_loop resend classify (timeout (xopts x1)) cs x1))
      | (Rt_data p, rt') \<Rightarrow>
          (case classify p x of
             (V_accept, x1) \<Rightarrow> (W_ok (int (length p)), cs, x1)
           | (V_abort, x1) \<Rightarrow> (W_abort, cs, x1)
           | (V_again, x1) \<Rightarrow> wait_loop resend classify rt' cs x1
           | (V_resend, x1) \<Rightarrow>
               (case resend x1 of
                  (False, x2) \<Rightarrow> (W_abort, cs, x2)
                | (True, x2) \<Rightarrow> wait_loop resend classify (timeout (xopts x2)) cs x2)))"

text \<open>Entering the loop through the label.\<close>

definition send_wait ::
  "(xfer \<Rightarrow> bool \<times> xfer) \<Rightarrow> (char list \<Rightarrow> xfer \<Rightarrow> verdict \<times> xfer) \<Rightarrow> rcall list \<Rightarrow> xfer
     \<Rightarrow> wait_result \<times> rcall list \<times> xfer" where
  "send_wait resend classify cs x =
     (case resend x of
        (False, x1) \<Rightarrow> (W_abort, cs, x1)
      | (True, x1) \<Rightarrow> wait_loop resend classify (timeout (xopts x1)) cs x1)"

text \<open>How a handler ends.\<close>

datatype outcome = Finished | Aborted | Exited int | Blocked | Faulted fault


subsection \<open>Laws of the network calls\<close>

lemma net_send_cases:
  "net_send E pkt x = (True, x\<lparr>nsend := Suc (nsend x), sent := sent x @ [pkt]\<rparr>) \<or>
   net_send E pkt x = (False, x\<lparr>nsend := Suc (nsend x)\<rparr>)"
  by (simp add: net_send_def Let_def)

lemma net_send_ok:
  "\<forall>k. send_ok E k \<Longrightarrow> net_send E pkt x = (True, x\<lparr>nsend := Suc (nsend x), sent := sent x @ [pkt]\<rparr>)"
  by (simp add: net_send_def Let_def)

text \<open>The wait left to the caller is never zero and never longer than the one asked for.\<close>

lemma time_left_bounds:
  assumes "1 \<le> tmo"
  shows "1 \<le> time_left tmo t0 t1 \<and> time_left tmo t0 t1 \<le> tmo"
proof (cases "tmo \<le> word_of_int (t1 - t0)")
  case True
  with assms show ?thesis by (simp add: time_left_def)
next
  case False
  define dt :: u64 where "dt = word_of_int (t1 - t0)"
  with False have lt: "unat dt < unat tmo" by (simp add: word_less_nat_alt [symmetric] not_le)
  have "unat (tmo - dt) = unat tmo - unat dt"
    using lt by (simp add: unat_sub word_le_nat_alt)
  moreover have "time_left tmo t0 t1 = tmo - dt" using False by (simp add: time_left_def dt_def Let_def)
  ultimately show ?thesis using lt by (simp add: word_le_nat_alt)
qed

lemma recv_time_loop_bounds:
  "1 \<le> tmo \<Longrightarrow> 1 \<le> left \<Longrightarrow> left \<le> tmo \<Longrightarrow>
     1 \<le> snd (recv_time_loop len tmo t0 left ps) \<and> snd (recv_time_loop len tmo t0 left ps) \<le> tmo"
proof (induction len tmo t0 left ps rule: recv_time_loop.induct)
  case (1 len tmo t0 left)
  then show ?case by simp
next
  case (2 len tmo t0 left sel t1 rv ps)
  note b = time_left_bounds [OF "2.prems"(1), of t0 t1]
  show ?case
  proof (cases sel)
    case Sel_intr
    then show ?thesis using 2 b by (simp add: Let_def)
  next
    case Sel_zero
    then show ?thesis using b by (simp add: Let_def)
  next
    case Sel_other
    then show ?thesis using 2 b by (cases rv) (simp_all add: Let_def)
  qed
qed

text \<open>
  C19. The time budget of \<open>recv_time\<close>: whatever the clock does, even if it is set back during
  the wait, the remaining time handed back to the caller is at least one microsecond and at
  most what it asked for.
\<close>

theorem recv_time_budget:
  assumes "1 \<le> tmo"
  shows "1 \<le> snd (recv_time len tmo c) \<and> snd (recv_time len tmo c) \<le> tmo"
  unfolding recv_time_def using recv_time_loop_bounds [OF assms] assms by simp

theorem recv_time_budget_witness:
  "snd (recv_time 8 1000 (500, [(Sel_intr, 200, Rv_again), (Sel_zero, 1600, Rv_again)])) \<le> 1000"
  using recv_time_budget [of 1000 8 "(500, [(Sel_intr, 200, Rv_again), (Sel_zero, 1600, Rv_again)])"]
  by simp

text \<open>The header fields of a stored datagram.\<close>

lemma get16_header [simp]:
  "get16 (buf_write m 0 (be16 a @ be16 b @ d)) 0 = a"
  "get16 (buf_write m 0 (be16 a @ be16 b @ d)) 2 = b"
proof -
  have n: "buf_write m 0 (be16 a @ be16 b @ d) i = (be16 a @ be16 b) ! i" if "i < 4" for i
    using that by (auto simp: buf_write_def nth_append)
  show "get16 (buf_write m 0 (be16 a @ be16 b @ d)) 0 = a"
    using n [of 0] n [of 1] be16_join [of a] by (simp add: get16_def nth_append)
  show "get16 (buf_write m 0 (be16 a @ be16 b @ d)) 2 = b"
    using n [of 2] n [of 3] be16_join [of b] by (simp add: get16_def nth_append)
qed

lemma get16_header4 [simp]:
  "get16 (buf_write m 0 (be16 a @ be16 b)) 0 = a" "get16 (buf_write m 0 (be16 a @ be16 b)) 2 = b"
  using get16_header [of m a b "[]"] by simp_all

text \<open>A call of \<open>recv_time\<close> that gets the datagram \<open>p\<close> at once, and one that times out.\<close>

definition deliver :: "char list \<Rightarrow> rcall" where
  "deliver p = (0, [(Sel_other, 0, Rv_data p)])"

definition silence :: rcall where
  "silence = (0, [(Sel_zero, 0, Rv_again)])"

lemma recv_time_deliver:
  "length p \<le> len \<Longrightarrow> recv_time len rt (deliver p) = (Rt_data p, time_left rt 0 0)"
  by (simp add: recv_time_def deliver_def Let_def)

lemma recv_time_silence: "recv_time len rt silence = (Rt_timeout, time_left rt 0 0)"
  by (simp add: recv_time_def silence_def Let_def)

text \<open>The datagrams that the scripts can deliver, in order.\<close>

definition poll_data :: "poll \<Rightarrow> char list list" where
  "poll_data p = (case p of (_, _, Rv_data d) \<Rightarrow> [take PKTSIZE d] | _ \<Rightarrow> [])"

definition datagrams :: "rcall list \<Rightarrow> char list list" where
  "datagrams cs = concat (map (\<lambda>c. concat (map poll_data (snd c))) cs)"

lemma datagrams_simps [simp]:
  "datagrams [] = []"
  "datagrams (c # cs) = concat (map poll_data (snd c)) @ datagrams cs"
  by (simp_all add: datagrams_def)

lemma recv_time_loop_data:
  "recv_time_loop PKTSIZE tmo t0 left ps = (Rt_data p, r) \<Longrightarrow> p \<in> set (concat (map poll_data ps))"
  by (induction PKTSIZE tmo t0 left ps rule: recv_time_loop.induct)
    (auto simp: Let_def poll_data_def split: sel_result.splits recv_result.splits)

lemma recv_time_data:
  assumes "recv_time PKTSIZE rt c = (Rt_data p, rt')"
  shows "subseq (p # datagrams cs) (datagrams (c # cs))" and "p \<in> set (datagrams (c # cs))"
proof -
  have "p \<in> set (concat (map poll_data (snd c)))"
    using assms recv_time_loop_data unfolding recv_time_def by blast
  moreover from this have "subseq [p] (concat (map poll_data (snd c)))"
    by (simp only: subseq_singleton_left)
  then have "subseq ([p] @ datagrams cs) (concat (map poll_data (snd c)) @ datagrams cs)"
    by (intro list_emb_append_mono) simp_all
  ultimately show "subseq (p # datagrams cs) (datagrams (c # cs))" and "p \<in> set (datagrams (c # cs))"
    by simp_all
qed

subsection \<open>The contract between a handler and the receive loop\<close>

lemma timer_Some: "timer q g = Some g' \<Longrightarrow> g' = g\<lparr>timeout := push_bit 1 (timeout g)\<rparr>"
  by (auto simp: timer_def Let_def split: if_splits)

text \<open>
  An exchange keeps a property \<open>I\<close> of the state: the resend code does, storing and
  classifying a datagram that satisfies \<open>Q\<close> does, and a changed time-out does not matter.
\<close>

locale exchange =
  fixes resend :: "xfer \<Rightarrow> bool \<times> xfer"
    and classify :: "char list \<Rightarrow> xfer \<Rightarrow> verdict \<times> xfer"
    and I :: "xfer \<Rightarrow> bool"
    and Q :: "char list \<Rightarrow> bool"
  assumes resend_I: "I x \<Longrightarrow> I (snd (resend x))"
    and classify_I: "I x \<Longrightarrow> Q p \<Longrightarrow> I (snd (classify p x))"
    and timeout_I: "I x \<Longrightarrow> I (x\<lparr>xopts := (xopts x)\<lparr>timeout := t\<rparr>\<rparr>)"
begin

lemma timer_I: "I x \<Longrightarrow> timer q (xopts x) = Some g \<Longrightarrow> I (x\<lparr>xopts := g\<rparr>)"
  using timer_Some timeout_I by blast

text \<open>
  The loop keeps \<open>I\<close>; the datagrams left are a subsequence of those given; and it ends well
  only on a datagram that \<open>classify\<close> accepted in a state with \<open>I\<close>.
\<close>

lemma wait_loop_I:
  assumes "wait_loop resend classify rt cs x = (r, cs', x')" and "I x"
    and "\<forall>p \<in> set (datagrams cs). Q p"
  shows "I x' \<and> subseq (datagrams cs') (datagrams cs) \<and>
         (\<forall>n. r = W_ok n \<longrightarrow> (\<exists>p y. I y \<and> classify p y = (V_accept, x') \<and> n = int (length p) \<and>
                subseq (p # datagrams cs') (datagrams cs)))"
  using assms
proof (induction cs arbitrary: rt x)
  case Nil
  then show ?case by simp
next
  case (Cons c cs)
  obtain res rt' where rc: "recv_time PKTSIZE rt c = (res, rt')" by force
  have Qcs: "\<forall>p \<in> set (datagrams cs). Q p" using Cons.prems(3) by simp
  have sub: "subseq (datagrams cs) (datagrams (c # cs))" by (auto intro: list_emb_append2)
  have go: ?case if "wait_loop resend classify rt2 cs y = (r, cs', x')" and "I y" for rt2 y
    using Cons.IH [OF that Qcs] subseq_order.trans [OF _ sub] by fast
  show ?case
  proof (cases res)
    case (Rt_data p)
    note pd = recv_time_data [OF rc [unfolded Rt_data], of cs]
    obtain v x1 where cl: "classify p x = (v, x1)" by force
    have I1: "I x1" using classify_I [OF Cons.prems(2), of p] cl Cons.prems(3) pd(2) by auto
    obtain b x2 where rs: "resend x1 = (b, x2)" by force
    have I2: "I x2" using resend_I [OF I1] rs by simp
    show ?thesis
    proof (cases v)
      case V_accept
      then have "r = W_ok (int (length p))" "cs' = cs" "x' = x1"
        using Cons.prems(1) rc Rt_data cl by auto
      then show ?thesis using I1 sub pd(1) Cons.prems(2) cl V_accept by blast
    next
      case V_abort
      then show ?thesis using Cons.prems(1) rc Rt_data cl I1 sub by auto
    next
      case V_again
      then have "wait_loop resend classify rt' cs x1 = (r, cs', x')"
        using Cons.prems(1) rc Rt_data cl by simp
      then show ?thesis using I1 by (rule go)
    next
      case V_resend
      then have "b \<and> wait_loop resend classify (timeout (xopts x2)) cs x2 = (r, cs', x') \<or>
                 (r, cs', x') = (W_abort, cs, x2)"
        using Cons.prems(1) rc Rt_data cl rs by (cases b) simp_all
      then show ?thesis using go [OF _ I2] I2 sub by auto
    qed
  next
    case Rt_timeout
    show ?thesis
    proof (cases "timer False (xopts x)")
      case None
      then show ?thesis using Cons.prems(1,2) rc Rt_timeout sub by auto
    next
      case (Some g)
      obtain b x1 where rs: "resend (x\<lparr>xopts := g\<rparr>) = (b, x1)" by force
      have I1: "I x1" using resend_I [OF timer_I [OF Cons.prems(2) Some]] rs by simp
      have "b \<and> wait_loop resend classify (timeout (xopts x1)) cs x1 = (r, cs', x') \<or>
            (r, cs', x') = (W_abort, cs, x1)"
        using Cons.prems(1) rc Rt_timeout Some rs by (cases b) simp_all
      then show ?thesis using go [OF _ I1] I1 sub by auto
    qed
  qed (use Cons.prems(1,2) rc sub in auto)
qed

lemma send_wait_I:
  assumes "send_wait resend classify cs x = (r, cs', x')" and "I x"
    and "\<forall>p \<in> set (datagrams cs). Q p"
  shows "I x' \<and> subseq (datagrams cs') (datagrams cs) \<and>
         (\<forall>n. r = W_ok n \<longrightarrow> (\<exists>p y. I y \<and> classify p y = (V_accept, x') \<and> n = int (length p) \<and>
                subseq (p # datagrams cs') (datagrams cs)))"
proof -
  obtain b x1 where rs: "resend x = (b, x1)" by force
  have "I x1" using resend_I [OF assms(2)] rs by simp
  then show ?thesis using assms rs wait_loop_I by (cases b) (auto simp: send_wait_def)
qed

end

text \<open>Each successful wait uses up a script, so the handlers' loops end.\<close>

lemma wait_loop_shrinks:
  "wait_loop resend classify rt cs x = (W_ok n, cs', x') \<Longrightarrow> length cs' < length cs"
proof (induction cs arbitrary: rt x)
  case Nil
  then show ?case by simp
next
  case (Cons c cs)
  then show ?case
    by (auto split: prod.splits rt_result.splits verdict.splits option.splits bool.splits
             dest!: Cons.IH)
qed

lemma send_wait_shrinks:
  "send_wait resend classify cs x = (W_ok n, cs', x') \<Longrightarrow> length cs' < length cs"
  by (auto simp: send_wait_def split: prod.splits bool.splits dest!: wait_loop_shrinks)

subsection \<open>The monitor slot of the process\<close>

definition slot_flags :: "xfer \<Rightarrow> u8" where
  "slot_flags x = oflags (my_slot (xwoo x) (xshm x))"

definition slot_ok :: "xfer \<Rightarrow> bool" where
  "slot_ok x = (enable (xwoo x) \<noteq> 0 \<and> nat (opid (xwoo x)) < length (operations (xshm x)))"

text \<open>Network calls leave the monitor alone.\<close>

definition woo_I :: "woo_data \<Rightarrow> wootftpd_shared_data \<Rightarrow> xfer \<Rightarrow> bool" where
  "woo_I w m x = (xwoo x = w \<and> xshm x = m)"

lemma woo_I_net_send: "woo_I w m x \<Longrightarrow> woo_I w m (snd (net_send E p x))"
  by (simp add: woo_I_def net_send_def Let_def)

lemma nak_woo: "nak E e msg x = Inr x' \<Longrightarrow> xwoo x' = xwoo x \<and> xshm x' = xshm x"
  using woo_I_net_send by (auto simp: nak_def Let_def woo_I_def net_send_def split: prod.splits if_splits)

lemma length_upd_slot [simp]: "length (operations (upd_slot w g m)) = length (operations m)"
  by (simp add: upd_slot_def)

lemma my_slot_upd: "nat (opid w) < length (operations m) \<Longrightarrow> my_slot w (upd_slot w g m) = g (my_slot w m)"
  by (simp add: my_slot_def upd_slot_def)

lemma my_slot_upd_flags:
  "(\<And>p. oflags (g p) = oflags p) \<Longrightarrow> oflags (my_slot w (upd_slot w g m)) = oflags (my_slot w m)"
  by (cases "nat (opid w) < length (operations m)")
    (simp_all add: my_slot_def upd_slot_def list_update_beyond not_less)

text \<open>\<open>if (!++block) block = rollover_val;\<close>\<close>

definition next_block :: "u16 \<Rightarrow> u16 \<Rightarrow> u16" where
  "next_block rollover block = (if block + 1 = 0 then rollover else block + 1)"

definition count_block :: "int \<Rightarrow> xfer \<Rightarrow> xfer" where
  "count_block sz x = x\<lparr>xshm := snd (woo_increment_block (xwoo x) (xshm x) sz)\<rparr>"

lemma count_block_slot:
  "xwoo (count_block sz x) = xwoo x" "slot_flags (count_block sz x) = slot_flags x"
  "slot_ok (count_block sz x) = slot_ok x"
  by (simp_all add: count_block_def slot_flags_def slot_ok_def woo_increment_block_def my_slot_upd_flags)

subsection \<open>Backing off\<close>

text \<open>After \<open>j\<close> time-outs the wait is \<open>rexmtval * 2 ^ j\<close>; the sixth one ends the process.\<close>

definition backoff :: "nat \<Rightarrow> opts \<Rightarrow> bool" where
  "backoff j g = (10000 \<le> unat (rexmtval g) \<and> unat (rexmtval g) \<le> 255000000 \<and>
     unat (maxtimeout g) = 63 * unat (rexmtval g) \<and> unat (timeout g) = unat (rexmtval g) * 2 ^ j)"

lemma opts_inv_backoff: "opts_inv g \<Longrightarrow> backoff 0 g"
  by (simp add: opts_inv_def backoff_def)

lemma backoff_reset: "backoff j g \<Longrightarrow> backoff 0 (g\<lparr>timeout := rexmtval g\<rparr>)"
  by (simp add: backoff_def)

lemma timer_backoff:
  assumes b: "backoff j g" and j: "j \<le> 5"
  shows "timer False g = (if j = 5 then None else Some (g\<lparr>timeout := push_bit 1 (timeout g)\<rparr>))"
    and "j < 5 \<Longrightarrow> backoff (Suc j) (g\<lparr>timeout := push_bit 1 (timeout g)\<rparr>)"
proof -
  define t where "t = unat (rexmtval g)"
  have t: "10000 \<le> t" "t \<le> 255000000" "unat (maxtimeout g) = 63 * t" "unat (timeout g) = t * 2 ^ j"
    using b by (simp_all add: backoff_def t_def)
  have "t * 2 ^ j \<le> 255000000 * 2 ^ 5" using t(2) j by (intro mult_mono power_increasing) simp_all
  then have "unat (push_bit 1 (timeout g)) = 2 * (t * 2 ^ j)"
    using t(4) by (simp add: push_bit_eq_mult unat_word_ariths)
  then have d: "unat (push_bit 1 (timeout g)) = t * 2 ^ Suc j" by simp
  have "63 * t \<le> t * 2 ^ Suc j \<longleftrightarrow> j = 5"
  proof
    assume "63 * t \<le> t * 2 ^ Suc j"
    then have "63 \<le> (2 :: nat) ^ Suc j" using t(1) by (simp add: mult.commute)
    moreover have "(2 :: nat) ^ Suc j \<le> 2 ^ 5" if "j < 5" using that by (intro power_increasing) simp_all
    ultimately show "j = 5" using j by (cases "j < 5") simp_all
  qed simp
  then have "maxtimeout g \<le> push_bit 1 (timeout g) \<longleftrightarrow> j = 5"
    by (simp only: word_le_nat_alt d t(3))
  then show "timer False g = (if j = 5 then None else Some (g\<lparr>timeout := push_bit 1 (timeout g)\<rparr>))"
    by (auto simp: timer_def Let_def)
  show "j < 5 \<Longrightarrow> backoff (Suc j) (g\<lparr>timeout := push_bit 1 (timeout g)\<rparr>)"
    using b d by (simp add: backoff_def t_def)
qed

subsection \<open>Concrete states\<close>

definition ex_net :: net_env where
  "ex_net = \<lparr>send_ok = \<lambda>_. True, strerror = \<lambda>_. ''I/O error''\<rparr>"

definition ex_subs :: subs where
  "ex_subs = \<lparr>bfs = \<lambda>_. \<lparr>counter = 0, bbuf = \<lambda>_. NUL\<rparr>, nextone = False, current = False,
     newline = False, prevchar = - 1, errno = 0\<rparr>"

definition ex_xfer :: "cfile \<Rightarrow> xfer" where
  "ex_xfer f = \<lparr>xsubs = ex_subs, xfile = f, fclosed = False, xopts = init_opts, xack = \<lambda>_. NUL,
     xbuf = \<lambda>_. NUL, dp_opcode = 0, dp_block = 0, sent = [], nsend = 0, xwoo = ex_woo, xshm = ex_shm\<rparr>"

lemma ex_xfer_simps [simp]:
  "send_ok ex_net k" "xfile (ex_xfer f) = f" "xopts (ex_xfer f) = init_opts" "sent (ex_xfer f) = []"
  "segsize init_opts = 512" "rollover_val init_opts = 0" "slot_ok (ex_xfer f)"
  by (simp_all add: ex_net_def ex_xfer_def init_opts_def slot_ok_def ex_woo_def ex_shm_def)

subsection \<open>What an error packet looks like\<close>

lemma nak_fields_code:
  "nak_fields serr error msg = (code, txt) \<Longrightarrow> 0 \<le> code \<and> code \<le> 8 \<and> (0 \<le> error \<and> error \<le> 8 \<longrightarrow> code = error)"
  by (auto simp: nak_fields_def errmsgs_def Let_def split: if_splits)

lemma buf_read_two_writes:
  "length h = 4 \<Longrightarrow> buf_read (buf_write (buf_write m 0 h) 4 xs) 0 (length xs + 4) = h @ xs"
  using buf_read_append [of "buf_write (buf_write m 0 h) 4 xs" 0 4 "length xs"]
  by (simp add: buf_read_write_disjoint add.commute)

lemma buf_write_be16s: "buf_write (buf_write m 0 (be16 a)) 2 (be16 b) = buf_write m 0 (be16 a @ be16 b)"
  by (rule ext) (auto simp: buf_write_def nth_append)

text \<open>
  C22. Error packets: the code on the wire is one of the nine of the protocol, and the given
  code when that is one of them (a Unix error, offset by 100, becomes code 0). A message of
  at most 65463 bytes is sent as the packet opcode 5, code, text, NUL; a longer one
  overruns the packet buffer.
\<close>

theorem nak_packet:
  assumes "\<forall>k. send_ok E k" and "nak_fields (strerror E) error msg = (code, txt)"
  shows "0 \<le> code \<and> code \<le> 8 \<and> (0 \<le> error \<and> error \<le> 8 \<longrightarrow> code = error) \<and>
    (if 65463 < length txt then nak E error msg x = Inl Out_of_bounds
     else \<exists>x'. nak E error msg x = Inr x' \<and>
            sent x' = sent x @ [be16 ERROR @ be16 (word_of_int code) @ txt @ [NUL]])"
proof (cases "65463 < length txt")
  case True
  then show ?thesis using nak_fields_code [OF assms(2)] assms(2) by (simp add: nak_def)
next
  case False
  have "buf_read (buf_write (buf_write (xbuf x) 0 (be16 ERROR @ be16 (word_of_int code))) 4 (txt @ [NUL])) 0
      (length txt + 1 + 4) = (be16 ERROR @ be16 (word_of_int code)) @ txt @ [NUL]"
    using buf_read_two_writes [of "be16 ERROR @ be16 (word_of_int code)" "xbuf x" "txt @ [NUL]"] by simp
  then show ?thesis using False nak_fields_code [OF assms(2)] assms(2)
    by (simp add: nak_def Let_def buf_write_be16s net_send_ok [OF assms(1)])
qed

theorem nak_packet_witness:
  "\<exists>x'. nak ex_net 2 None (ex_xfer writing) = Inr x' \<and>
     sent x' = [be16 ERROR @ be16 2 @ ''Access denied'' @ [NUL]]"
proof -
  have "nak_fields (strerror ex_net) 2 None = (2, ''Access denied'')"
    by (simp add: nak_fields_def errmsgs_def)
  from nak_packet [OF _ this, of "ex_xfer writing"] show ?thesis by simp
qed

end
