(* ===== verification/SendFile.thy ===== *)
theory SendFile
  imports Session
begin

text \<open>
  The handler of read requests (\<open>tftp_sendfile\<close>): the exchange of the option
  acknowledgement, then the loop that sends each block and waits for its acknowledgement.
\<close>

subsection \<open>The option acknowledgement\<close>

text \<open>\<open>oap\<close> points to \<open>ackbuf\<close>, into which the answers are received as well.\<close>

definition send_oack :: "net_env \<Rightarrow> nat \<Rightarrow> xfer \<Rightarrow> bool \<times> xfer" where
  "send_oack E oacklen x = net_send E (buf_read (xack x) 0 oacklen) x"

definition classify_oack :: "char list \<Rightarrow> xfer \<Rightarrow> verdict \<times> xfer" where
  "classify_oack p x =
     (let b = buf_write (xack x) 0 p;
          x1 = x\<lparr>xack := b\<rparr>;
          ap_opcode = get16 b 0;
          ap_block = get16 b 2
      in if ap_opcode = ERROR then (V_abort, x1)
         else if ap_opcode = ACK then (if ap_block = 0 then V_accept else V_resend, x1)
         else (V_again, x1))"

subsection \<open>The data blocks\<close>

definition send_data :: "net_env \<Rightarrow> bool \<Rightarrow> int \<Rightarrow> xfer \<Rightarrow> bool \<times> xfer" where
  "send_data E convert sz x =
     (case net_send E (buf_read (cur_buf (xsubs x)) 0 (nat (sz + 4))) x of
        (False, x1) \<Rightarrow> (False, x1)
      | (True, x1) \<Rightarrow>
          (let (st, f) = read_ahead (segsize (xopts x1)) convert (xsubs x1) (xfile x1)
           in (True, x1\<lparr>xsubs := st, xfile := f\<rparr>)))"

definition classify_ack :: "u16 \<Rightarrow> char list \<Rightarrow> xfer \<Rightarrow> verdict \<times> xfer" where
  "classify_ack block p x =
     (let b = buf_write (xack x) 0 p;
          x1 = x\<lparr>xack := b\<rparr>;
          ap_opcode = get16 b 0;
          ap_block = get16 b 2
      in if ap_opcode = ERROR then (V_abort, x1)
         else if ap_opcode = ACK \<and> ap_block = block then (V_accept, x1)
         else (V_again, x1))"

text \<open>The part of the loop's body before \<open>sigsetjmp\<close>: \<open>readit\<close>, then the header.\<close>

definition load_block :: "bool \<Rightarrow> xfer \<Rightarrow> int \<times> xfer" where
  "load_block convert x =
     (let (sz, st, f) = readit (segsize (xopts x)) convert (xsubs x) (xfile x)
      in (sz, x\<lparr>xsubs := st, xfile := f\<rparr>))"

definition put_header :: "u16 \<Rightarrow> xfer \<Rightarrow> xfer" where
  "put_header block x =
     x\<lparr>xsubs := cur_write 0 (be16 DATA @ be16 block) (xsubs x),
       xopts := (xopts x)\<lparr>timeout := rexmtval (xopts x)\<rparr>\<rparr>"

function send_loop :: "net_env \<Rightarrow> bool \<Rightarrow> rcall list \<Rightarrow> xfer \<Rightarrow> u16 \<Rightarrow> outcome \<times> xfer" where
  "send_loop E convert cs x block =
     (case load_block convert x of
        (sz, x1) \<Rightarrow>
          if sz < 0 then
            (case nak E (errno (xsubs x1) + 100) None x1 of
               Inl e \<Rightarrow> (Faulted e, x1)
             | Inr x2 \<Rightarrow> (Aborted, x2))
          else
            (case send_wait (send_data E convert sz) (classify_ack block) cs (put_header block x1) of
               (W_abort, cs', x2) \<Rightarrow> (Aborted, x2)
             | (W_exit s, cs', x2) \<Rightarrow> (Exited s, x2)
             | (W_blocked, cs', x2) \<Rightarrow> (Blocked, x2)
             | (W_ok n, cs', x2) \<Rightarrow>
                 (let x3 = count_block sz x2
                  in if sz = segsize (xopts x3)
                     then send_loop E convert cs' x3 (next_block (rollover_val (xopts x3)) block)
                     else (Finished, x3))))"
  by pat_completeness auto
termination
proof (relation "measure (\<lambda>(E, convert, cs, x, block). length cs)", goal_cases)
  case (2 E convert cs x block sz x1 r rest n cs' x2 x3)
  from 2(3-5) have "length cs' < length cs" by (metis send_wait_shrinks)
  then show ?case by simp
qed simp

declare send_loop.simps [simp del]

text \<open>The code at the label \<open>abort\<close>, reached at the end of the loop as well.\<close>

definition end_send :: "outcome \<times> xfer \<Rightarrow> outcome \<times> xfer" where
  "end_send = (\<lambda>(r, x).
     if r = Finished \<or> r = Aborted
     then (r, x\<lparr>fclosed := True, xshm := snd (woo_end_operation (xwoo x) (xshm x))\<rparr>)
     else (r, x))"

text \<open>\<open>oap\<close> is \<open>Some oacklen\<close> if there are options to acknowledge. \<open>block\<close> starts at 1.\<close>

definition tftp_sendfile :: "net_env \<Rightarrow> bool \<Rightarrow> nat option \<Rightarrow> rcall list \<Rightarrow> xfer \<Rightarrow> outcome \<times> xfer" where
  "tftp_sendfile E convert oap cs x0 =
     (let x = x0\<lparr>xshm := snd (woo_set_flag_upload (xwoo x0) (xshm x0))\<rparr>;
          rest = (\<lambda>cs x. send_loop E convert cs (x\<lparr>xsubs := r_init (xsubs x)\<rparr>) 1)
      in end_send
           (case oap of
              None \<Rightarrow> rest cs x
            | Some oacklen \<Rightarrow>
                (case send_wait (send_oack E oacklen) classify_oack cs
                        (x\<lparr>xopts := (xopts x)\<lparr>timeout := rexmtval (xopts x)\<rparr>\<rparr>) of
                   (W_ok n, cs', x1) \<Rightarrow> rest cs' x1
                 | (W_abort, cs', x1) \<Rightarrow> (Aborted, x1)
                 | (W_exit s, cs', x1) \<Rightarrow> (Exited s, x1)
                 | (W_blocked, cs', x1) \<Rightarrow> (Blocked, x1))))"


subsection \<open>What has to be sent\<close>

function chunks :: "nat \<Rightarrow> 'a list \<Rightarrow> 'a list list" where
  "chunks n xs = (if n = 0 \<or> length xs < n then [xs] else take n xs # chunks n (drop n xs))"
  by pat_completeness auto
termination
  by (relation "measure (\<lambda>(n, xs). length xs)") auto

declare chunks.simps [simp del]

lemma concat_chunks [simp]: "concat (chunks n xs) = xs"
  by (induction n xs rule: chunks.induct) (subst chunks.simps, auto)

lemma chunks_short: "length xs < n \<Longrightarrow> chunks n xs = [xs]"
  by (subst chunks.simps) simp

lemma chunks_full: "0 < n \<Longrightarrow> n \<le> length xs \<Longrightarrow> chunks n xs = take n xs # chunks n (drop n xs)"
  by (subst chunks.simps) simp

definition data_packet :: "u16 \<Rightarrow> char list \<Rightarrow> char list" where
  "data_packet block d = be16 DATA @ be16 block @ d"

fun data_packets :: "u16 \<Rightarrow> u16 \<Rightarrow> char list list \<Rightarrow> char list list" where
  "data_packets ro block [] = []"
| "data_packets ro block (d # ds) = data_packet block d # data_packets ro (next_block ro block) ds"

lemma length_data_packet [simp]: "length (data_packet block d) = length d + 4"
  by (simp add: data_packet_def)

subsection \<open>The exchange of one block\<close>

text \<open>
  While block \<open>pkt\<close> is exchanged the buffer in use holds it, the rest of the file is
  untouched, and only copies of \<open>pkt\<close>, at least \<open>k0\<close> of them, have been sent.
\<close>

definition data_I :: "nat \<Rightarrow> bool \<Rightarrow> u16 \<Rightarrow> char list \<Rightarrow> char list \<Rightarrow> char list list \<Rightarrow> nat \<Rightarrow> xfer \<Rightarrow> bool" where
  "data_I n convert ro pkt pend s0 k0 x =
     (src_inv n convert (xsubs x, xfile x) \<and> src_pending convert (xsubs x, xfile x) = pend \<and>
      buf_read (cur_buf (xsubs x)) 0 (length pkt) = pkt \<and> segsize (xopts x) = int n \<and>
      rollover_val (xopts x) = ro \<and> (\<exists>k \<ge> k0. sent x = s0 @ replicate k pkt))"

lemma read_ahead_cur_buf:
  assumes "src_inv n convert (st, f)" and "read_ahead (int n) convert st f = (st', f')"
  shows "cur_buf st' = cur_buf st"
proof (cases "counter (bfs st (nextone st)) = BF_FREE")
  case True
  moreover have "counter (bfs st (current st)) \<noteq> BF_FREE" using assms(1) by (simp add: src_inv_def)
  ultimately have "nextone st \<noteq> current st" by (cases "current st"; cases "nextone st") simp_all
  moreover obtain b where "bfs st' = (bfs st)(nextone st := b)" "current st' = current st"
    using read_ahead_fills [OF True _ assms(2)] assms(1) by (auto simp: src_inv_def)
  ultimately show ?thesis by (simp add: cur_buf_def)
next
  case False
  then show ?thesis using assms(2) by (simp add: read_ahead_nop)
qed

lemma replicate_snoc: "replicate k a @ [a] = replicate (Suc k) a"
  by (simp add: replicate_append_same)

lemma send_data_I:
  assumes I: "data_I n convert ro pkt pend s0 k0 x" and l: "int (length pkt) = sz + 4"
  shows "data_I n convert ro pkt pend s0 k0 (snd (send_data E convert sz x)) \<and>
         (fst (send_data E convert sz x) \<longrightarrow>
            data_I n convert ro pkt pend s0 (Suc k0) (snd (send_data E convert sz x)))"
proof -
  have sz: "nat (sz + 4) = length pkt" using l by simp
  obtain k where k: "k \<ge> k0" "sent x = s0 @ replicate k pkt" using I by (auto simp: data_I_def)
  obtain st f where ra: "read_ahead (int n) convert (xsubs x) (xfile x) = (st, f)" by force
  have inv: "src_inv n convert (xsubs x, xfile x)" using I by (simp add: data_I_def)
  note laws = read_ahead_laws [OF inv ra] read_ahead_cur_buf [OF inv ra]
  have s: "sent x @ [pkt] = s0 @ replicate (Suc k) pkt" "Suc k \<ge> Suc k0" "Suc k \<ge> k0"
    using k by (simp_all add: replicate_snoc)
  show ?thesis
  proof (cases "fst (net_send E pkt x)")
    case True
    then have "send_data E convert sz x =
        (True, x\<lparr>nsend := Suc (nsend x), sent := sent x @ [pkt], xsubs := st, xfile := f\<rparr>)"
      using net_send_cases [of E pkt x] I ra by (auto simp: send_data_def data_I_def sz)
    moreover have "data_I n convert ro pkt pend s0 (Suc k0)
        (x\<lparr>nsend := Suc (nsend x), sent := sent x @ [pkt], xsubs := st, xfile := f\<rparr>)"
      using I laws s(1,2) unfolding data_I_def by auto
    ultimately show ?thesis unfolding data_I_def by (auto intro: Suc_leD)
  next
    case False
    then have "send_data E convert sz x = (False, x\<lparr>nsend := Suc (nsend x)\<rparr>)"
      using net_send_cases [of E pkt x] I by (auto simp: send_data_def data_I_def sz)
    then show ?thesis using I by (simp add: data_I_def)
  qed
qed

lemma classify_ack_I:
  "data_I n convert ro pkt pend s0 k0 x \<Longrightarrow> data_I n convert ro pkt pend s0 k0 (snd (classify_ack block p x))"
  by (simp add: data_I_def classify_ack_def Let_def)

text \<open>The exchange of a block of \<open>m\<close> bytes.\<close>

interpretation data_x: exchange "send_data E convert (int m)" "classify_ack block"
  "\<lambda>x. length pkt = m + 4 \<and> data_I n convert ro pkt pend s0 k0 x" "\<lambda>p. True"
  for E convert m block pkt n ro pend s0 k0
proof
  fix x p t
  assume I: "length pkt = m + 4 \<and> data_I n convert ro pkt pend s0 k0 x"
  then show "length pkt = m + 4 \<and> data_I n convert ro pkt pend s0 k0 (snd (send_data E convert (int m) x))"
    using send_data_I [of n convert ro pkt pend s0 k0 x "int m" E] by simp
  show "length pkt = m + 4 \<and> data_I n convert ro pkt pend s0 k0 (snd (classify_ack block p x))"
    using I classify_ack_I by simp
  show "length pkt = m + 4 \<and> data_I n convert ro pkt pend s0 k0 (x\<lparr>xopts := (xopts x)\<lparr>timeout := t\<rparr>\<rparr>)"
    using I by (auto simp: data_I_def)
qed

lemma block_exchange:
  assumes w: "send_wait (send_data E convert (int m)) (classify_ack block) cs x = (r, cs', x')"
    and I: "data_I n convert ro pkt pend s0 0 x" and l: "length pkt = m + 4"
  shows "data_I n convert ro pkt pend s0 (if \<exists>i. r = W_ok i then 1 else 0) x'"
proof -
  obtain b x1 where sd: "send_data E convert (int m) x = (b, x1)" by force
  have I1: "data_I n convert ro pkt pend s0 0 x1" "b \<Longrightarrow> data_I n convert ro pkt pend s0 1 x1"
    using send_data_I [OF I, of "int m" E] l sd by auto
  show ?thesis
  proof (cases b)
    case True
    then have wl: "wait_loop (send_data E convert (int m)) (classify_ack block) (timeout (xopts x1)) cs x1
        = (r, cs', x')" using w sd by (simp add: send_wait_def)
    then have "data_I n convert ro pkt pend s0 1 x'"
      using data_x.wait_loop_I [OF wl, of pkt n ro pend s0 1] I1(2) [OF True] l by simp
    then show ?thesis by (auto simp: data_I_def intro: Suc_leD)
  next
    case False
    then show ?thesis using w sd I1(1) by (simp add: send_wait_def split: if_splits)
  qed
qed


lemma load_header:
  assumes inv: "src_inv n convert (xsubs x, xfile x)" and seg: "segsize (xopts x) = int n"
    and lb: "load_block convert x = (sz, x1)"
  defines "pend \<equiv> src_pending convert (xsubs x, xfile x)"
  shows "sz = int (length (take n pend)) \<and>
         data_I n convert (rollover_val (xopts x)) (data_packet block (take n pend)) (drop n pend)
           (sent x) 0 (put_header block x1)"
proof -
  let ?h = "be16 DATA @ be16 block"
  obtain st f where r: "readit (int n) convert (xsubs x) (xfile x) = (sz, st, f)"
    and x1: "x1 = x\<lparr>xsubs := st, xfile := f\<rparr>"
    using lb seg by (auto simp: load_block_def split: prod.splits)
  have nx: "src_next n convert (xsubs x, xfile x) = (sz, st, f)" by (simp add: src_next_def r)
  have b: "src_blk (st, f) = take n pend" and sz: "sz = int (length (src_blk (st, f)))"
    and p: "src_pending convert (st, f) = drop n pend" and i: "src_inv n convert (st, f)"
    using src.nxt_blk [OF inv] src.nxt_count [OF inv] src.nxt_pending [OF inv] src.nxt_inv [OF inv]
    unfolding nx pend_def by simp_all
  have l: "length ?h = 4" by simp
  have hs: "src_hdr ?h (st, f) = (cur_write 0 ?h st, f)" by (simp add: src_hdr_def)
  note hdr = src.hdr_blk [OF l, of "(st, f)"] src.hdr_pending [OF l, of convert "(st, f)"]
    src.hdr_inv [OF l i]
  let ?st = "cur_write 0 ?h st" and ?d = "take n pend"
  have cur: "cur_buf ?st = buf_write (cur_buf st) 0 ?h" by (simp add: cur_write_def cur_buf_def)
  have "buf_read (cur_buf st) 4 (nat (counter (bfs st (current st)))) = ?d"
    using b by (simp add: src_blk_def bf_data_def cur_buf_def)
  moreover from this have "nat (counter (bfs st (current st))) = length ?d"
    by (metis length_buf_read)
  ultimately have data: "buf_read (cur_buf ?st) 4 (length ?d) = ?d"
    unfolding cur using l by (simp add: buf_read_write_disjoint)
  have "buf_read (cur_buf ?st) 0 (4 + length ?d) = ?h @ ?d"
    unfolding buf_read_append using data l by (simp add: cur)
  then have pkt: "buf_read (cur_buf ?st) 0 (length (data_packet block ?d)) = data_packet block ?d"
    by (simp only: length_data_packet) (simp only: data_packet_def append_assoc add.commute)
  have "put_header block x1 = x\<lparr>xsubs := ?st, xfile := f, xopts := (xopts x)\<lparr>timeout := rexmtval (xopts x)\<rparr>\<rparr>"
    by (simp add: put_header_def x1)
  moreover have "\<exists>k \<ge> 0. sent x = sent x @ replicate k (data_packet block ?d)"
    by (rule exI [of _ 0]) simp
  ultimately show ?thesis using sz b p pkt hdr hs seg unfolding data_I_def by simp
qed


subsection \<open>The whole file\<close>

text \<open>
  Whatever the network does, the packets sent are the file's blocks in order, each possibly
  repeated; if the loop finishes, every block has been sent.
\<close>

text \<open>One round of the loop, and the packets that belong to it.\<close>

lemma packets_first:
  assumes "0 < n"
  shows "data_packets ro block (chunks n pend) = data_packet block (take n pend) #
    (if n \<le> length pend then data_packets ro (next_block ro block) (chunks n (drop n pend)) else [])"
  using assms chunks_full [OF assms, of pend] chunks_short [of pend n] by simp

lemma data_I_count [simp]: "data_I n convert ro pkt pend s0 k0 (count_block sz x) = data_I n convert ro pkt pend s0 k0 x"
  by (simp add: data_I_def count_block_def)

lemma send_round:
  assumes inv: "src_inv n convert (xsubs x, xfile x)" "segsize (xopts x) = int n" "rollover_val (xopts x) = ro"
    and pend: "pend = src_pending convert (xsubs x, xfile x)" and pkt: "pkt = data_packet block (take n pend)"
    and lb: "load_block convert x = (sz, x1)"
    and w: "send_wait (send_data E convert sz) (classify_ack block) cs (put_header block x1) = (w, cs', x2)"
  shows "data_I n convert ro pkt (drop n pend) (sent x) (if \<exists>i. w = W_ok i then 1 else 0) x2"
    and "\<exists>r. send_loop E convert cs x block =
      (case w of
         W_ok i \<Rightarrow> if n \<le> length pend then send_loop E convert cs' (count_block sz x2) (next_block ro block) else (Finished, count_block sz x2)
       | _ \<Rightarrow> (r, x2)) \<and> r \<noteq> Finished"
proof -
  have sz: "sz = int (length (take n pend))"
    and I0: "data_I n convert ro pkt (drop n pend) (sent x) 0 (put_header block x1)"
    using load_header [OF inv(1,2) lb, of block] inv(3) by (simp_all add: pend pkt)
  show I2: "data_I n convert ro pkt (drop n pend) (sent x) (if \<exists>i. w = W_ok i then 1 else 0) x2"
    using block_exchange [OF w [unfolded sz] I0] by (simp add: pkt)
  have o2: "segsize (xopts (count_block sz x2)) = int n" "rollover_val (xopts (count_block sz x2)) = ro"
    using I2 by (simp_all add: data_I_def count_block_def)
  have sz0: "\<not> sz < 0" "sz = int n \<longleftrightarrow> n \<le> length pend" using sz by auto
  note step = send_loop.simps [of E convert cs x block, unfolded lb prod.case if_not_P [OF sz0(1)] w]
  show "\<exists>r. send_loop E convert cs x block =
      (case w of
         W_ok i \<Rightarrow> if n \<le> length pend then send_loop E convert cs' (count_block sz x2) (next_block ro block) else (Finished, count_block sz x2)
       | _ \<Rightarrow> (r, x2)) \<and> r \<noteq> Finished"
    unfolding step by (cases w) (auto simp: Let_def o2 sz0(2))
qed

lemma send_loop_sent:
  assumes "src_inv n convert (xsubs x, xfile x)" and "segsize (xopts x) = int n" and "0 < n"
    and "rollover_val (xopts x) = ro" and "send_loop E convert cs x block = (r, x')"
    and "pk = data_packets ro block (chunks n (src_pending convert (xsubs x, xfile x)))"
  shows "\<exists>reps. sent x' = sent x @ concat (map2 replicate reps pk) \<and>
           (r = Finished \<longrightarrow> (\<forall>k \<in> set reps. 0 < k) \<and> length reps = length pk)"
  using assms
proof (induction "length (src_pending convert (xsubs x, xfile x))" arbitrary: x cs block pk rule: less_induct)
  case less
  define pend where "pend = src_pending convert (xsubs x, xfile x)"
  let ?pkt = "data_packet block (take n pend)"
  obtain sz x1 where lb: "load_block convert x = (sz, x1)" by force
  obtain w cs' x2 where w: "send_wait (send_data E convert sz) (classify_ack block) cs (put_header block x1) = (w, cs', x2)"
    by (metis prod_cases3)
  note rd = send_round [OF less.prems(1,2,4) pend_def refl lb w]
  obtain k where k: "sent x2 = sent x @ replicate k ?pkt" "(\<exists>i. w = W_ok i) \<longrightarrow> 0 < k"
    using rd(1) by (auto simp: data_I_def split: if_splits)
  define tl where "tl = (if n \<le> length pend then data_packets ro (next_block ro block) (chunks n (drop n pend)) else [])"
  have pk: "pk = ?pkt # tl" using less.prems(6) packets_first [OF less.prems(3), of ro block pend] by (simp only: pend_def tl_def)
  show ?case
  proof (cases "(\<exists>i. w = W_ok i) \<and> n \<le> length pend")
    case True
    let ?x3 = "count_block sz x2" and ?b = "next_block ro block"
    have I: "src_inv n convert (xsubs ?x3, xfile ?x3)" "segsize (xopts ?x3) = int n" "rollover_val (xopts ?x3) = ro"
      "src_pending convert (xsubs ?x3, xfile ?x3) = drop n pend"
      using rd(1) by (simp_all add: data_I_def count_block_def)
    have rec: "send_loop E convert cs' ?x3 ?b = (r, x')" using True rd(2) less.prems(5) by auto
    have dec: "length (src_pending convert (xsubs ?x3, xfile ?x3)) < length (src_pending convert (xsubs x, xfile x))"
      using conjunct2 [OF True] less.prems(3) by (simp add: I(4) pend_def [symmetric])
    obtain reps where reps: "sent x' = sent ?x3 @ concat (map2 replicate reps (data_packets ro ?b (chunks n (drop n pend))))"
      "r = Finished \<longrightarrow> (\<forall>k \<in> set reps. 0 < k) \<and> length reps = length (data_packets ro ?b (chunks n (drop n pend)))"
      using less.hyps [OF dec I(1,2) less.prems(3) I(3) rec refl] unfolding I(4) by blast
    then show ?thesis using k True by (intro exI [of _ "k # reps"]) (simp add: count_block_def pk tl_def)
  next
    case False
    then have "sent x' = sent x2" "r = Finished \<longrightarrow> 0 < k \<and> \<not> n \<le> length pend"
      using rd(2) k(2) less.prems(5) by (cases w; auto simp: count_block_def)+
    then show ?thesis using k(1) by (intro exI [of _ "[k]"]) (simp add: pk tl_def)
  qed
qed


lemma payloads_data_packets: "map (drop 4) (data_packets ro block ds) = ds"
  by (induction ro block ds rule: data_packets.induct) (simp_all add: data_packet_def be16_def)

text \<open>The option exchange leaves file, buffers and parameters alone and sends only OACKs.\<close>

definition oack_I :: "nat \<Rightarrow> xfer \<Rightarrow> xfer \<Rightarrow> bool" where
  "oack_I oacklen y x =
     (xsubs x = xsubs y \<and> xfile x = xfile y \<and> segsize (xopts x) = segsize (xopts y) \<and>
      rollover_val (xopts x) = rollover_val (xopts y) \<and>
      (\<exists>ps. sent x = sent y @ ps \<and> (\<forall>p \<in> set ps. length p = oacklen)))"

lemma oack_I_send:
  assumes I: "oack_I len y x"
  shows "oack_I len y (snd (send_oack E len x))"
proof -
  let ?p = "buf_read (xack x) 0 len"
  obtain ps where ps: "sent x = sent y @ ps" "\<forall>p \<in> set ps. length p = len"
    using I by (auto simp: oack_I_def)
  have "sent x @ [?p] = sent y @ (ps @ [?p]) \<and> (\<forall>p \<in> set (ps @ [?p]). length p = len)"
    using ps by simp
  then show ?thesis
    using net_send_cases [of E ?p x] I unfolding send_oack_def oack_I_def by fastforce
qed

interpretation oack_x: exchange "send_oack E len" classify_oack "oack_I len y" "\<lambda>p. True"
  for E len y
proof
  fix x p t
  assume I: "oack_I len y x"
  then show "oack_I len y (snd (send_oack E len x))" by (rule oack_I_send)
  show "oack_I len y (snd (classify_oack p x))"
    using I by (simp add: oack_I_def classify_oack_def Let_def)
  show "oack_I len y (x\<lparr>xopts := (xopts x)\<lparr>timeout := t\<rparr>\<rparr>)"
    using I by (simp add: oack_I_def)
qed

lemma end_send_frame: "end_send (r, y) = (r', x') \<Longrightarrow> r' = r \<and> sent x' = sent y \<and> (r = Finished \<longrightarrow> fclosed x')"
  by (auto simp: end_send_def split: if_splits)

lemma oack_phase:
  assumes "send_wait (send_oack E len) classify_oack cs x = (r, cs', x')"
  shows "oack_I len x x'"
proof -
  have "oack_I len x x" by (simp add: oack_I_def)
  then show ?thesis using oack_x.send_wait_I [OF assms] by simp
qed

lemma data_phase:
  assumes y: "oack_I len x y" and len: "oap = None \<longrightarrow> sent y = sent x" "oap \<noteq> None \<longrightarrow> oap = Some len"
    and q: "send_loop E convert cs (y\<lparr>xsubs := r_init (xsubs y)\<rparr>) 1 = (q, z)"
    and x: "frderr (xfile x) = None" "segsize (xopts x) = int n" "0 < n"
    and pk: "pk = data_packets (rollover_val (xopts x)) 1 (chunks n (mode_enc convert (frest (xfile x))))"
  shows "\<exists>oacks reps. sent z = sent x @ oacks @ concat (map2 replicate reps pk) \<and>
      (\<forall>p \<in> set oacks. oap = Some (length p)) \<and>
      (q = Finished \<longrightarrow> length reps = length pk \<and> (\<forall>k \<in> set reps. 0 < k))"
proof -
  let ?y = "y\<lparr>xsubs := r_init (xsubs y)\<rparr>"
  have f: "xfile y = xfile x" "segsize (xopts y) = int n" "rollover_val (xopts y) = rollover_val (xopts x)"
    using y x(2) by (simp_all add: oack_I_def)
  have "src_inv n convert (xsubs ?y, xfile ?y)"
    and p: "src_pending convert (xsubs ?y, xfile ?y) = mode_enc convert (frest (xfile x))"
    using src_start x(1) f by simp_all
  from send_loop_sent [OF this(1) _ x(3) refl q] p f pk
  obtain reps where reps: "sent z = sent y @ concat (map2 replicate reps pk)"
    "q = Finished \<longrightarrow> (\<forall>k \<in> set reps. 0 < k) \<and> length reps = length pk" by auto
  obtain ps where "sent y = sent x @ ps" "\<forall>p \<in> set ps. length p = len"
    using y by (auto simp: oack_I_def)
  then show ?thesis using reps len by (intro exI [of _ ps] exI [of _ reps]) auto
qed

lemma tftp_sendfile_sent:
  assumes x: "frderr (xfile x) = None" "segsize (xopts x) = int n" "0 < n"
    and t: "tftp_sendfile E convert oap cs x = (r, x')"
    and pk: "pk = data_packets (rollover_val (xopts x)) 1 (chunks n (mode_enc convert (frest (xfile x))))"
  shows "\<exists>oacks reps. sent x' = sent x @ oacks @ concat (map2 replicate reps pk) \<and>
      (\<forall>p \<in> set oacks. oap = Some (length p)) \<and>
      (r = Finished \<longrightarrow> length reps = length pk \<and> (\<forall>k \<in> set reps. 0 < k))"
proof -
  let ?x = "x\<lparr>xshm := snd (woo_set_flag_upload (xwoo x) (xshm x))\<rparr>"
  let ?xt = "?x\<lparr>xopts := (xopts x)\<lparr>timeout := rexmtval (xopts x)\<rparr>\<rparr>"
  note data = data_phase [OF _ _ _ _ x pk]
  show ?thesis
  proof (cases oap)
    case None
    then have e: "end_send (send_loop E convert cs (?x\<lparr>xsubs := r_init (xsubs ?x)\<rparr>) 1) = (r, x')"
      using t by (simp add: tftp_sendfile_def)
    obtain q z where q: "send_loop E convert cs (?x\<lparr>xsubs := r_init (xsubs ?x)\<rparr>) 1 = (q, z)" by force
    have "oack_I 0 x ?x" by (simp add: oack_I_def)
    from data [OF this _ _ q, of None] None end_send_frame [OF e [unfolded q]] show ?thesis by simp
  next
    case (Some len)
    obtain w cs' y where w: "send_wait (send_oack E len) classify_oack cs ?xt = (w, cs', y)"
      by (metis prod_cases3)
    have y: "oack_I len x y" using oack_phase [OF w] by (simp add: oack_I_def)
    note t' = t [unfolded tftp_sendfile_def Let_def Some option.case, simplified, unfolded w prod.case]
    have stop: ?thesis if "end_send (q, y) = (r, x')" and "q \<noteq> Finished" for q
    proof -
      obtain ps where "sent y = sent x @ ps" "\<forall>p \<in> set ps. length p = len"
        using y by (auto simp: oack_I_def)
      then show ?thesis using end_send_frame [OF that(1)] that(2) Some
        by (intro exI [of _ ps] exI [of _ "[]"]) simp
    qed
    show ?thesis
    proof (cases w)
      case (W_ok i)
      obtain q z where q: "send_loop E convert cs' (y\<lparr>xsubs := r_init (xsubs y)\<rparr>) 1 = (q, z)" by force
      have e: "end_send (q, z) = (r, x')" using t' W_ok q by simp
      from data [OF y _ _ q, of "Some len"] Some end_send_frame [OF e] show ?thesis by simp
    qed (use t' stop in simp_all)
  qed
qed

text \<open>
  C17. Read requests deliver the file. Let \<open>pk\<close> be the DATA packets of the file in the
  requested mode, cut at the negotiated block size and numbered from 1 with the negotiated
  rollover. Whatever the network answers, the packets sent are option acknowledgements
  followed by packets of \<open>pk\<close> in order, each repeated some number of times; if the transfer
  finishes, every packet of \<open>pk\<close> has been sent and the file is closed. The payloads of
  \<open>pk\<close>, converted back, are the file.
\<close>

theorem tftp_sendfile_delivers:
  assumes "frderr (xfile x) = None" and "segsize (xopts x) = int n" and "0 < n"
    and "tftp_sendfile E convert oap cs x = (r, x')"
    and "pk = data_packets (rollover_val (xopts x)) 1 (chunks n (mode_enc convert (frest (xfile x))))"
  shows "mode_dec convert (concat (map (drop 4) pk)) = frest (xfile x) \<and>
    (\<exists>oacks reps. sent x' = sent x @ oacks @ concat (map2 replicate reps pk) \<and>
      (\<forall>p \<in> set oacks. oap = Some (length p)) \<and>
      (r = Finished \<longrightarrow> length reps = length pk \<and> (\<forall>k \<in> set reps. 0 < k) \<and> fclosed x'))"
proof -
  have "concat (map (drop 4) pk) = mode_enc convert (frest (xfile x))"
    by (simp add: assms(5) payloads_data_packets)
  moreover have "r = Finished \<Longrightarrow> fclosed x'"
    using assms(4) by (auto simp: tftp_sendfile_def Let_def end_send_def split: prod.splits if_splits)
  ultimately show ?thesis using tftp_sendfile_sent [OF assms] by simp
qed

theorem tftp_sendfile_delivers_witness:
  "mode_dec True (concat (map (drop 4) (data_packets 0 1 (chunks 512 (mode_enc True [CHR ''a'', LF])))))
     = [CHR ''a'', LF] \<and>
   (\<exists>reps. sent (snd (tftp_sendfile ex_net True None [silence] (ex_xfer (reading [CHR ''a'', LF]))))
      = concat (map2 replicate reps (data_packets 0 1 (chunks 512 (mode_enc True [CHR ''a'', LF])))))"
proof -
  let ?x = "ex_xfer (reading [CHR ''a'', LF])"
  obtain r x' where t: "tftp_sendfile ex_net True None [silence] ?x = (r, x')" by force
  from tftp_sendfile_delivers [OF _ _ _ t refl, of 512] show ?thesis
    unfolding t by (auto simp: reading_def frest_def)
qed


subsection \<open>A cooperative client\<close>

text \<open>The acknowledgement of a DATA packet, delivered at once.\<close>

definition ack_packet :: "char list \<Rightarrow> char list" where
  "ack_packet p = be16 ACK @ take 2 (drop 2 p)"

definition ack_for :: "char list \<Rightarrow> rcall" where
  "ack_for p = deliver (ack_packet p)"

lemma ack_packet_data_packet: "ack_packet (data_packet block d) = be16 ACK @ be16 block"
  by (simp add: ack_packet_def data_packet_def be16_def)

lemma ack_for_data_packet: "ack_for (data_packet block d) = deliver (be16 ACK @ be16 block)"
  by (simp add: ack_for_def ack_packet_data_packet)

lemma send_data_ok:
  assumes "\<forall>k. send_ok E k" and "data_I n convert ro pkt pend s0 k0 x" and "int (length pkt) = sz + 4"
  shows "\<exists>x1. send_data E convert sz x = (True, x1) \<and> sent x1 = sent x @ [pkt]"
proof -
  have "nat (sz + 4) = length pkt" using assms(3) by simp
  then show ?thesis using assms(2) net_send_ok [OF assms(1)]
    by (simp add: send_data_def data_I_def split: prod.splits)
qed

lemma send_wait_ack:
  assumes "\<forall>k. send_ok E k" and "data_I n convert ro pkt pend s0 0 x" and "length pkt = m + 4"
  shows "\<exists>i x2. send_wait (send_data E convert (int m)) (classify_ack block)
            (deliver (be16 ACK @ be16 block) # cs) x = (W_ok i, cs, x2) \<and> sent x2 = sent x @ [pkt]"
proof -
  obtain x1 where "send_data E convert (int m) x = (True, x1)" "sent x1 = sent x @ [pkt]"
    using send_data_ok [OF assms(1,2), of "int m"] assms(3) by auto
  then show ?thesis by (simp add: send_wait_def recv_time_deliver classify_ack_def Let_def)
qed

lemma send_loop_completes:
  assumes "\<forall>k. send_ok E k"
    and "src_inv n convert (xsubs x, xfile x)" and "segsize (xopts x) = int n" and "0 < n"
    and "rollover_val (xopts x) = ro"
    and "pk = data_packets ro block (chunks n (src_pending convert (xsubs x, xfile x)))"
  shows "\<exists>x'. send_loop E convert (map ack_for pk) x block = (Finished, x') \<and> sent x' = sent x @ pk"
  using assms
proof (induction "length (src_pending convert (xsubs x, xfile x))" arbitrary: x block pk rule: less_induct)
  case less
  define pend where "pend = src_pending convert (xsubs x, xfile x)"
  let ?pkt = "data_packet block (take n pend)"
  define tl where "tl = (if n \<le> length pend then data_packets ro (next_block ro block) (chunks n (drop n pend)) else [])"
  have pk: "pk = ?pkt # tl" using less.prems(6) packets_first [OF less.prems(4), of ro block pend] by (simp only: pend_def tl_def)
  obtain sz x1 where lb: "load_block convert x = (sz, x1)" by force
  have sz: "sz = int (length (take n pend))"
    and I0: "data_I n convert ro ?pkt (drop n pend) (sent x) 0 (put_header block x1)"
    using load_header [OF less.prems(2,3) lb, of block] less.prems(5) by (simp_all add: pend_def)
  have s1: "sent (put_header block x1) = sent x"
    using lb by (auto simp: put_header_def load_block_def split: prod.splits)
  from send_wait_ack [OF less.prems(1) I0 length_data_packet, of block "map ack_for tl"] s1
  obtain i x2 where w: "send_wait (send_data E convert sz) (classify_ack block) (map ack_for pk)
       (put_header block x1) = (W_ok i, map ack_for tl, x2)" and s2: "sent x2 = sent x @ [?pkt]"
    using sz by (auto simp: pk ack_for_data_packet)
  note rd = send_round [OF less.prems(2,3,5) pend_def refl lb w]
  let ?x3 = "count_block sz x2"
  have s3: "sent ?x3 = sent x @ [?pkt]" using s2 by (simp add: count_block_def)
  have I: "src_inv n convert (xsubs ?x3, xfile ?x3)" "segsize (xopts ?x3) = int n" "rollover_val (xopts ?x3) = ro"
    "src_pending convert (xsubs ?x3, xfile ?x3) = drop n pend" using rd(1) by (simp_all add: data_I_def count_block_def)
  show ?case
  proof (cases "n \<le> length pend")
    case True
    have "length (src_pending convert (xsubs ?x3, xfile ?x3)) < length (src_pending convert (xsubs x, xfile x))"
      using True less.prems(4) by (simp add: I(4) pend_def [symmetric])
    from less.hyps [OF this less.prems(1) I(1,2) less.prems(4) I(3) refl, of "next_block ro block"]
    show ?thesis using rd(2) True s3 by (auto simp: pk tl_def I(4))
  next
    case False
    then show ?thesis using rd(2) s3 by (auto simp: pk tl_def)
  qed
qed

text \<open>The client's answer to an OACK, and the OACK the handler sends first.\<close>

definition oack_replies :: "nat option \<Rightarrow> rcall list" where
  "oack_replies oap = (case oap of None \<Rightarrow> [] | Some _ \<Rightarrow> [deliver (be16 ACK @ be16 0)])"

definition oack_packets :: "nat option \<Rightarrow> xfer \<Rightarrow> char list list" where
  "oack_packets oap x = (case oap of None \<Rightarrow> [] | Some oacklen \<Rightarrow> [buf_read (xack x) 0 oacklen])"

lemma send_wait_oack:
  assumes "\<forall>k. send_ok E k"
  shows "\<exists>i x2. send_wait (send_oack E len) classify_oack (deliver (be16 ACK @ be16 0) # cs) x = (W_ok i, cs, x2) \<and>
    sent x2 = sent x @ [buf_read (xack x) 0 len] \<and> xfile x2 = xfile x \<and>
    segsize (xopts x2) = segsize (xopts x) \<and> rollover_val (xopts x2) = rollover_val (xopts x)"
  using net_send_ok [OF assms]
  by (simp add: send_wait_def send_oack_def recv_time_deliver classify_oack_def Let_def)

text \<open>
  A read request completes: if every \<open>send\<close> works and the client acknowledges each packet,
  the transfer finishes, the OACK if there is one and then each DATA packet of the file is
  sent exactly once, and the file is closed.
\<close>

lemma tftp_sendfile_completes:
  assumes "\<forall>k. send_ok E k" and "frderr (xfile x) = None" and "segsize (xopts x) = int n" and "0 < n"
    and "pk = data_packets (rollover_val (xopts x)) 1 (chunks n (mode_enc convert (frest (xfile x))))"
  shows "\<exists>x'. tftp_sendfile E convert oap (oack_replies oap @ map ack_for pk) x = (Finished, x') \<and>
    sent x' = sent x @ oack_packets oap x @ pk \<and> fclosed x'"
proof -
  have rest: "\<exists>z. send_loop E convert (map ack_for pk) (y\<lparr>xsubs := r_init (xsubs y)\<rparr>) 1 = (Finished, z) \<and> sent z = sent y @ pk"
    if y: "xfile y = xfile x" "segsize (xopts y) = segsize (xopts x)" "rollover_val (xopts y) = rollover_val (xopts x)" for y
  proof -
    let ?y = "y\<lparr>xsubs := r_init (xsubs y)\<rparr>"
    have "src_inv n convert (xsubs ?y, xfile ?y)"
      and "src_pending convert (xsubs ?y, xfile ?y) = mode_enc convert (frest (xfile x))"
      using src_start assms(2) y by simp_all
    then show ?thesis
      using send_loop_completes [OF assms(1), of n convert ?y "rollover_val (xopts x)" pk 1] assms(3-5) y by auto
  qed
  let ?x1 = "x\<lparr>xshm := snd (woo_set_flag_upload (xwoo x) (xshm x))\<rparr>"
  show ?thesis
  proof (cases oap)
    case None
    then show ?thesis using rest [of ?x1] by (auto simp: tftp_sendfile_def Let_def end_send_def oack_replies_def oack_packets_def)
  next
    case (Some len)
    let ?x2 = "?x1\<lparr>xopts := (xopts ?x1)\<lparr>timeout := rexmtval (xopts ?x1)\<rparr>\<rparr>"
    obtain i y where y: "send_wait (send_oack E len) classify_oack (deliver (be16 ACK @ be16 0) # map ack_for pk) ?x2 = (W_ok i, map ack_for pk, y)"
      "sent y = sent x @ [buf_read (xack x) 0 len]" "xfile y = xfile x"
      "segsize (xopts y) = segsize (xopts x)" "rollover_val (xopts y) = rollover_val (xopts x)"
      using send_wait_oack [OF assms(1), of len "map ack_for pk" ?x2] by auto
    then show ?thesis using rest [OF y(3-5)] Some
      by (auto simp: tftp_sendfile_def Let_def end_send_def oack_replies_def oack_packets_def)
  qed
qed

subsection \<open>What the monitor sees\<close>

interpretation data_woo: exchange "send_data E convert sz" "classify_ack block" "woo_I w m" "\<lambda>p. True"
  for E convert sz block w m
  by unfold_locales
    (auto simp: send_data_def classify_ack_def woo_I_def net_send_def Let_def split: prod.splits)

interpretation oack_woo: exchange "send_oack E len" classify_oack "woo_I w m" "\<lambda>p. True"
  for E len w m
  by unfold_locales
    (auto simp: send_oack_def classify_oack_def woo_I_def net_send_def Let_def)

lemma send_loop_slot:
  "send_loop E convert cs x block = (r, x') \<Longrightarrow>
     xwoo x' = xwoo x \<and> slot_flags x' = slot_flags x \<and> slot_ok x' = slot_ok x"
proof (induction E convert cs x block rule: send_loop.induct)
  case (1 E convert cs x block)
  obtain sz x1 where lb: "load_block convert x = (sz, x1)" by force
  have x1: "xwoo (put_header block x1) = xwoo x" "xshm (put_header block x1) = xshm x"
    "xwoo x1 = xwoo x" "xshm x1 = xshm x"
    using lb by (auto simp: put_header_def load_block_def split: prod.splits)
  obtain w cs' x2 where w: "send_wait (send_data E convert sz) (classify_ack block) cs (put_header block x1)
      = (w, cs', x2)" by (metis prod_cases3)
  have x2: "xwoo x2 = xwoo x" "xshm x2 = xshm x"
    using data_woo.send_wait_I [OF w, of "xwoo x" "xshm x"] x1 by (simp_all add: woo_I_def)
  show ?case
  proof (cases "sz < 0")
    case True
    with "1.prems" lb have "xwoo x' = xwoo x1 \<and> xshm x' = xshm x1"
      by (subst (asm) send_loop.simps) (auto dest!: nak_woo split: sum.splits)
    then show ?thesis by (simp add: slot_flags_def slot_ok_def x1)
  next
    case sz0: False
    note step = "1.prems" [unfolded send_loop.simps [of E convert cs x block] lb prod.case if_not_P [OF sz0] w]
    show ?thesis
    proof (cases w)
      case (W_ok i)
      define x3 where "x3 = count_block sz x2"
      have s3: "xwoo x3 = xwoo x" "slot_flags x3 = slot_flags x" "slot_ok x3 = slot_ok x"
        using x2 by (simp_all add: x3_def count_block_slot) (simp_all add: slot_flags_def slot_ok_def x2)
      have step3: "(if sz = segsize (xopts x3)
          then send_loop E convert cs' x3 (next_block (rollover_val (xopts x3)) block)
          else (Finished, x3)) = (r, x')"
        using step unfolding W_ok wait_result.case Let_def x3_def prod.case .
      show ?thesis
      proof (cases "sz = segsize (xopts x3)")
        case True
        then show ?thesis
          using "1.IH" [OF lb [symmetric] sz0 w [symmetric] W_ok refl x3_def True] step3 s3 by simp
      next
        case False
        then show ?thesis using step3 s3 by simp
      qed
    qed (use step x2 in \<open>auto simp: slot_flags_def slot_ok_def\<close>)
  qed
qed


lemma end_send_slot:
  assumes "slot_ok z" and "end_send (r, z) = (r', x')"
  shows "slot_flags x' = (if r = Finished \<or> r = Aborted then slot_flags z OR WOOTFTPD_END else slot_flags z) \<and>
         (r = Finished \<or> r = Aborted \<longrightarrow> fclosed x')"
proof (cases "r = Finished \<or> r = Aborted")
  case True
  then have "x' = z\<lparr>fclosed := True, xshm := upd_slot (xwoo z) end_slot (xshm z)\<rparr>"
    using assms by (simp add: end_send_def woo_end_operation_def slot_ok_def)
  then show ?thesis using assms(1) True
    by (simp add: slot_flags_def slot_ok_def my_slot_upd end_slot_def Let_def)
next
  case False
  then show ?thesis using assms(2) by (simp add: end_send_def)
qed

text \<open>
  C20. The monitor slot during a read request: the slot is marked as an upload from the start;
  once the transfer finishes or is aborted it is marked as ended too and the file is closed;
  if the process exits on repeated time-outs or is still waiting, the slot is not marked as
  ended.
\<close>

theorem tftp_sendfile_slot:
  assumes "slot_ok x" and "tftp_sendfile E convert oap cs x = (r, x')"
  shows "(r = Finished \<or> r = Aborted \<longrightarrow>
            slot_flags x' = (slot_flags x OR WOOTFTPD_UPLOAD) OR WOOTFTPD_END \<and> fclosed x') \<and>
         (r \<noteq> Finished \<and> r \<noteq> Aborted \<longrightarrow> slot_flags x' = slot_flags x OR WOOTFTPD_UPLOAD)"
proof -
  let ?x = "x\<lparr>xshm := snd (woo_set_flag_upload (xwoo x) (xshm x))\<rparr>"
  let ?xt = "?x\<lparr>xopts := (xopts x)\<lparr>timeout := rexmtval (xopts x)\<rparr>\<rparr>"
  have x: "slot_flags ?x = slot_flags x OR WOOTFTPD_UPLOAD" "slot_ok ?x"
    using assms(1) by (simp_all add: slot_flags_def slot_ok_def woo_set_flag_upload_def my_slot_upd)
  have "\<exists>z. end_send (r, z) = (r, x') \<and> xwoo z = xwoo ?x \<and> slot_flags z = slot_flags ?x \<and> slot_ok z"
  proof (cases oap)
    case None
    obtain q z where q: "send_loop E convert cs (?x\<lparr>xsubs := r_init (xsubs ?x)\<rparr>) 1 = (q, z)" by force
    then have "end_send (q, z) = (r, x')" using assms(2) None by (simp add: tftp_sendfile_def)
    moreover from this have "q = r" using end_send_frame by blast
    ultimately show ?thesis using send_loop_slot [OF q] x
      by (intro exI [of _ z]) (auto simp: slot_flags_def slot_ok_def)
  next
    case (Some len)
    obtain w cs' y where w: "send_wait (send_oack E len) classify_oack cs ?xt = (w, cs', y)"
      by (metis prod_cases3)
    have y: "xwoo y = xwoo ?x \<and> xshm y = xshm ?x"
      using oack_woo.send_wait_I [OF w, of "xwoo ?x" "xshm ?x"] by (simp add: woo_I_def)
    have stop: ?thesis if e: "end_send (q, y) = (r, x')" for q
      using end_send_frame [OF e] e x y by (intro exI [of _ y]) (auto simp: slot_flags_def slot_ok_def)
    note t = assms(2) [unfolded tftp_sendfile_def Let_def Some option.case, simplified, unfolded w prod.case]
    show ?thesis
    proof (cases w)
      case (W_ok i)
      obtain q z where q: "send_loop E convert cs' (y\<lparr>xsubs := r_init (xsubs y)\<rparr>) 1 = (q, z)" by force
      have e: "end_send (q, z) = (r, x')" using t W_ok q by simp
      moreover from this have "q = r" using end_send_frame by blast
      ultimately show ?thesis using send_loop_slot [OF q] x y
        by (intro exI [of _ z]) (auto simp: slot_flags_def slot_ok_def)
    qed (use t stop in simp_all)
  qed
  then obtain z where "end_send (r, z) = (r, x')" "slot_flags z = slot_flags ?x" "slot_ok z" by blast
  then show ?thesis using end_send_slot [of z r r x'] x(1) by simp
qed

theorem tftp_sendfile_slot_witness:
  "\<exists>r x'. tftp_sendfile ex_net True None [silence] (ex_xfer (reading ''abc'')) = (r, x') \<and>
     (r \<noteq> Finished \<and> r \<noteq> Aborted \<longrightarrow>
        slot_flags x' = slot_flags (ex_xfer (reading ''abc'')) OR WOOTFTPD_UPLOAD)"
proof -
  let ?x = "ex_xfer (reading ''abc'')"
  obtain r x' where t: "tftp_sendfile ex_net True None [silence] ?x = (r, x')" by force
  then show ?thesis using tftp_sendfile_slot [OF _ t] by auto
qed

subsection \<open>A silent client\<close>

lemma data_I_opts: "data_I n convert ro pkt pend s0 k0 x \<Longrightarrow>
    data_I n convert ro pkt pend s0 k0 (x\<lparr>xopts := (xopts x)\<lparr>timeout := t\<rparr>\<rparr>)"
  by (simp add: data_I_def)

text \<open>
  Six waits that end in a time-out: \<open>P\<close> is what the packet being sent depends on, and the wait
  has been doubled before each of the retransmissions.
\<close>

lemma silent_wait:
  assumes snd: "\<And>y. P y \<Longrightarrow> \<exists>z. resend y = (True, z) \<and> P z \<and> sent z = sent y @ [pkt] \<and> xopts z = xopts y"
    and tmo: "\<And>y t. P y \<Longrightarrow> P (y\<lparr>xopts := (xopts y)\<lparr>timeout := t\<rparr>\<rparr>)"
  shows "P x \<Longrightarrow> backoff j (xopts x) \<Longrightarrow> j \<le> 5 \<Longrightarrow>
    \<exists>x'. wait_loop resend cl rt (replicate (6 - j) silence @ cs) x = (W_exit 0, cs, x') \<and>
      sent x' = sent x @ replicate (5 - j) pkt \<and> backoff 5 (xopts x') \<and> rexmtval (xopts x') = rexmtval (xopts x)"
proof (induction "5 - j" arbitrary: j x rt)
  case 0
  then have "j = 5" by simp
  then show ?case using 0 timer_backoff(1) [OF "0.prems"(2)] by (simp add: recv_time_silence)
next
  case (Suc d)
  then have j: "j < 5" "6 - j = Suc (6 - Suc j)" "5 - j = Suc (5 - Suc j)" by simp_all
  let ?g = "(xopts x)\<lparr>timeout := push_bit 1 (timeout (xopts x))\<rparr>"
  have tm: "timer False (xopts x) = Some ?g" "backoff (Suc j) ?g"
    using timer_backoff [OF Suc.prems(2,3)] j(1) by simp_all
  obtain x1 where x1: "resend (x\<lparr>xopts := ?g\<rparr>) = (True, x1)" "P x1" "sent x1 = sent x @ [pkt]" "xopts x1 = ?g"
    using snd [OF tmo [OF Suc.prems(1)]] by fastforce
  from Suc.hyps(1) [of "Suc j", OF _ x1(2), of "timeout (xopts x1)"] Suc.hyps(2) tm(2) x1(4) j
  obtain x' where "wait_loop resend cl (timeout (xopts x1)) (replicate (6 - Suc j) silence @ cs) x1 = (W_exit 0, cs, x')"
    "sent x' = sent x1 @ replicate (5 - Suc j) pkt" "backoff 5 (xopts x')" "rexmtval (xopts x') = rexmtval (xopts x)"
    by auto
  then show ?case using tm(1) x1 unfolding j by (simp add: recv_time_silence)
qed

text \<open>The same with the first transmission, from the state at the start of an exchange.\<close>

lemma silent_exchange:
  assumes snd: "\<And>y. P y \<Longrightarrow> \<exists>z. resend y = (True, z) \<and> P z \<and> sent z = sent y @ [pkt] \<and> xopts z = xopts y"
    and tmo: "\<And>y t. P y \<Longrightarrow> P (y\<lparr>xopts := (xopts y)\<lparr>timeout := t\<rparr>\<rparr>)"
    and x: "P x" "backoff 0 (xopts x)"
  shows "\<exists>x'. send_wait resend cl (replicate 6 silence @ cs) x = (W_exit 0, cs, x') \<and>
    sent x' = sent x @ replicate 6 pkt \<and> unat (timeout (xopts x')) = 32 * unat (rexmtval (xopts x))"
proof -
  obtain y where y: "resend x = (True, y)" "P y" "sent y = sent x @ [pkt]" "xopts y = xopts x"
    using snd [OF x(1)] by blast
  obtain x' where x': "wait_loop resend cl (timeout (xopts y)) (replicate 6 silence @ cs) y = (W_exit 0, cs, x')"
    "sent x' = sent y @ replicate 5 pkt" "backoff 5 (xopts x')" "rexmtval (xopts x') = rexmtval (xopts x)"
    using silent_wait [of P resend pkt y 0 cl "timeout (xopts y)" cs, OF snd tmo y(2)] x(2) y(4) by auto
  moreover have "sent x' = sent x @ replicate 6 pkt" using x'(2) y(3) replicate_Suc [of 5 pkt] by simp
  moreover have "unat (timeout (xopts x')) = 32 * unat (rexmtval (xopts x))"
    using x'(3,4) by (simp add: backoff_def)
  ultimately show ?thesis using y(1) by (simp add: send_wait_def)
qed

lemma data_I_resend:
  assumes "\<forall>k. send_ok E k" and "int (length pkt) = sz + 4" and "data_I n convert ro pkt pend s0 k0 y"
  shows "\<exists>z. send_data E convert sz y = (True, z) \<and> data_I n convert ro pkt pend s0 k0 z \<and>
    sent z = sent y @ [pkt] \<and> xopts z = xopts y"
proof -
  obtain z where z: "send_data E convert sz y = (True, z)" "sent z = sent y @ [pkt]"
    using send_data_ok [OF assms(1,3,2)] by blast
  moreover have "data_I n convert ro pkt pend s0 k0 z"
    using send_data_I [OF assms(3), of sz E] z assms(2) by simp
  moreover have "xopts z = xopts y"
    using z(1) by (auto simp: send_data_def net_send_def Let_def split: prod.splits if_splits)
  ultimately show ?thesis by blast
qed

lemma send_loop_silent:
  assumes "\<forall>k. send_ok E k" and "frderr (xfile x) = None" and "opts_inv (xopts x)"
    and "n = nat (segsize (xopts x))" and "y = x\<lparr>xshm := m, xsubs := r_init (xsubs x)\<rparr>"
    and "d = take n (mode_enc convert (frest (xfile x)))"
  shows "\<exists>z. send_loop E convert (replicate 6 silence @ cs) y 1 = (Exited 0, z) \<and>
    sent z = sent x @ replicate 6 (data_packet 1 d) \<and> unat (timeout (xopts z)) = 32 * unat (rexmtval (xopts x))"
proof -
  have seg: "segsize (xopts y) = int n" using assms(3-5) by (simp add: opts_inv_def)
  have inv: "src_inv n convert (xsubs y, xfile y)"
    and p: "src_pending convert (xsubs y, xfile y) = mode_enc convert (frest (xfile x))"
    using src_start assms(2,5) by simp_all
  obtain sz x1 where lb: "load_block convert y = (sz, x1)" by force
  let ?h = "put_header 1 x1"
  obtain pend where sz: "sz = int (length d)"
    and I: "data_I n convert (rollover_val (xopts y)) (data_packet 1 d) pend (sent y) 0 ?h"
    using load_header [OF inv seg lb, of 1] p assms(6) by auto
  have "xopts x1 = xopts x" "sent x1 = sent x"
    using lb assms(5) by (auto simp: load_block_def split: prod.splits)
  then have h: "backoff 0 (xopts ?h)" "sent ?h = sent x" "rexmtval (xopts ?h) = rexmtval (xopts x)"
    using backoff_reset [OF opts_inv_backoff [OF assms(3)]] by (simp_all add: put_header_def)
  have l: "int (length (data_packet 1 d)) = sz + 4" by (simp add: sz)
  obtain z where w: "send_wait (send_data E convert sz) (classify_ack 1) (replicate 6 silence @ cs) ?h = (W_exit 0, cs, z)"
    and z: "sent z = sent x @ replicate 6 (data_packet 1 d)"
      "unat (timeout (xopts z)) = 32 * unat (rexmtval (xopts x))"
    using silent_exchange [OF data_I_resend [OF assms(1) l] data_I_opts I h(1), of "classify_ack 1" cs] h(2,3) by auto
  have "send_loop E convert (replicate 6 silence @ cs) y 1 = (Exited 0, z)"
    unfolding send_loop.simps [of E convert "replicate 6 silence @ cs" y 1] lb prod.case w wait_result.case
    by (simp add: sz)
  then show ?thesis using z by blast
qed

lemma send_oack_resend:
  assumes "\<forall>k. send_ok E k" and "xack y = a"
  shows "\<exists>z. send_oack E len y = (True, z) \<and> xack z = a \<and> sent z = sent y @ [buf_read a 0 len] \<and> xopts z = xopts y"
  using assms(2) by (simp add: send_oack_def net_send_ok [OF assms(1)])

text \<open>
  C18. A client that never answers. Without accepted options the first DATA packet is sent six
  times (\<open>TRIES\<close>); with accepted options it is the option acknowledgement that is sent six
  times, and no DATA packet at all. The wait has then been doubled five times, the process
  exits, and the remaining network scripts are not looked at. Every \<open>send\<close> works and the file
  can be read.
\<close>

theorem tftp_sendfile_silent_client:
  assumes "\<forall>k. send_ok E k" and "frderr (xfile x) = None" and "opts_inv (xopts x)"
    and "n = nat (segsize (xopts x))"
  shows "\<exists>x'. tftp_sendfile E convert oap (replicate 6 silence @ cs) x = (Exited 0, x') \<and>
    sent x' = sent x @ replicate 6 (case oap of
        None \<Rightarrow> data_packet 1 (take n (mode_enc convert (frest (xfile x))))
      | Some oacklen \<Rightarrow> buf_read (xack x) 0 oacklen) \<and>
    unat (timeout (xopts x')) = 32 * unat (rexmtval (xopts x))"
proof (cases oap)
  case None
  from send_loop_silent [where m = "snd (woo_set_flag_upload (xwoo x) (xshm x))" and cs = cs and convert = convert, OF assms refl refl]
  show ?thesis by (auto simp: tftp_sendfile_def Let_def end_send_def None)
next
  case (Some len)
  let ?x = "x\<lparr>xshm := snd (woo_set_flag_upload (xwoo x) (xshm x)), xopts := (xopts x)\<lparr>timeout := rexmtval (xopts x)\<rparr>\<rparr>"
  have b: "backoff 0 (xopts ?x)" using backoff_reset [OF opts_inv_backoff [OF assms(3)]] by simp
  have "\<exists>z. send_wait (send_oack E len) classify_oack (replicate 6 silence @ cs) ?x = (W_exit 0, cs, z) \<and>
      sent z = sent ?x @ replicate 6 (buf_read (xack x) 0 len) \<and>
      unat (timeout (xopts z)) = 32 * unat (rexmtval (xopts ?x))"
    by (rule silent_exchange [where P = "\<lambda>y. xack y = xack x"]) (use send_oack_resend [OF assms(1)] b in simp_all)
  then show ?thesis by (auto simp: tftp_sendfile_def Let_def end_send_def Some)
qed

theorem tftp_sendfile_silent_client_witness:
  "(\<exists>x'. tftp_sendfile ex_net True None (replicate 6 silence @ []) (ex_xfer (reading ''abc'')) = (Exited 0, x') \<and>
     sent x' = replicate 6 (data_packet 1 (take 512 (mode_enc True ''abc'')))) \<and>
   (\<exists>x'. tftp_sendfile ex_net True (Some 6) (replicate 6 silence @ []) (ex_xfer (reading ''abc'')) = (Exited 0, x') \<and>
     sent x' = replicate 6 (buf_read (xack (ex_xfer (reading ''abc''))) 0 6))"
  using tftp_sendfile_silent_client [of ex_net "ex_xfer (reading ''abc'')" 512 True None "[]"]
    tftp_sendfile_silent_client [of ex_net "ex_xfer (reading ''abc'')" 512 True "Some 6" "[]"] init_opts_inv
  by (auto simp: reading_def frest_def)


subsection \<open>The option acknowledgement shares its buffer with the answers\<close>

text \<open>
  Retransmitting the OACK after a stray acknowledgement sends a damaged packet: the
  answer has been received into the buffer that holds the OACK, so the second packet starts
  with the client's own four bytes (opcode ACK) instead of the OACK header.
\<close>

lemma oack_retransmission_damaged:
  assumes "\<forall>k. send_ok E k" and "b \<noteq> 0" and "4 \<le> oacklen"
    and "oack = buf_read (xack x) 0 oacklen"
  shows "\<exists>x'. tftp_sendfile E convert (Some oacklen) [deliver (be16 ACK @ be16 b)] x = (Blocked, x') \<and>
    sent x' = sent x @ [oack, be16 ACK @ be16 b @ drop 4 oack]"
proof -
  let ?a = "be16 ACK @ be16 b"
  have "buf_read (buf_write (xack x) 0 ?a) 0 oacklen = ?a @ drop 4 oack"
  proof -
    have o: "oacklen = 4 + (oacklen - 4)" using assms(3) by simp
    have "buf_read (buf_write (xack x) 0 ?a) 0 (4 + (oacklen - 4)) = ?a @ buf_read (xack x) 4 (oacklen - 4)"
      unfolding buf_read_append by (simp add: buf_read_write_disjoint)
    moreover have "drop 4 oack = buf_read (xack x) 4 (oacklen - 4)"
      unfolding assms(4) by (subst o, unfold buf_read_append) simp
    ultimately show ?thesis using o by simp
  qed
  then show ?thesis using assms(2,4)
    by (simp add: tftp_sendfile_def end_send_def send_wait_def send_oack_def net_send_ok [OF assms(1)]
        recv_time_deliver classify_oack_def Let_def)
qed

lemma oack_retransmission_example:
  "\<exists>x'. tftp_sendfile ex_net False (Some 6) [deliver (be16 ACK @ be16 7)] (ex_xfer (reading ''abc'')) = (Blocked, x') \<and>
     sent x' = [replicate 6 NUL, be16 ACK @ be16 7 @ replicate 2 NUL]"
proof -
  have "replicate 6 NUL = buf_read (xack (ex_xfer (reading ''abc''))) 0 6"
    by (simp add: ex_xfer_def buf_read_def map_replicate_const)
  from oack_retransmission_damaged [OF _ _ _ this, of ex_net 7 False] show ?thesis by simp
qed

end
