(* ===== verification/RecvFile.thy ===== *)
theory RecvFile
  imports SendFile
begin

text \<open>
  The handler of write requests (\<open>tftp_recvfile\<close>): acknowledge, wait for the next block,
  hand it to the write-behind layer; after the last block flush, close, send the final
  acknowledgement and dally for one more packet.
\<close>

definition send_ack :: "net_env \<Rightarrow> bool \<Rightarrow> nat \<Rightarrow> xfer \<Rightarrow> bool \<times> xfer" where
  "send_ack E convert acksize x =
     (case net_send E (buf_read (xack x) 0 acksize) x of
        (False, x1) \<Rightarrow> (False, x1)
      | (True, x1) \<Rightarrow>
          (let (k, st, f) = write_behind convert (xsubs x1) (xfile x1)
           in (True, x1\<lparr>xsubs := st, xfile := f\<rparr>)))"

text \<open>\<open>dp_block == (block - 1)\<close> compares as \<open>int\<close>.\<close>

definition classify_data :: "u16 \<Rightarrow> char list \<Rightarrow> xfer \<Rightarrow> verdict \<times> xfer" where
  "classify_data block p x =
     (let st = cur_write 0 p (xsubs x);
          opc = get16 (cur_buf st) 0;
          blk = get16 (cur_buf st) 2;
          x1 = x\<lparr>xsubs := st, dp_opcode := opc, dp_block := blk\<rparr>
      in if opc = ERROR then (V_abort, x1)
         else if opc = DATA then
           (if blk = block then (V_accept, x1)
            else if uint blk = uint block - 1 then (V_resend, x1)
            else (V_again, x1))
         else (V_again, x1))"

text \<open>The acknowledgement for the round: its size, what is left of \<open>oap\<close>, and \<open>ackbuf\<close>.\<close>

definition prepare_ack :: "nat option \<Rightarrow> u16 \<Rightarrow> xfer \<Rightarrow> nat \<times> nat option \<times> xfer" where
  "prepare_ack oap block x0 =
     (let x = x0\<lparr>xopts := (xopts x0)\<lparr>timeout := rexmtval (xopts x0)\<rparr>\<rparr>;
          plain = (4, None, x\<lparr>xack := buf_write (xack x) 0 (be16 ACK @ be16 block)\<rparr>)
      in case oap of
           None \<Rightarrow> plain
         | Some oacklen \<Rightarrow> if block = 0 then (oacklen, oap, x) else plain)"

definition store_block :: "bool \<Rightarrow> int \<Rightarrow> xfer \<Rightarrow> int \<times> xfer" where
  "store_block convert ct x =
     (let (sz, st, f) = writeit ct convert (xsubs x) (xfile x)
      in (sz, x\<lparr>xsubs := st, xfile := f\<rparr>))"

function recv_loop ::
  "net_env \<Rightarrow> bool \<Rightarrow> nat option \<Rightarrow> rcall list \<Rightarrow> xfer \<Rightarrow> u16 \<Rightarrow> outcome \<times> rcall list \<times> xfer \<times> u16" where
  "recv_loop E convert oap cs x block0 =
     (case prepare_ack oap block0 x of
        (acksize, oap', x1) \<Rightarrow>
          (let block = next_block (rollover_val (xopts x1)) block0
           in case send_wait (send_ack E convert acksize) (classify_data block) cs x1 of
                (W_abort, cs', x2) \<Rightarrow> (Aborted, cs', x2, block)
              | (W_exit s, cs', x2) \<Rightarrow> (Exited s, cs', x2, block)
              | (W_blocked, cs', x2) \<Rightarrow> (Blocked, cs', x2, block)
              | (W_ok n, cs', x2) \<Rightarrow>
                  (case store_block convert (n - 4) x2 of
                     (sz, x3) \<Rightarrow>
                       if sz \<noteq> n - 4 then
                         (case nak E (if sz < 0 then errno (xsubs x3) + 100 else ENOSPACE) None x3 of
                            Inl e \<Rightarrow> (Faulted e, cs', x3, block)
                          | Inr x4 \<Rightarrow> (Aborted, cs', x4, block))
                       else if sz = segsize (xopts x3)
                       then recv_loop E convert oap' cs' (count_block sz x3) block
                       else (Finished, cs', count_block sz x3, block))))"
  by pat_completeness auto
termination
proof (relation "measure (\<lambda>(E, convert, oap, cs, x, block). length cs)", goal_cases)
  case (2 E convert oap cs x block0 acksize rest oap' x1 block r rest2 n cs' x2 sz x3)
  from 2(4-6) have "length cs' < length cs" by (metis send_wait_shrinks)
  then show ?case by simp
qed simp

declare recv_loop.simps [simp del]

text \<open>After the loop: flush, close, tell the monitor, final acknowledgement.\<close>

definition final_ack :: "u16 \<Rightarrow> char list" where
  "final_ack block = be16 ACK @ be16 block"

definition end_recv :: "net_env \<Rightarrow> bool \<Rightarrow> u16 \<Rightarrow> xfer \<Rightarrow> xfer" where
  "end_recv E convert block x =
     (let (k, st, f) = write_behind convert (xsubs x) (xfile x);
          x1 = x\<lparr>xsubs := st, xfile := f, fclosed := True,
                 xshm := snd (woo_end_operation (xwoo x) (xshm x)),
                 xack := buf_write (xack x) 0 (final_ack block)\<rparr>
      in snd (net_send E (buf_read (xack x1) 0 4) x1))"

text \<open>The last wait, with \<open>timeout_quit\<close> set: a time-out exits.\<close>

definition dally :: "net_env \<Rightarrow> u16 \<Rightarrow> rcall list \<Rightarrow> xfer \<Rightarrow> outcome \<times> xfer" where
  "dally E block cs x =
     (case cs of
        [] \<Rightarrow> (Blocked, x)
      | c # _ \<Rightarrow>
          (case recv_time PKTSIZE (timeout (xopts x)) c of
             (Rt_waiting, t) \<Rightarrow> (Blocked, x)
           | (Rt_exit, t) \<Rightarrow> (Exited EX_OSERR, x)
           | (Rt_timeout, t) \<Rightarrow>
               (case timer True ((xopts x)\<lparr>timeout := t\<rparr>) of
                  None \<Rightarrow> (Exited 0, x) | Some g \<Rightarrow> (Blocked, x\<lparr>xopts := g\<rparr>))
           | (Rt_error e, t) \<Rightarrow> (Finished, x\<lparr>xopts := (xopts x)\<lparr>timeout := t\<rparr>\<rparr>)
           | (Rt_data p, t) \<Rightarrow>
               (let x1 = x\<lparr>xopts := (xopts x)\<lparr>timeout := t\<rparr>, xbuf := buf_write (xbuf x) 0 p\<rparr>
                in (Finished,
                    if 4 \<le> length p \<and> dp_opcode x1 = DATA \<and> block = dp_block x1
                    then snd (net_send E (buf_read (xack x1) 0 4) x1) else x1))))"

text \<open>\<open>block\<close> starts at 0. On an abort the handler only returns.\<close>

definition tftp_recvfile :: "net_env \<Rightarrow> bool \<Rightarrow> nat option \<Rightarrow> rcall list \<Rightarrow> xfer \<Rightarrow> outcome \<times> xfer" where
  "tftp_recvfile E convert oap cs x0 =
     (let x = x0\<lparr>xshm := snd (woo_set_flag_download (xwoo x0) (xshm x0)), xsubs := w_init (xsubs x0)\<rparr>
      in case recv_loop E convert oap cs x 0 of
           (r, cs', x1, block) \<Rightarrow>
             if r = Finished then dally E block cs' (end_recv E convert block x1) else (r, x1))"


subsection \<open>The exchange of one block\<close>

lemma data_packet_of_header:
  assumes "4 \<le> length p" and "get16 (buf_write m 0 p) 0 = DATA" and "get16 (buf_write m 0 p) 2 = block"
  shows "p = data_packet block (drop 4 p)"
proof -
  have "buf_write m 0 p i = p ! i" if "i < 4" for i using that assms(1) by (simp add: buf_write_def)
  then have "be16 DATA @ be16 block = [p ! 0, p ! 1, p ! 2, p ! 3]"
    using be16_get16 [of "buf_write m 0 p" 0] be16_get16 [of "buf_write m 0 p" 2] assms(2,3) by simp
  also have "\<dots> = take 4 p"
    using assms(1) by (intro nth_equalityI) (auto simp: less_Suc_eq numeral_eq_Suc)
  finally show ?thesis by (metis append_take_drop_id append_assoc data_packet_def)
qed

text \<open>
  While a block is awaited nothing is added to the output, and the acknowledgement in
  \<open>ackbuf\<close> stays as prepared.
\<close>

definition recv_I :: "bool \<Rightarrow> xfer \<Rightarrow> xfer \<Rightarrow> bool" where
  "recv_I convert y x =
     (snk_inv convert (xsubs x, xfile x) \<and>
      snk_out convert (xsubs x, xfile x) = snk_out convert (xsubs y, xfile y) \<and>
      segsize (xopts x) = segsize (xopts y) \<and> rollover_val (xopts x) = rollover_val (xopts y) \<and>
      fclosed x = fclosed y)"

lemma send_ack_I: "recv_I convert y x \<Longrightarrow> recv_I convert y (snd (send_ack E convert acksize x))"
proof -
  assume I: "recv_I convert y x"
  then have inv: "snk_inv convert (xsubs x, xfile x)" by (simp add: recv_I_def)
  obtain k st f where wb: "write_behind convert (xsubs x) (xfile x) = (k, st, f)" by (metis prod_cases3)
  have fl: "snk_flush convert (xsubs x, xfile x) = (st, f)" by (simp add: snk_flush_def wb)
  note laws = snk.flush_out [OF inv] snk.flush_inv [OF inv]
  show ?thesis using I laws wb unfolding fl
    by (auto simp: recv_I_def send_ack_def net_send_def Let_def)
qed

lemma classify_data_subs:
  "(xsubs (snd (classify_data block p x)), xfile (snd (classify_data block p x))) = snk_recvd p (xsubs x, xfile x)"
  by (simp add: classify_data_def Let_def snk_recvd_def)

lemma classify_data_I: "recv_I convert y x \<Longrightarrow> recv_I convert y (snd (classify_data block p x))"
proof -
  assume I: "recv_I convert y x"
  then have "snk_inv convert (xsubs x, xfile x)" by (simp add: recv_I_def)
  note laws = snk.recvd_out [OF this, of p] snk.recvd_inv [OF this, of p]
  have "xopts (snd (classify_data block p x)) = xopts x" "fclosed (snd (classify_data block p x)) = fclosed x"
    by (simp_all add: classify_data_def Let_def)
  then show ?thesis using I laws unfolding recv_I_def classify_data_subs by simp
qed

interpretation recv_x: exchange "send_ack E convert acksize" "classify_data block" "recv_I convert y"
  "\<lambda>p. 4 \<le> length p" for E convert acksize block y
proof
  fix x p t
  assume I: "recv_I convert y x"
  then show "recv_I convert y (snd (send_ack E convert acksize x))" by (rule send_ack_I)
  show "recv_I convert y (snd (classify_data block p x))" using I by (rule classify_data_I)
  show "recv_I convert y (x\<lparr>xopts := (xopts x)\<lparr>timeout := t\<rparr>\<rparr>)" using I by (simp add: recv_I_def)
qed

text \<open>An accepted datagram is the DATA packet of the awaited block and sits in the buffer.\<close>

lemma classify_data_accept:
  assumes "classify_data block p x = (V_accept, x')" and "4 \<le> length p"
  shows "p = data_packet block (drop 4 p) \<and> (xsubs x', xfile x') = snk_recvd p (xsubs x, xfile x) \<and>
         xopts x' = xopts x \<and> fclosed x' = fclosed x \<and> dp_opcode x' = DATA \<and> dp_block x' = block"
proof -
  let ?b = "buf_write (cur_buf (xsubs x)) 0 p"
  have c: "cur_buf (cur_write 0 p (xsubs x)) = ?b" by (simp add: cur_write_def cur_buf_def)
  have h: "get16 ?b 0 = DATA" "get16 ?b 2 = block"
    using assms(1) by (auto simp: classify_data_def Let_def c split: if_splits)
  have x': "x' = x\<lparr>xsubs := cur_write 0 p (xsubs x), dp_opcode := DATA, dp_block := block\<rparr>"
    using assms(1) h by (simp add: classify_data_def Let_def c)
  show ?thesis using data_packet_of_header [OF assms(2) h] x' by (simp add: snk_recvd_def)
qed


lemma prepare_ack_frame:
  assumes "prepare_ack oap block x = (acksize, oap', x1)"
  shows "xsubs x1 = xsubs x \<and> xfile x1 = xfile x \<and> segsize (xopts x1) = segsize (xopts x) \<and>
         rollover_val (xopts x1) = rollover_val (xopts x) \<and> fclosed x1 = fclosed x \<and> sent x1 = sent x \<and>
         xwoo x1 = xwoo x \<and> xshm x1 = xshm x"
  using assms by (auto simp: prepare_ack_def Let_def split: option.splits if_splits)

text \<open>\<open>writeit\<close> always reports success, so the code that sends an error packet is dead.\<close>

lemma store_block_frame:
  assumes "store_block convert ct x = (sz, x')"
  shows "sz = ct \<and> (xsubs x', xfile x') = snk_store convert ct (xsubs x, xfile x) \<and> xopts x' = xopts x \<and>
         fclosed x' = fclosed x \<and> sent x' = sent x \<and> xwoo x' = xwoo x \<and> xshm x' = xshm x \<and>
         dp_opcode x' = dp_opcode x \<and> dp_block x' = dp_block x"
  using assms by (auto simp: store_block_def writeit_def snk_store_def Let_def split: prod.splits)

lemma accept_stored:
  assumes I: "recv_I convert y x" and a: "classify_data block p x = (V_accept, x2)" and l: "4 \<le> length p"
    and s: "store_block convert (int (length p) - 4) x2 = (sz, x3)"
  shows "p = data_packet block (drop 4 p) \<and> sz = int (length (drop 4 p)) \<and>
         snk_inv convert (xsubs x3, xfile x3) \<and>
         snk_out convert (xsubs x3, xfile x3) = snk_ext convert (snk_out convert (xsubs y, xfile y)) (drop 4 p) \<and>
         segsize (xopts x3) = segsize (xopts y) \<and> rollover_val (xopts x3) = rollover_val (xopts y) \<and>
         fclosed x3 = fclosed y \<and> dp_opcode x3 = DATA \<and> dp_block x3 = block"
proof -
  note dp = classify_data_accept [OF a l, THEN conjunct1]
    and a' = classify_data_accept [OF a l, THEN conjunct2] and s' = store_block_frame [OF s]
  have inv: "snk_inv convert (xsubs x, xfile x)" using I by (simp add: recv_I_def)
  have e: "(xsubs x3, xfile x3) = snk_store convert (int (length p) - 4) (snk_recvd p (xsubs x, xfile x))"
    using a' s' by simp
  have "snk_out convert (xsubs x, xfile x) = snk_out convert (xsubs y, xfile y)"
    using I by (simp add: recv_I_def)
  then have o: "snk_inv convert (xsubs x3, xfile x3)"
    "snk_out convert (xsubs x3, xfile x3) = snk_ext convert (snk_out convert (xsubs y, xfile y)) (drop 4 p)"
    using snk.deliver_out [OF inv l] snk.deliver_inv [OF inv l] unfolding e by simp_all
  have "segsize (xopts x3) = segsize (xopts y)" "rollover_val (xopts x3) = rollover_val (xopts y)"
    "fclosed x3 = fclosed y" "dp_opcode x3 = DATA" "dp_block x3 = block"
    using a' s' I unfolding recv_I_def by simp_all
  moreover have "sz = int (length (drop 4 p))" using s' l by simp
  ultimately show ?thesis using dp o by blast
qed

text \<open>One round: nothing is stored, or the last block is, or a full block and the loop goes on.\<close>

lemma recv_round:
  assumes rl: "recv_loop E convert oap cs x block0 = (r, cs', x', block')"
    and inv: "snk_inv convert (xsubs x, xfile x)" and n: "segsize (xopts x) = int n"
    and ro: "rollover_val (xopts x) = ro" and Q: "\<forall>p \<in> set (datagrams cs). 4 \<le> length p"
    and block: "block = next_block ro block0"
  obtains (stop) "r \<noteq> Finished" "subseq (datagrams cs') (datagrams cs)" "snk_inv convert (xsubs x', xfile x')"
      "snk_out convert (xsubs x', xfile x') = snk_out convert (xsubs x, xfile x)" "fclosed x' = fclosed x"
  | (last) d where "subseq (data_packet block d # datagrams cs') (datagrams cs)" "length d \<noteq> n" "r = Finished"
      "snk_inv convert (xsubs x', xfile x')"
      "snk_out convert (xsubs x', xfile x') = snk_ext convert (snk_out convert (xsubs x, xfile x)) d"
      "fclosed x' = fclosed x" "dp_opcode x' = DATA" "dp_block x' = block'"
  | (more) d oap' cs2 x4 where "subseq (data_packet block d # datagrams cs2) (datagrams cs)" "length d = n"
      "recv_loop E convert oap' cs2 x4 block = (r, cs', x', block')"
      "snk_inv convert (xsubs x4, xfile x4)" "segsize (xopts x4) = int n" "rollover_val (xopts x4) = ro"
      "snk_out convert (xsubs x4, xfile x4) = snk_ext convert (snk_out convert (xsubs x, xfile x)) d" "fclosed x4 = fclosed x"
proof -
  obtain acksize oap' x1 where pa: "prepare_ack oap block0 x = (acksize, oap', x1)" by (metis prod_cases3)
  note f1 = prepare_ack_frame [OF pa]
  have b1: "next_block (rollover_val (xopts x1)) block0 = block" using f1 ro block by simp
  obtain w cs2 x2 where w: "send_wait (send_ack E convert acksize) (classify_data block) cs x1 = (w, cs2, x2)"
    by (metis prod_cases3)
  have I1: "recv_I convert x x1" using f1 inv by (simp add: recv_I_def)
  note ex = recv_x.send_wait_I [OF w I1 Q]
  note step = rl [unfolded recv_loop.simps [of E convert oap cs x block0] pa prod.case Let_def b1 w]
  show thesis
  proof (cases w)
    case (W_ok m)
    obtain p y where p: "recv_I convert x y" "classify_data block p y = (V_accept, x2)" "m = int (length p)"
      "subseq (p # datagrams cs2) (datagrams cs)" using ex W_ok by blast
    have l: "4 \<le> length p" using Q p(4) by (auto dest: list_emb_set)
    obtain sz x3 where sb: "store_block convert (m - 4) x2 = (sz, x3)" by force
    note st = accept_stored [OF p(1,2) l sb [unfolded p(3)]]
    have sz: "\<not> sz \<noteq> m - 4" using store_block_frame [OF sb] by simp
    have dp: "p = data_packet block (drop 4 p)" using st by blast
    note sub = p(4) [unfolded arg_cong [OF dp, of "\<lambda>p. p # datagrams cs2"]]
    note step3 = step [unfolded W_ok wait_result.case sb prod.case if_not_P [OF sz]]
    show thesis
    proof (cases "sz = segsize (xopts x3)")
      case True
      have "length (drop 4 p) = n" using st True n by auto
      then show thesis
        by (rule more [OF sub _ step3 [unfolded if_P [OF True]]]) (use st n ro in \<open>simp_all add: count_block_def\<close>)
    next
      case False
      have "length (drop 4 p) \<noteq> n" using st False n by auto
      then show thesis using step3 [unfolded if_not_P [OF False]] st sub last [of "drop 4 p"] by (auto simp: count_block_def)
    qed
  qed (use step ex stop in \<open>auto simp: recv_I_def\<close>)
qed

lemma recv_loop_stores:
  assumes "recv_loop E convert oap cs x block0 = (r, cs', x', block')"
    and "snk_inv convert (xsubs x, xfile x)" and "segsize (xopts x) = int n"
    and "rollover_val (xopts x) = ro" and "\<forall>p \<in> set (datagrams cs). 4 \<le> length p"
  shows "\<exists>ds. subseq (data_packets ro (next_block ro block0) ds @ datagrams cs') (datagrams cs) \<and>
           snk_inv convert (xsubs x', xfile x') \<and>
           snk_out convert (xsubs x', xfile x') = snk_ext convert (snk_out convert (xsubs x, xfile x)) (concat ds) \<and>
           fclosed x' = fclosed x \<and> (\<forall>d \<in> set (butlast ds). length d = n) \<and>
           (r = Finished \<longrightarrow> ds \<noteq> [] \<and> length (last ds) \<noteq> n \<and> dp_opcode x' = DATA \<and> dp_block x' = block')"
  using assms
proof (induction "length (datagrams cs)" arbitrary: oap cs x block0 rule: less_induct)
  case less
  show ?case
  proof (rule recv_round [OF less.prems refl])
    assume "r \<noteq> Finished" "subseq (datagrams cs') (datagrams cs)" "snk_inv convert (xsubs x', xfile x')"
      "snk_out convert (xsubs x', xfile x') = snk_out convert (xsubs x, xfile x)" "fclosed x' = fclosed x"
    then show ?case by (intro exI [of _ "[]"]) simp
  next
    fix d
    assume "subseq (data_packet (next_block ro block0) d # datagrams cs') (datagrams cs)" "length d \<noteq> n" "r = Finished"
      "snk_inv convert (xsubs x', xfile x')"
      "snk_out convert (xsubs x', xfile x') = snk_ext convert (snk_out convert (xsubs x, xfile x)) d"
      "fclosed x' = fclosed x" "dp_opcode x' = DATA" "dp_block x' = block'"
    then show ?case by (intro exI [of _ "[d]"]) simp
  next
    fix d oap' cs2 x4
    let ?b = "next_block ro block0"
    assume sub: "subseq (data_packet ?b d # datagrams cs2) (datagrams cs)" and d: "length d = n"
      and rec: "recv_loop E convert oap' cs2 x4 ?b = (r, cs', x', block')"
        "snk_inv convert (xsubs x4, xfile x4)" "segsize (xopts x4) = int n" "rollover_val (xopts x4) = ro"
      and out: "snk_out convert (xsubs x4, xfile x4) = snk_ext convert (snk_out convert (xsubs x, xfile x)) d" "fclosed x4 = fclosed x"
    have "length (datagrams cs2) < length (datagrams cs)" using list_emb_length [OF sub] by simp
    moreover have "\<forall>p \<in> set (datagrams cs2). 4 \<le> length p" using less.prems(5) sub by (auto dest: list_emb_set)
    ultimately obtain ds where ds: "subseq (data_packets ro (next_block ro ?b) ds @ datagrams cs') (datagrams cs2)"
      "snk_inv convert (xsubs x', xfile x')"
      "snk_out convert (xsubs x', xfile x') = snk_ext convert (snk_out convert (xsubs x, xfile x)) (d @ concat ds)"
      "fclosed x' = fclosed x" "\<forall>d \<in> set (butlast ds). length d = n"
      "r = Finished \<longrightarrow> ds \<noteq> [] \<and> length (last ds) \<noteq> n \<and> dp_opcode x' = DATA \<and> dp_block x' = block'"
      using less.hyps [OF _ rec] unfolding out snk_ext_append by blast
    have "subseq (data_packet ?b d # data_packets ro (next_block ro ?b) ds @ datagrams cs') (datagrams cs)"
      using subseq_order.trans [OF _ sub] ds(1) by auto
    then show ?case using ds(2-) d by (intro exI [of _ "d # ds"]) auto
  qed
qed


subsection \<open>The whole file\<close>

lemma end_recv_file:
  assumes "snk_inv convert (xsubs x, xfile x)"
  shows "fdata (xfile (end_recv E convert block x)) = fst (snk_out convert (xsubs x, xfile x)) \<and>
         fclosed (end_recv E convert block x)"
proof -
  obtain k st f where wb: "write_behind convert (xsubs x) (xfile x) = (k, st, f)" by (metis prod_cases3)
  then have "snk_flush convert (xsubs x, xfile x) = (st, f)" by (simp add: snk_flush_def)
  from snk_flushed_file [OF assms this] show ?thesis
    by (simp add: end_recv_def wb net_send_def Let_def)
qed

lemma dally_frame: "dally E block cs x = (r, x') \<Longrightarrow> xfile x' = xfile x \<and> fclosed x' = fclosed x"
  by (auto simp: dally_def net_send_def Let_def timer_def
           split: list.splits prod.splits rt_result.splits if_splits)

lemma next_block_0: "next_block ro 0 = 1"
  by (simp add: next_block_def)

text \<open>
  C16. Write requests store what was received, as long as no datagram is shorter than a
  header. The file is empty at the start and its device never fills; packets may be lost,
  duplicated and reordered, there may be stray packets, time-outs and failing calls, but every
  datagram that does arrive has at least four bytes. Then, when the handler has closed the file,
  there are blocks \<open>ds\<close> whose DATA packets, numbered from 1 with the negotiated rollover, occur
  in this order among the datagrams received; all but the last have the negotiated size, the
  last does not; and the file is exactly their concatenation, converted from the transfer
  mode. Without the condition on the length this fails: see \<open>runt_accepted\<close>.
\<close>

theorem tftp_recvfile_stores:
  assumes "fdata (xfile x) = []" and "fpos (xfile x) = 0" and "fspace (xfile x) = None"
    and "\<not> fclosed x" and "segsize (xopts x) = int n" and "\<forall>p \<in> set (datagrams cs). 4 \<le> length p"
    and "tftp_recvfile E convert oap cs x = (r, x')" and "fclosed x'"
  shows "\<exists>ds. subseq (data_packets (rollover_val (xopts x)) 1 ds) (datagrams cs) \<and>
    (\<forall>d \<in> set (butlast ds). length d = n) \<and> ds \<noteq> [] \<and> length (last ds) \<noteq> n \<and>
    fdata (xfile x') = mode_dec convert (concat ds)"
proof -
  let ?x = "x\<lparr>xshm := snd (woo_set_flag_download (xwoo x) (xshm x)), xsubs := w_init (xsubs x)\<rparr>"
  obtain q cs' y block where rl: "recv_loop E convert oap cs ?x 0 = (q, cs', y, block)" by (metis prod_cases4)
  have inv: "snk_inv convert (xsubs ?x, xfile ?x)"
    and out: "snk_out convert (xsubs ?x, xfile ?x) = ([], False)"
    using snk_start assms(1-3) by simp_all
  obtain ds where ds': "subseq (data_packets (rollover_val (xopts x)) 1 ds @ datagrams cs') (datagrams cs) \<and>
      snk_inv convert (xsubs y, xfile y) \<and>
      snk_out convert (xsubs y, xfile y) = snk_ext convert ([], False) (concat ds) \<and>
      fclosed y = fclosed ?x \<and> (\<forall>d \<in> set (butlast ds). length d = n) \<and>
      (q = Finished \<longrightarrow> ds \<noteq> [] \<and> length (last ds) \<noteq> n \<and> dp_opcode y = DATA \<and> dp_block y = block)"
    using recv_loop_stores [OF rl inv _ refl assms(6), of n] assms(5) unfolding out next_block_0 by auto
  have t: "(if q = Finished then dally E block cs' (end_recv E convert block y) else (q, y)) = (r, x')"
    using assms(7) rl by (simp add: tftp_recvfile_def Let_def)
  have q: "q = Finished" using t ds' assms(4,8) by (auto split: if_splits)
  then have "dally E block cs' (end_recv E convert block y) = (r, x')" using t by simp
  then have "fdata (xfile x') = mode_dec convert (concat ds)"
    using dally_frame end_recv_file [of convert y E block] ds' snk_ext_mode_dec by metis
  moreover have "subseq (data_packets (rollover_val (xopts x)) 1 ds) (datagrams cs)"
    using ds' subseq_order.trans [of "data_packets (rollover_val (xopts x)) 1 ds"] list_emb_append2
    by (meson list_emb_append_mono subseq_rev_drop_many subseq_order.refl)
  ultimately show ?thesis using ds' q by blast
qed


text \<open>
  The handler looks at the header in the packet buffer without checking how much was
  received. The two bytes of a DATA opcode are enough to be accepted when the block number
  left in the buffer by an earlier datagram, of any kind, is the one awaited; the length
  handed to the file layer is then negative, and as it is not the block size the transfer
  ends there as complete.
\<close>

lemma runt_accepted:
  assumes "get16 (cur_buf (xsubs x)) 2 = block"
  shows "\<exists>x2. classify_data block (be16 DATA) x = (V_accept, x2) \<and>
    (\<forall>convert. \<exists>x3. store_block convert (int (length (be16 DATA)) - 4) x2 = (- 2, x3))"
proof -
  let ?b = "buf_write (cur_buf (xsubs x)) 0 (be16 DATA)"
  have c: "cur_buf (cur_write 0 (be16 DATA) (xsubs x)) = ?b" by (simp add: cur_write_def cur_buf_def)
  have "?b i = cur_buf (xsubs x) i" if "2 \<le> i" for i using that by (simp add: buf_write_def be16_def)
  then have h: "get16 ?b 0 = DATA" "get16 ?b 2 = block"
    using assms by (simp, simp add: get16_def)
  have "\<exists>x3. store_block convert (int (length (be16 DATA)) - 4) x2 = (- 2, x3)" for convert x2
    by (cases "store_block convert (int (length (be16 DATA)) - 4) x2") (use store_block_frame in fastforce)
  then show ?thesis by (simp add: classify_data_def Let_def c h)
qed


subsection \<open>A cooperative client\<close>

lemma send_ack_ok:
  assumes "\<forall>k. send_ok E k"
  shows "\<exists>y. send_ack E convert acksize x = (True, y) \<and> sent y = sent x @ [buf_read (xack x) 0 acksize] \<and>
             xopts y = xopts x"
  using net_send_ok [OF assms] by (simp add: send_ack_def split: prod.splits)

lemma classify_data_packet:
  "\<exists>x2. classify_data block (data_packet block d) x = (V_accept, x2) \<and> sent x2 = sent x"
  by (simp add: classify_data_def Let_def cur_write_def cur_buf_def data_packet_def)

text \<open>The first packet of a round: the OACK in \<open>ackbuf\<close> as long as it is pending, else an acknowledgement.\<close>

definition round_reply :: "nat option \<Rightarrow> u16 \<Rightarrow> xfer \<Rightarrow> char list" where
  "round_reply oap block x =
     (case oap of Some oacklen \<Rightarrow> if block = 0 then buf_read (xack x) 0 oacklen else be16 ACK @ be16 block
      | None \<Rightarrow> be16 ACK @ be16 block)"

lemma prepare_ack_reply:
  "prepare_ack oap block x = (acksize, oap', x1) \<Longrightarrow>
     sent x1 = sent x \<and> buf_read (xack x1) 0 acksize = round_reply oap block x \<and> (oap' = None \<or> oap' = oap)"
  by (auto simp: prepare_ack_def round_reply_def Let_def split: option.splits if_splits)

lemma round_reply_cong: "xack x = xack y \<Longrightarrow> round_reply oap block x = round_reply oap block y"
  by (simp add: round_reply_def split: option.split)

lemma round_reply_None [simp]: "round_reply None block x = be16 ACK @ be16 block"
  by (simp add: round_reply_def)

lemma recv_loop_oack_done: "block \<noteq> 0 \<Longrightarrow> recv_loop E convert oap cs x block = recv_loop E convert None cs x block"
proof -
  assume "block \<noteq> 0"
  then have "prepare_ack oap block x = prepare_ack None block x" by (simp add: prepare_ack_def Let_def split: option.split)
  then show ?thesis by (simp add: recv_loop.simps [of E convert oap cs x block] recv_loop.simps [of E convert None cs x block])
qed

lemma recv_block:
  assumes ok: "\<forall>k. send_ok E k" and inv: "snk_inv convert (xsubs x, xfile x)" and l: "length d \<le> MAX_SEGSIZE"
    and block: "block = next_block (rollover_val (xopts x)) block0" and oap: "oap = None \<or> block0 = 0"
  shows "\<exists>x3. recv_loop E convert oap (deliver (data_packet block d) # cs) x block0 =
      (if int (length d) = segsize (xopts x3) then recv_loop E convert None cs x3 block
       else (Finished, cs, x3, block)) \<and>
    snk_inv convert (xsubs x3, xfile x3) \<and>
    snk_out convert (xsubs x3, xfile x3) = snk_ext convert (snk_out convert (xsubs x, xfile x)) d \<and>
    segsize (xopts x3) = segsize (xopts x) \<and> rollover_val (xopts x3) = rollover_val (xopts x) \<and>
    sent x3 = sent x @ [round_reply oap block0 x]"
proof -
  let ?p = "data_packet block d"
  obtain len oap' x1 where pa: "prepare_ack oap block0 x = (len, oap', x1)" by (metis prod_cases3)
  then have s1: "sent x1 = sent x" and a1: "buf_read (xack x1) 0 len = round_reply oap block0 x" and oap': "oap' = None \<or> oap' = oap"
    using prepare_ack_reply by blast+
  note f1 = prepare_ack_frame [OF pa]
  have I1: "recv_I convert x x1" using f1 inv by (simp add: recv_I_def)
  obtain y where y: "send_ack E convert len x1 = (True, y)" "sent y = sent x @ [round_reply oap block0 x]"
    using send_ack_ok [OF ok, of convert len x1] a1 s1 by auto
  have Iy: "recv_I convert x y" using send_ack_I [OF I1, of E len] y(1) by simp
  obtain x2 where x2: "classify_data block ?p y = (V_accept, x2)" "sent x2 = sent y"
    using classify_data_packet by blast
  have "length ?p \<le> PKTSIZE" using l by simp
  then have w: "send_wait (send_ack E convert len) (classify_data block) (deliver ?p # cs) x1
      = (W_ok (int (length ?p)), cs, x2)"
    using y(1) x2(1) by (simp add: send_wait_def recv_time_deliver del: length_data_packet)
  obtain sz x3 where sb: "store_block convert (int (length ?p) - 4) x2 = (sz, x3)" by force
  have l4: "4 \<le> length ?p" by simp
  note st = accept_stored [OF Iy x2(1) l4 sb, THEN conjunct2]
  have d: "drop 4 ?p = d" by (simp add: data_packet_def be16_def)
  have sz: "\<not> sz \<noteq> int (length ?p) - 4" using store_block_frame [OF sb] by simp
  have szd: "sz = int (length d)" using st unfolding d by blast
  have b: "next_block (rollover_val (xopts x1)) block0 = block" using f1 block by simp
  have next1: "recv_loop E convert oap' cs' z block = recv_loop E convert None cs' z block" for cs' z
  proof (cases "oap' = None")
    case False
    then have "block \<noteq> 0" using oap oap' block by (auto simp: next_block_0)
    then show ?thesis by (rule recv_loop_oack_done)
  qed simp
  have "recv_loop E convert oap (deliver ?p # cs) x block0 =
      (if sz = segsize (xopts x3) then recv_loop E convert None cs (count_block sz x3) block
       else (Finished, cs, count_block sz x3, block))"
    unfolding recv_loop.simps [of E convert oap "deliver ?p # cs" x block0] pa prod.case Let_def b w
      wait_result.case sb if_not_P [OF sz] next1 ..
  moreover have "sent x3 = sent x @ [round_reply oap block0 x]"
    using store_block_frame [OF sb] x2(2) y(2) by simp
  ultimately show ?thesis using st unfolding d
    by (intro exI [of _ "count_block sz x3"]) (simp add: count_block_def szd)
qed

lemma recv_loop_completes:
  assumes "\<forall>k. send_ok E k" and "0 < n" and "n \<le> MAX_SEGSIZE"
    and "snk_inv convert (xsubs x, xfile x)" and "segsize (xopts x) = int n" and "rollover_val (xopts x) = ro"
    and "pk = data_packets ro (next_block ro block0) (chunks n s)" and "oap = None \<or> block0 = 0"
  shows "\<exists>x' block. recv_loop E convert oap (map deliver pk @ cs) x block0 = (Finished, cs, x', block) \<and>
    snk_inv convert (xsubs x', xfile x') \<and>
    snk_out convert (xsubs x', xfile x') = snk_ext convert (snk_out convert (xsubs x, xfile x)) s \<and>
    sent x' @ [final_ack block] = sent x @ round_reply oap block0 x # map ack_packet pk"
  using assms(4-8)
proof (induction "length s" arbitrary: x s block0 pk oap rule: less_induct)
  case less
  let ?b = "next_block ro block0" and ?d = "take n s"
  show ?case
  proof (cases "n \<le> length s")
    case True
    let ?tl = "data_packets ro (next_block ro ?b) (chunks n (drop n s))"
    have pk: "pk = data_packet ?b ?d # ?tl" using less.prems(4) chunks_full [OF assms(2) True] by simp
    obtain x3 where x3: "recv_loop E convert oap (map deliver pk @ cs) x block0 =
        recv_loop E convert None (map deliver ?tl @ cs) x3 ?b"
      "snk_inv convert (xsubs x3, xfile x3)"
      "snk_out convert (xsubs x3, xfile x3) = snk_ext convert (snk_out convert (xsubs x, xfile x)) ?d"
      "segsize (xopts x3) = int n" "rollover_val (xopts x3) = ro" "sent x3 = sent x @ [round_reply oap block0 x]"
      using recv_block [OF assms(1) less.prems(1), of ?d ?b block0 oap "map deliver ?tl @ cs"]
        less.prems(2,3,5) assms(3) True pk by auto
    have dec: "length (drop n s) < length s" using True assms(2) by simp
    from less.hyps [OF dec x3(2,4,5) refl, of None ?b]
    obtain x' block where "recv_loop E convert None (map deliver ?tl @ cs) x3 ?b = (Finished, cs, x', block)"
      "snk_inv convert (xsubs x', xfile x')"
      "snk_out convert (xsubs x', xfile x') = snk_ext convert (snk_out convert (xsubs x3, xfile x3)) (drop n s)"
      "sent x' @ [final_ack block] = sent x3 @ (be16 ACK @ be16 ?b) # map ack_packet ?tl"
      by auto
    then show ?thesis using x3 pk
      by (intro exI [of _ x'] exI [of _ block]) (simp add: snk_ext_append ack_packet_data_packet)
  next
    case False
    then have pk: "pk = [data_packet ?b s]" using less.prems(4) by (simp add: chunks_short)
    obtain x3 where "recv_loop E convert oap (map deliver pk @ cs) x block0 = (Finished, cs, x3, ?b)"
      "snk_inv convert (xsubs x3, xfile x3)"
      "snk_out convert (xsubs x3, xfile x3) = snk_ext convert (snk_out convert (xsubs x, xfile x)) s"
      "sent x3 = sent x @ [round_reply oap block0 x]"
      using recv_block [OF assms(1) less.prems(1), of s ?b block0 oap cs] less.prems(2,3,5) assms(3) False pk
      by auto
    then show ?thesis using pk
      by (intro exI [of _ x3] exI [of _ ?b]) (simp add: final_ack_def ack_packet_data_packet)
  qed
qed


lemma end_recv_sent:
  assumes "\<forall>k. send_ok E k"
  shows "sent (end_recv E convert block x) = sent x @ [final_ack block]"
  by (simp add: end_recv_def net_send_ok [OF assms] Let_def final_ack_def split: prod.splits)

lemma dally_silence: "dally E block [silence] x = (Exited 0, x)"
  by (simp add: dally_def recv_time_silence timer_def Let_def)

text \<open>
  A write request without options completes: if every \<open>send\<close> works and the blocks of a byte
  stream arrive in order, the handler stores the stream, acknowledges each block once and
  exits after the final wait.
\<close>

lemma tftp_recvfile_completes:
  assumes "\<forall>k. send_ok E k" and "0 < n" and "n \<le> MAX_SEGSIZE" and "segsize (xopts x) = int n"
    and "fdata (xfile x) = []" and "fpos (xfile x) = 0" and "fspace (xfile x) = None"
    and "pk = data_packets (rollover_val (xopts x)) 1 (chunks n s)"
  shows "\<exists>x'. tftp_recvfile E convert oap (map deliver pk @ [silence]) x = (Exited 0, x') \<and>
    fdata (xfile x') = mode_dec convert s \<and> fclosed x' \<and>
    sent x' = sent x @ round_reply oap 0 x # map ack_packet pk"
proof -
  let ?x = "x\<lparr>xshm := snd (woo_set_flag_download (xwoo x) (xshm x)), xsubs := w_init (xsubs x)\<rparr>"
  have inv: "snk_inv convert (xsubs ?x, xfile ?x)"
    and out: "snk_out convert (xsubs ?x, xfile ?x) = ([], False)"
    using snk_start assms(5-7) by simp_all
  have pk: "pk = data_packets (rollover_val (xopts x)) (next_block (rollover_val (xopts x)) 0) (chunks n s)"
    using assms(8) by (simp add: next_block_0)
  obtain y block where y: "recv_loop E convert oap (map deliver pk @ [silence]) ?x 0 = (Finished, [silence], y, block)"
    "snk_inv convert (xsubs y, xfile y)" "snk_out convert (xsubs y, xfile y) = snk_ext convert ([], False) s"
    "sent y @ [final_ack block] = sent x @ round_reply oap 0 x # map ack_packet pk"
    using recv_loop_completes [OF assms(1-3) inv _ _ pk, of oap "[silence]"] assms(4) out by (auto simp: round_reply_cong [of ?x x])
  let ?z = "end_recv E convert block y"
  have "tftp_recvfile E convert oap (map deliver pk @ [silence]) x = (Exited 0, ?z)"
    by (simp add: tftp_recvfile_def Let_def y(1) dally_silence)
  moreover have "fdata (xfile ?z) = mode_dec convert s" "fclosed ?z"
    using end_recv_file [OF y(2)] y(3) snk_ext_mode_dec by simp_all
  moreover have "sent ?z = sent x @ round_reply oap 0 x # map ack_packet pk"
    using end_recv_sent [OF assms(1)] y(4) by simp
  ultimately show ?thesis by blast
qed

subsection \<open>What the monitor sees\<close>

interpretation recv_woo: exchange "send_ack E convert acksize" "classify_data block" "woo_I w m" "\<lambda>p. True"
  for E convert acksize block w m
  by unfold_locales
    (auto simp: send_ack_def classify_data_def woo_I_def net_send_def Let_def split: prod.splits)

interpretation recv_open: exchange "send_ack E convert acksize" "classify_data block" "\<lambda>x. fclosed x = c"
  "\<lambda>p. True" for E convert acksize block c
  by unfold_locales (auto simp: send_ack_def classify_data_def net_send_def Let_def split: prod.splits)

lemma recv_loop_slot:
  "recv_loop E convert oap cs x block0 = (r, cs', x', block') \<Longrightarrow>
     xwoo x' = xwoo x \<and> slot_flags x' = slot_flags x \<and> slot_ok x' = slot_ok x \<and> fclosed x' = fclosed x"
proof (induction E convert oap cs x block0 rule: recv_loop.induct)
  case (1 E convert oap cs x block0)
  obtain acksize oap' x1 where pa: "prepare_ack oap block0 x = (acksize, oap', x1)" by (metis prod_cases3)
  note f1 = prepare_ack_frame [OF pa]
  define block where "block = next_block (rollover_val (xopts x1)) block0"
  obtain w cs2 x2 where w: "send_wait (send_ack E convert acksize) (classify_data block) cs x1 = (w, cs2, x2)"
    by (metis prod_cases3)
  have x2: "xwoo x2 = xwoo x" "xshm x2 = xshm x" "fclosed x2 = fclosed x"
    using recv_woo.send_wait_I [OF w, of "xwoo x" "xshm x"] recv_open.send_wait_I [OF w, of "fclosed x"] f1
    by (simp_all add: woo_I_def)
  note step = "1.prems" [unfolded recv_loop.simps [of E convert oap cs x block0] pa prod.case Let_def
      block_def [symmetric] w]
  show ?case
  proof (cases w)
    case (W_ok m)
    obtain sz x3 where sb: "store_block convert (m - 4) x2 = (sz, x3)" by force
    have sz: "\<not> sz \<noteq> m - 4" using store_block_frame [OF sb] by simp
    have x3: "xwoo x3 = xwoo x" "xshm x3 = xshm x" "fclosed x3 = fclosed x"
      using store_block_frame [OF sb] x2 by simp_all
    have c: "xwoo (count_block sz x3) = xwoo x" "slot_flags (count_block sz x3) = slot_flags x"
      "slot_ok (count_block sz x3) = slot_ok x"
      using x3 by (simp_all add: count_block_slot) (simp_all add: slot_flags_def slot_ok_def x3)
    have c4: "fclosed (count_block sz x3) = fclosed x" using x3 by (simp add: count_block_def)
    note step3 = step [unfolded W_ok wait_result.case sb prod.case if_not_P [OF sz]]
    show ?thesis
    proof (cases "sz = segsize (xopts x3)")
      case True
      have "recv_loop E convert oap' cs2 (count_block sz x3) block = (r, cs', x', block')"
        using step3 unfolding if_P [OF True] .
      from "1.IH" [OF pa [symmetric] refl block_def w [symmetric] W_ok refl sb [symmetric] sz True this] c c4
      show ?thesis by simp
    next
      case False
      then show ?thesis using step3 c c4 by simp
    qed
  qed (use step x2 in \<open>auto simp: slot_flags_def slot_ok_def\<close>)
qed

lemma end_recv_slot:
  "slot_ok x \<Longrightarrow> slot_flags (end_recv E convert block x) = slot_flags x OR WOOTFTPD_END"
  by (simp add: end_recv_def slot_flags_def slot_ok_def net_send_def Let_def woo_end_operation_def
      my_slot_upd end_slot_def split: prod.splits)

lemma dally_slot: "dally E block cs x = (r, x') \<Longrightarrow> slot_flags x' = slot_flags x \<and> r \<noteq> Aborted"
  by (auto simp: dally_def net_send_def Let_def timer_def slot_flags_def
           split: list.splits prod.splits rt_result.splits if_splits)

text \<open>
  C21. The monitor slot during a write request, for a process that has an enabled handle and a
  slot of the table, whatever datagrams arrive and whatever becomes of the file: if the handler
  closes the file the slot is marked as an ended download; but an aborted request (an ERROR
  packet from the client, a failed \<open>send\<close> or \<open>recv\<close>) leaves the slot in the state of a running
  download and the file open.
\<close>

theorem tftp_recvfile_slot:
  assumes "slot_ok x" and "\<not> fclosed x" and "tftp_recvfile E convert oap cs x = (r, x')"
  shows "(fclosed x' \<longrightarrow> slot_flags x' = (slot_flags x OR WOOTFTPD_DOWNLOAD) OR WOOTFTPD_END) \<and>
         (r = Aborted \<longrightarrow> \<not> fclosed x' \<and> slot_flags x' = slot_flags x OR WOOTFTPD_DOWNLOAD)"
proof -
  let ?x = "x\<lparr>xshm := snd (woo_set_flag_download (xwoo x) (xshm x)), xsubs := w_init (xsubs x)\<rparr>"
  obtain q cs' y block where rl: "recv_loop E convert oap cs ?x 0 = (q, cs', y, block)" by (metis prod_cases4)
  have x: "slot_flags ?x = slot_flags x OR WOOTFTPD_DOWNLOAD" "slot_ok ?x"
    using assms(1) by (simp_all add: slot_flags_def slot_ok_def woo_set_flag_download_def my_slot_upd)
  have y: "slot_flags y = slot_flags x OR WOOTFTPD_DOWNLOAD" "slot_ok y"
    using recv_loop_slot [OF rl] x by simp_all
  have fy: "\<not> fclosed y" using recv_loop_slot [OF rl] assms(2) by simp
  have t: "(if q = Finished then dally E block cs' (end_recv E convert block y) else (q, y)) = (r, x')"
    using assms(3) rl by (simp add: tftp_recvfile_def Let_def)
  show ?thesis
  proof (cases "q = Finished")
    case True
    then have "dally E block cs' (end_recv E convert block y) = (r, x')" using t by simp
    from dally_slot [OF this] show ?thesis using y end_recv_slot by simp
  next
    case False
    then show ?thesis using t y fy by auto
  qed
qed


text \<open>Concrete runs: a short file, and a client that reports an error.\<close>

lemma ex_recv_datagrams:
  "datagrams (map deliver (data_packets 0 1 (chunks 512 ''abc'')) @ [silence]) = [data_packet 1 ''abc'']"
  by (simp add: chunks_short deliver_def silence_def poll_data_def)

lemma ex_writing: "fdata writing = []" "fpos writing = 0" "fspace writing = None" "\<not> fclosed (ex_xfer f)"
  by (simp_all add: writing_def ex_xfer_def)

lemma ex_recv_run:
  "\<exists>x'. tftp_recvfile ex_net False None (map deliver (data_packets 0 1 (chunks 512 ''abc'')) @ [silence])
      (ex_xfer writing) = (Exited 0, x') \<and> fclosed x'"
  using tftp_recvfile_completes [of ex_net 512 "ex_xfer writing" _ "''abc''" False None]
  by (auto simp: ex_writing)

theorem tftp_recvfile_stores_witness:
  "\<exists>x' ds. tftp_recvfile ex_net False None (map deliver (data_packets 0 1 (chunks 512 ''abc'')) @ [silence])
      (ex_xfer writing) = (Exited 0, x') \<and>
    subseq (data_packets 0 1 ds) [data_packet 1 ''abc''] \<and> fdata (xfile x') = mode_dec False (concat ds)"
proof -
  obtain x' where r: "tftp_recvfile ex_net False None (map deliver (data_packets 0 1 (chunks 512 ''abc'')) @ [silence])
      (ex_xfer writing) = (Exited 0, x')" "fclosed x'" using ex_recv_run by blast
  show ?thesis
    using tftp_recvfile_stores [OF _ _ _ _ _ _ r(1) r(2), of 512] r(1)
    unfolding ex_recv_datagrams by (auto simp: ex_writing)
qed

lemma ex_recv_abort:
  "fst (tftp_recvfile ex_net False None [deliver (be16 ERROR @ be16 0)] (ex_xfer writing)) = Aborted"
  by (simp add: tftp_recvfile_def Let_def recv_loop.simps [of _ _ _ "[deliver (be16 ERROR @ be16 0)]"]
      prepare_ack_def send_wait_def send_ack_def net_send_ok recv_time_deliver classify_data_def
      cur_buf_def cur_write_def split: prod.splits)

theorem tftp_recvfile_slot_witness:
  "\<exists>x'. tftp_recvfile ex_net False None [deliver (be16 ERROR @ be16 0)] (ex_xfer writing) = (Aborted, x') \<and>
     \<not> fclosed x' \<and> slot_flags x' = slot_flags (ex_xfer writing) OR WOOTFTPD_DOWNLOAD"
proof -
  obtain x' where r: "tftp_recvfile ex_net False None [deliver (be16 ERROR @ be16 0)] (ex_xfer writing) = (Aborted, x')"
    using ex_recv_abort by (metis prod.collapse)
  show ?thesis
    using tftp_recvfile_slot [OF _ _ r] r by (auto simp: ex_writing)
qed

subsection \<open>Duplicates\<close>

text \<open>
  A duplicate of the previous block is acknowledged again, unless the block counter has
  just wrapped: after block 65535 the duplicate is ignored, because \<open>block - 1\<close> is computed
  as an \<open>int\<close> and never wraps to 65535.
\<close>

lemma duplicate_block_verdict:
  "fst (classify_data (next_block ro b) (data_packet b d) x) =
     (if next_block ro b = b then V_accept else if b = 65535 then V_again else V_resend)"
proof -
  have h: "get16 (cur_buf (cur_write 0 (data_packet b d) st)) 0 = DATA"
    "get16 (cur_buf (cur_write 0 (data_packet b d) st)) 2 = b" for st
    by (simp_all add: cur_write_def cur_buf_def data_packet_def)
  have w: "uint b = uint (b + 1) - 1" if "b + 1 \<noteq> 0"
  proof -
    have "1 + b \<noteq> 0" using that by (simp add: add.commute)
    then have "int (unat (1 + b)) = int (Suc (unat b))" using unatSuc by metis
    then show ?thesis by (simp add: add.commute)
  qed
  have m: "(65535 :: u16) = - 1" by simp
  have wrap: "b + 1 = 0 \<longleftrightarrow> b = 65535" unfolding m eq_neg_iff_add_eq_0 ..
  have top: "uint (65535 :: u16) \<noteq> uint ro - 1" using uint_lt2p [of ro] by simp
  show ?thesis
    using w top by (auto simp: classify_data_def Let_def h next_block_def wrap)
qed

lemma datagrams_deliver:
  "datagrams (map deliver ps @ cs) = map (take PKTSIZE) ps @ datagrams cs"
  by (induction ps) (simp_all add: deliver_def poll_data_def)

lemma data_packets_length: "p \<in> set (data_packets ro b ds) \<Longrightarrow> 4 \<le> length p"
  by (induction ro b ds rule: data_packets.induct) auto

text \<open>
  The final wait: any datagram of at least four bytes makes the server send its last
  acknowledgement again, even an ERROR packet, since the test looks at the header of the
  last DATA packet instead of the one just received.
\<close>

lemma final_wait_ignores_header:
  assumes "\<forall>k. send_ok E k" and "0 < n" and "n \<le> MAX_SEGSIZE" and "segsize (xopts x) = int n"
    and "fdata (xfile x) = []" and "fpos (xfile x) = 0" and "fspace (xfile x) = None"
    and "pk = data_packets (rollover_val (xopts x)) 1 (chunks n s)"
    and "4 \<le> length p" and "length p \<le> PKTSIZE"
  shows "\<exists>x'. tftp_recvfile E convert None (map deliver pk @ [deliver p]) x = (Finished, x') \<and>
    sent x' = sent x @ (be16 ACK @ be16 0) # map ack_packet pk @ [ack_packet (last pk)]"
proof -
  let ?x = "x\<lparr>xshm := snd (woo_set_flag_download (xwoo x) (xshm x)), xsubs := w_init (xsubs x)\<rparr>"
  have inv: "snk_inv convert (xsubs ?x, xfile ?x)" using snk_start assms(5-7) by simp
  have pk: "pk = data_packets (rollover_val (xopts x)) (next_block (rollover_val (xopts x)) 0) (chunks n s)"
    using assms(8) by (simp add: next_block_0)
  obtain y block where y: "recv_loop E convert None (map deliver pk @ [deliver p]) ?x 0 = (Finished, [deliver p], y, block)"
    "sent y @ [final_ack block] = sent x @ (be16 ACK @ be16 0) # map ack_packet pk"
    using recv_loop_completes [OF assms(1-3) inv _ _ pk, of None "[deliver p]"] assms(4) by auto
  have "\<forall>q \<in> set (datagrams (map deliver pk @ [deliver p])). 4 \<le> length q"
    using assms(8,9) data_packets_length datagrams_deliver [of "pk @ [p]" "[]"] by auto
  then have dp: "dp_opcode y = DATA" "dp_block y = block"
    using recv_loop_stores [OF y(1) inv _ refl, of n] assms(4) by auto
  have "pk \<noteq> []" using assms(8) by (subst (asm) chunks.simps) simp
  then have fa: "final_ack block = ack_packet (last pk)"
    using y(2) by (metis last_ConsR last_append last_map last_snoc list.distinct(1) map_is_Nil_conv)
  let ?z = "end_recv E convert block y"
  have z: "dp_opcode ?z = DATA" "dp_block ?z = block" "buf_read (xack ?z) 0 4 = final_ack block"
    using dp by (simp_all add: end_recv_def net_send_def Let_def final_ack_def split: prod.splits)
  have "sent ?z = sent x @ (be16 ACK @ be16 0) # map ack_packet pk"
    using end_recv_sent [OF assms(1)] y(2) by simp
  moreover have "tftp_recvfile E convert None (map deliver pk @ [deliver p]) x = dally E block [deliver p] ?z"
    by (simp add: tftp_recvfile_def Let_def y(1))
  ultimately show ?thesis using z fa assms(9)
    by (simp add: dally_def recv_time_deliver [OF assms(10)] Let_def net_send_ok [OF assms(1)])
qed


theorem final_wait_ignores_header_witness:
  "\<exists>x'. tftp_recvfile ex_net False None
     (map deliver (data_packets 0 1 (chunks 512 ''abc'')) @ [deliver (be16 ERROR @ be16 0)]) (ex_xfer writing)
       = (Finished, x') \<and>
     sent x' = [be16 ACK @ be16 0, be16 ACK @ be16 1, be16 ACK @ be16 1]"
  using final_wait_ignores_header [of ex_net 512 "ex_xfer writing" _ "''abc''" "be16 ERROR @ be16 0" False]
  by (simp add: ex_writing chunks_short ack_packet_data_packet)

end
