(* ===== verification/Request.thy ===== *)
theory Request
  imports Access RecvFile "HOL-Library.Sublist"
begin

text \<open>
  The request handler (\<open>tftp\<close> in \<open>tftpd.c\<close>): split the packet into NUL-terminated
  arguments in place, look up the mode, remap and check the file name, negotiate the
  options, then run the transfer.

  The packet is a memory of \<open>PKTSIZE\<close> bytes that keeps its contents beyond the datagram's
  end, pointers into it are offsets, and reading at or beyond \<open>PKTSIZE\<close> is a fault.
\<close>

subsection \<open>Strings in the packet buffer\<close>

definition cstr :: "cbuf \<Rightarrow> nat \<Rightarrow> string" where
  "cstr b off = takeWhile (\<lambda>c. c \<noteq> NUL) (map b [off ..< PKTSIZE])"

text \<open>\<open>do { cp++; } while (cp < end && *cp);\<close>\<close>

function skip_arg :: "cbuf \<Rightarrow> nat \<Rightarrow> nat \<Rightarrow> nat" where
  "skip_arg b cp e = (if Suc cp < e \<and> b (Suc cp) \<noteq> NUL then skip_arg b (Suc cp) e else Suc cp)"
  by pat_completeness auto
termination
  by (relation "measure (\<lambda>(b, cp, e). e - cp)") auto

declare skip_arg.simps [simp del]

lemma skip_arg_gt: "cp < skip_arg b cp e"
proof (induction b cp e rule: skip_arg.induct)
  case (1 b cp e)
  then show ?case by (subst skip_arg.simps) auto
qed

subsection \<open>Parsing\<close>

text \<open>The table \<open>formats\<close>: mode name and \<open>f_convert\<close>; the handlers are the same for both.\<close>

definition formats :: "(string \<times> bool) list" where
  "formats = [(''netascii'', True), (''octet'', False)]"

type_synonym rewriter = "string \<Rightarrow> bool \<Rightarrow> rw_result option"
type_synonym validator = "bool \<Rightarrow> bool \<Rightarrow> string \<Rightarrow> woo_data \<Rightarrow> wootftpd_shared_data \<Rightarrow> opts
     \<Rightarrow> fault + (access_result \<times> wootftpd_shared_data \<times> opts)"

record req =
  rmem :: cbuf
  rq_oack :: oack
  rq_opts :: opts
  rq_shm :: wootftpd_shared_data
  rq_pf :: "(bool \<times> cfile) option"

text \<open>
  How parsing ends: an error packet and \<open>exit(0)\<close>, an exit, a fault, remapping that does
  not return, or the request with mode and open file.
\<close>

datatype req_result =
  Req_nak int "string option" req | Req_exit int req | Req_fault fault | Req_loops | Req_ok bool cfile req

text \<open>
  The second argument, from the lookup of the mode to the access check. Its start, the
  pointer \<open>mode\<close>, is the value of \<open>cp\<close> at the head of the loop.
\<close>

definition do_mode ::
  "rewriter \<Rightarrow> validator \<Rightarrow> bool \<Rightarrow> woo_data \<Rightarrow> nat \<Rightarrow> req \<Rightarrow> req_result + req" where
  "do_mode rw va rrq w mode q =
     (let s = cstr (rmem q) mode;
          q1 = q\<lparr>rmem := buf_write (rmem q) mode (map tolower s)\<rparr>
      in case find (\<lambda>(name, cv). name = map tolower s) formats of
           None \<Rightarrow> Inl (Req_nak EBADOP (Some ''Unknown mode'') q1)
         | Some (name, convert) \<Rightarrow>
             (case rw (cstr (rmem q1) 2) rrq of
                None \<Rightarrow> Inl Req_loops
              | Some (Rw_fault e) \<Rightarrow> Inl (Req_fault e)
              | Some (Rw_null msg) \<Rightarrow> Inl (Req_nak EACCESS msg q1)
              | Some (Rw_ok filename) \<Rightarrow>
                  (case va rrq convert filename w (rq_shm q1) (rq_opts q1) of
                     Inl e \<Rightarrow> Inl (Req_fault e)
                   | Inr (Acc_exit s, m, g) \<Rightarrow> Inl (Req_exit s (q1\<lparr>rq_shm := m, rq_opts := g\<rparr>))
                   | Inr (Acc_err ecode msg, m, g) \<Rightarrow>
                       Inl (Req_nak ecode msg (q1\<lparr>rq_shm := m, rq_opts := g\<rparr>))
                   | Inr (Acc_ok f, m, g) \<Rightarrow>
                       Inr (q1\<lparr>rq_shm := m, rq_opts := g, rq_pf := Some (convert, f)\<rparr>))))"

function parse_loop ::
  "opt_table \<Rightarrow> rewriter \<Rightarrow> validator \<Rightarrow> bool \<Rightarrow> woo_data \<Rightarrow> nat \<Rightarrow> nat \<Rightarrow> nat \<Rightarrow> nat \<Rightarrow> nat \<Rightarrow> req \<Rightarrow> req_result" where
  "parse_loop tab rw va rrq w e cp argn opt val q =
     (if cp < e \<and> rmem q cp \<noteq> NUL then
        (let cp1 = skip_arg (rmem q) cp e
         in if PKTSIZE \<le> cp1 then Req_fault Out_of_bounds
            else if rmem q cp1 \<noteq> NUL then Req_nak EBADOP (Some ''Request not null-terminated'') q
            else if argn + 1 = 1 then parse_loop tab rw va rrq w e (Suc cp1) (argn + 1) opt val q
            else if argn + 1 = 2 then
              (case do_mode rw va rrq w cp q of
                 Inl r \<Rightarrow> r
               | Inr q1 \<Rightarrow>
                   (let cp2 = cp + length (cstr (rmem q) cp)
                    in parse_loop tab rw va rrq w e (Suc cp2) (argn + 1) (Suc cp2) val q1))
            else if odd (argn + 1) then parse_loop tab rw va rrq w e (Suc cp1) (argn + 1) opt (Suc cp1) q
            else
              (case do_opt tab (cstr (rmem q) opt) (cstr (rmem q) val) (rq_oack q) (rq_opts q) of
                 Inl (ecode, msg) \<Rightarrow> Req_nak ecode msg q
               | Inr (a, g) \<Rightarrow>
                   parse_loop tab rw va rrq w e (Suc cp1) (argn + 1) (Suc cp1) val
                     (q\<lparr>rq_oack := a, rq_opts := g\<rparr>)))
      else case rq_pf q of
             None \<Rightarrow> Req_nak EBADOP (Some ''Missing mode'') q
           | Some (convert, f) \<Rightarrow> Req_ok convert f q)"
  by pat_completeness auto
termination
proof (relation "measure (\<lambda>(tab, rw, va, rrq, w, e, cp, argn, opt, val, q). e - cp)", goal_cases)
  case (2 tab rw va rrq w e cp argn opt val q cp1)
  then show ?case using skip_arg_gt [of cp "rmem q" e] by auto
next
  case (3 tab rw va rrq w e cp argn opt val q cp1 q1 cp2)
  then show ?case by auto
next
  case (4 tab rw va rrq w e cp argn opt val q cp1)
  then show ?case using skip_arg_gt [of cp "rmem q" e] by auto
next
  case (5 tab rw va rrq w e cp argn opt val q cp1 r a g)
  then show ?case using skip_arg_gt [of cp "rmem q" e] by auto
qed simp

declare parse_loop.simps [simp del]

text \<open>The start: \<open>ackbuf\<close> gets the OACK opcode, the arguments begin at offset 2.\<close>

definition parse_request :: "opt_table \<Rightarrow> rewriter \<Rightarrow> validator \<Rightarrow> nat \<Rightarrow> xfer \<Rightarrow> req_result" where
  "parse_request tab rw va sz x =
     parse_loop tab rw va (get16 (xbuf x) 0 = RRQ) (xwoo x) sz 2 0 0 0
       \<lparr>rmem = xbuf x, rq_oack = \<lparr>ackbuf = buf_write (xack x) 0 (be16 OACK), ap = 2\<rparr>,
        rq_opts = xopts x, rq_shm = xshm x, rq_pf = None\<rparr>"

definition nak_exit :: "net_env \<Rightarrow> int \<Rightarrow> string option \<Rightarrow> xfer \<Rightarrow> outcome \<times> xfer" where
  "nak_exit E ecode msg x = (case nak E ecode msg x of Inl e \<Rightarrow> (Faulted e, x) | Inr x1 \<Rightarrow> (Exited 0, x1))"

text \<open>The process state with what parsing left in it.\<close>

definition sync_req :: "req \<Rightarrow> xfer \<Rightarrow> xfer" where
  "sync_req q x = x\<lparr>xbuf := rmem q, xack := ackbuf (rq_oack q), xopts := rq_opts q, xshm := rq_shm q\<rparr>"

text \<open>
  The whole handler, with the result of the transfer (\<open>exit(0)\<close> follows). \<open>None\<close>: remapping
  does not return.
\<close>

definition tftp :: "opt_table \<Rightarrow> net_env \<Rightarrow> rewriter \<Rightarrow> validator \<Rightarrow> rcall list \<Rightarrow> nat \<Rightarrow> xfer \<Rightarrow> (outcome \<times> xfer) option" where
  "tftp tab E rw va cs sz x =
     (case parse_request tab rw va sz x of
        Req_loops \<Rightarrow> None
      | Req_nak ecode msg q \<Rightarrow> Some (nak_exit E ecode msg (sync_req q x))
      | Req_exit s q \<Rightarrow> Some (Exited s, sync_req q x)
      | Req_fault e \<Rightarrow> Some (Faulted e, x)
      | Req_ok convert f q \<Rightarrow>
          (let x1 = (sync_req q x)\<lparr>xfile := f\<rparr>;
               oap = (if ap (rq_oack q) \<noteq> 2 then Some (ap (rq_oack q)) else None)
           in Some (if get16 (xbuf x) 0 = WRQ then tftp_recvfile E convert oap cs x1
                    else tftp_sendfile E convert oap cs x1)))"


subsection \<open>Requests as the client means them\<close>

text \<open>A request: file name, mode and the options with their values.\<close>

definition enc_opts :: "(string \<times> string) list \<Rightarrow> char list" where
  "enc_opts ps = concat (map (\<lambda>(name, v). name @ [NUL] @ v @ [NUL]) ps)"

definition encode_request :: "u16 \<Rightarrow> string \<Rightarrow> string \<Rightarrow> (string \<times> string) list \<Rightarrow> char list" where
  "encode_request opcode filename mode ps =
     be16 opcode @ filename @ [NUL] @ mode @ [NUL] @ enc_opts ps"

definition wf_arg :: "string \<Rightarrow> bool" where
  "wf_arg s = (s \<noteq> [] \<and> NUL \<notin> set s)"

fun run_opts :: "opt_table \<Rightarrow> (string \<times> string) list \<Rightarrow> oack \<Rightarrow> opts \<Rightarrow> nak_msg + (oack \<times> opts)" where
  "run_opts tab [] a g = Inr (a, g)"
| "run_opts tab ((name, v) # ps) a g =
     (case do_opt tab name v a g of Inl e \<Rightarrow> Inl e | Inr (a1, g1) \<Rightarrow> run_opts tab ps a1 g1)"

text \<open>What a request leads to, without the state of the packet buffer.\<close>

datatype verdict_abs =
  A_nak int "string option" | A_exit int | A_fault fault | A_loops
  | A_ok bool cfile oack opts wootftpd_shared_data

fun abs_req :: "req_result \<Rightarrow> verdict_abs" where
  "abs_req (Req_nak e msg q) = A_nak e msg"
| "abs_req (Req_exit s q) = A_exit s"
| "abs_req (Req_fault e) = A_fault e"
| "abs_req Req_loops = A_loops"
| "abs_req (Req_ok convert f q) = A_ok convert f (rq_oack q) (rq_opts q) (rq_shm q)"

definition opts_verdict :: "bool \<Rightarrow> cfile \<Rightarrow> wootftpd_shared_data \<Rightarrow> nak_msg + (oack \<times> opts) \<Rightarrow> verdict_abs" where
  "opts_verdict convert f m r =
     (case r of Inl (e, msg) \<Rightarrow> A_nak e msg | Inr (a, g) \<Rightarrow> A_ok convert f a g m)"

definition ref_request ::
  "opt_table \<Rightarrow> rewriter \<Rightarrow> validator \<Rightarrow> bool \<Rightarrow> woo_data \<Rightarrow> string \<Rightarrow> string \<Rightarrow> (string \<times> string) list
     \<Rightarrow> oack \<Rightarrow> opts \<Rightarrow> wootftpd_shared_data \<Rightarrow> verdict_abs" where
  "ref_request tab rw va rrq w filename mode ps a g m =
     (case map_of formats (map tolower mode) of
        None \<Rightarrow> A_nak EBADOP (Some ''Unknown mode'')
      | Some convert \<Rightarrow>
          (case rw filename rrq of
             None \<Rightarrow> A_loops
           | Some (Rw_fault e) \<Rightarrow> A_fault e
           | Some (Rw_null msg) \<Rightarrow> A_nak EACCESS msg
           | Some (Rw_ok name) \<Rightarrow>
               (case va rrq convert name w m g of
                  Inl e \<Rightarrow> A_fault e
                | Inr (Acc_exit s, m1, g1) \<Rightarrow> A_exit s
                | Inr (Acc_err e msg, m1, g1) \<Rightarrow> A_nak e msg
                | Inr (Acc_ok f, m1, g1) \<Rightarrow> opts_verdict convert f m1 (run_opts tab ps a g1))))"

subsection \<open>Strings in memory\<close>

definition holds :: "cbuf \<Rightarrow> nat \<Rightarrow> char list \<Rightarrow> bool" where
  "holds b off xs = (buf_read b off (length xs) = xs)"

lemma holds_append: "holds b off (xs @ ys) \<longleftrightarrow> holds b off xs \<and> holds b (off + length xs) ys"
  by (simp add: holds_def buf_read_append)

lemma holds_nth: "holds b off xs \<Longrightarrow> i < length xs \<Longrightarrow> b (off + i) = xs ! i"
  unfolding holds_def by (metis buf_read_nth)

lemma holds_Nil [simp]: "holds b off []"
  by (simp add: holds_def)

lemma holds_Cons: "holds b off (x # xs) \<longleftrightarrow> b off = x \<and> holds b (Suc off) xs"
  using holds_append [of b off "[x]" xs] by (simp add: holds_def buf_read_def)

lemma holds_NUL: "holds b off [NUL] \<longleftrightarrow> b off = NUL"
  by (simp add: holds_def buf_read_def)

lemma holds_write_disjoint:
  "off + length ys \<le> off' \<or> off' + length xs \<le> off \<Longrightarrow> holds (buf_write b off' xs) off ys = holds b off ys"
  by (simp add: holds_def buf_read_write_disjoint)

lemma holds_cstr:
  assumes h: "holds b off s" and n: "b (off + length s) = NUL" and w: "NUL \<notin> set s"
    and l: "off + length s < PKTSIZE"
  shows "cstr b off = s"
proof -
  have "[off ..< PKTSIZE] = [off ..< off + length s] @ [off + length s ..< PKTSIZE]"
    using l by (metis le_add1 less_imp_le_nat upt_add_eq_append le_iff_add)
  also have "[off + length s ..< PKTSIZE] = (off + length s) # [Suc (off + length s) ..< PKTSIZE]"
    using l by (simp only: upt_conv_Cons)
  finally have "map b [off ..< PKTSIZE] = s @ NUL # map b [Suc (off + length s) ..< PKTSIZE]"
    using h n by (simp add: holds_def buf_read_def)
  then show ?thesis using w by (simp add: cstr_def takeWhile_cut)
qed

lemma skip_arg_to:
  "k < length s \<Longrightarrow> holds b off s \<Longrightarrow> NUL \<notin> set s \<Longrightarrow> b (off + length s) = NUL \<Longrightarrow>
     off + length s < e \<Longrightarrow> skip_arg b (off + k) e = off + length s"
proof (induction "length s - k" arbitrary: k)
  case 0
  then show ?case by simp
next
  case (Suc d)
  show ?case
  proof (cases "Suc k = length s")
    case True
    then have "Suc (off + k) = off + length s" by simp
    then show ?thesis unfolding skip_arg.simps [of b "off + k" e] by (simp only: Suc.prems(4) simp_thms if_False)
  next
    case False
    then have k: "Suc k < length s" using Suc.prems by simp
    then have "b (off + Suc k) \<noteq> NUL" using Suc.prems holds_nth by (metis nth_mem)
    moreover have "skip_arg b (off + Suc k) e = off + length s"
      using Suc.hyps(1) [of "Suc k"] Suc.hyps(2) Suc.prems k by simp
    ultimately show ?thesis using Suc.prems k by (subst skip_arg.simps) simp
  qed
qed

text \<open>The four facts the loop needs about an argument in memory.\<close>

lemma arg_facts:
  assumes "holds b cp (s @ [NUL])" and "wf_arg s" and "cp + length s < e" and "e \<le> PKTSIZE"
  shows "cp < e \<and> b cp \<noteq> NUL" and "skip_arg b cp e = cp + length s" and "b (cp + length s) = NUL"
    and "cstr b cp = s" and "\<not> PKTSIZE \<le> cp + length s"
proof -
  have h: "holds b cp s" "b (cp + length s) = NUL" and w: "NUL \<notin> set s" "s \<noteq> []"
    using assms(1,2) by (simp_all add: holds_append holds_NUL wf_arg_def)
  have "b (cp + 0) = s ! 0" using holds_nth [OF h(1), of 0] w(2) by simp
  then show "cp < e \<and> b cp \<noteq> NUL" using w assms(3) by (metis add_0_right add_lessD1 length_greater_0_conv nth_mem)
  show "skip_arg b cp e = cp + length s" using skip_arg_to [of 0 s b cp e] h w assms(3) by simp
  show "b (cp + length s) = NUL" by (rule h(2))
  show "cstr b cp = s" using holds_cstr [OF h w(1)] assms(3,4) by simp
  show "\<not> PKTSIZE \<le> cp + length s" using assms(3,4) by simp
qed


subsection \<open>The parser implements the reference\<close>

definition wf_opts :: "(string \<times> string) list \<Rightarrow> bool" where
  "wf_opts ps = (\<forall>(name, v) \<in> set ps. wf_arg name \<and> wf_arg v)"

lemma enc_opts_Cons: "enc_opts ((name, v) # ps) = (name @ [NUL]) @ (v @ [NUL]) @ enc_opts ps"
  by (simp add: enc_opts_def)

lemma parse_opts:
  "wf_opts ps \<Longrightarrow> holds (rmem q) cp (enc_opts ps) \<Longrightarrow> cp + length (enc_opts ps) = e \<Longrightarrow> e \<le> PKTSIZE \<Longrightarrow>
   even argn \<Longrightarrow> 2 \<le> argn \<Longrightarrow> rq_pf q = Some (convert, f) \<Longrightarrow>
     abs_req (parse_loop tab rw va rrq w e cp argn cp val q) =
       opts_verdict convert f (rq_shm q) (run_opts tab ps (rq_oack q) (rq_opts q))"
proof (induction ps arbitrary: cp argn val q)
  case Nil
  then show ?case by (subst parse_loop.simps) (simp add: enc_opts_def opts_verdict_def)
next
  case (Cons p ps)
  obtain name v where p: "p = (name, v)" by force
  let ?b = "rmem q" and ?c1 = "cp + length name" and ?c2 = "Suc (cp + length name)"
  let ?c3 = "?c2 + length v" and ?c4 = "Suc (?c2 + length v)"
  have h: "holds ?b cp (name @ [NUL])" "holds ?b ?c2 (v @ [NUL])" "holds ?b ?c4 (enc_opts ps)"
    using Cons.prems(2) unfolding p enc_opts_Cons by (simp_all add: holds_append holds_Cons add.assoc)
  have wf: "wf_arg name" "wf_arg v" "wf_opts ps" using Cons.prems(1) by (simp_all add: p wf_opts_def)
  have e: "?c4 + length (enc_opts ps) = e" using Cons.prems(3) unfolding p enc_opts_Cons by simp
  then have lt: "?c1 < e" "?c3 < e" by simp_all
  note a1 = arg_facts [OF h(1) wf(1) lt(1) Cons.prems(4)] and a2 = arg_facts [OF h(2) wf(2) lt(2) Cons.prems(4)]
  have argn: "argn + 1 \<noteq> 1" "argn + 1 \<noteq> 2" "odd (argn + 1)" "argn + 1 + 1 \<noteq> 1" "argn + 1 + 1 \<noteq> 2"
    "\<not> odd (argn + 1 + 1)" using Cons.prems(5,6) by auto
  have s1: "parse_loop tab rw va rrq w e cp argn cp val q = parse_loop tab rw va rrq w e ?c2 (argn + 1) cp ?c2 q"
    by (subst parse_loop.simps) (use a1 argn(1-3) in \<open>simp add: Let_def\<close>)
  have s2: "parse_loop tab rw va rrq w e ?c2 (argn + 1) cp ?c2 q =
      (case do_opt tab name v (rq_oack q) (rq_opts q) of
         Inl (c, msg) \<Rightarrow> Req_nak c msg q
       | Inr (a, g) \<Rightarrow> parse_loop tab rw va rrq w e ?c4 (argn + 1 + 1) ?c4 ?c2 (q\<lparr>rq_oack := a, rq_opts := g\<rparr>))"
    by (subst parse_loop.simps) (use a1 a2 argn(4-6) in \<open>simp add: Let_def split: sum.split prod.split\<close>)
  show ?case
  proof (cases "do_opt tab name v (rq_oack q) (rq_opts q)")
    case (Inl cm)
    then show ?thesis unfolding s1 s2 by (cases cm) (simp add: p opts_verdict_def)
  next
    case (Inr ag)
    obtain a g where ag: "ag = (a, g)" by force
    let ?q = "q\<lparr>rq_oack := a, rq_opts := g\<rparr>"
    have "abs_req (parse_loop tab rw va rrq w e ?c4 (argn + 1 + 1) ?c4 ?c2 ?q) =
       opts_verdict convert f (rq_shm ?q) (run_opts tab ps (rq_oack ?q) (rq_opts ?q))"
      by (rule Cons.IH) (use wf(3) h(3) e Cons.prems(4-7) in simp_all)
    then show ?thesis unfolding s1 s2 by (simp add: p Inr ag)
  qed
qed

lemma find_formats: "find (\<lambda>(name, cv). name = m) formats = map_option (\<lambda>cv. (m, cv)) (map_of formats m)"
  by (simp add: formats_def)

lemma length_lower: "length (map tolower s) = length s"
  by simp

lemma parse_encoded:
  assumes h: "holds (rmem q) 2 (filename @ [NUL] @ mode @ [NUL] @ enc_opts ps)"
    and e: "e = 2 + length (filename @ [NUL] @ mode @ [NUL] @ enc_opts ps)" and le: "e \<le> PKTSIZE"
    and wf: "wf_arg filename" "wf_arg mode" "wf_opts ps"
  shows "abs_req (parse_loop tab rw va rrq w e 2 0 0 0 q) =
           ref_request tab rw va rrq w filename mode ps (rq_oack q) (rq_opts q) (rq_shm q)"
proof -
  let ?b = "rmem q" and ?c1 = "2 + length filename" and ?c2 = "Suc (2 + length filename)"
  let ?c3 = "?c2 + length mode" and ?c4 = "Suc (?c2 + length mode)"
  let ?b1 = "buf_write ?b ?c2 (map tolower mode)"
  let ?q1 = "q\<lparr>rmem := ?b1\<rparr>"
  have hh: "holds ?b 2 (filename @ [NUL])" "holds ?b ?c2 (mode @ [NUL])" "holds ?b ?c4 (enc_opts ps)"
    using h by (simp_all add: holds_append holds_Cons add.assoc)
  have lt: "?c1 < e" "?c3 < e" "?c4 + length (enc_opts ps) = e" using e by simp_all
  note a1 = arg_facts [OF hh(1) wf(1) lt(1) le] and a2 = arg_facts [OF hh(2) wf(2) lt(2) le]
  have hb1: "holds ?b1 2 (filename @ [NUL])" "holds ?b1 ?c4 (enc_opts ps)"
    using hh(1,3) by (simp_all add: holds_write_disjoint)
  have fn: "cstr ?b1 2 = filename" using arg_facts(4) [OF hb1(1) wf(1) lt(1) le] .
  have s1: "parse_loop tab rw va rrq w e 2 0 0 0 q = parse_loop tab rw va rrq w e ?c2 1 0 0 q"
    by (subst parse_loop.simps) (use a1 in \<open>simp add: Let_def\<close>)
  have s2: "parse_loop tab rw va rrq w e ?c2 1 0 0 q =
      (case do_mode rw va rrq w ?c2 q of Inl r \<Rightarrow> r
       | Inr q1 \<Rightarrow> parse_loop tab rw va rrq w e ?c4 2 ?c4 0 q1)"
    by (subst parse_loop.simps) (use a2 in \<open>simp add: Let_def numeral_2_eq_2 split: sum.split\<close>)
  have opts: "abs_req (parse_loop tab rw va rrq w e ?c4 2 ?c4 0 (?q1\<lparr>rq_shm := m, rq_opts := g, rq_pf := Some (cv, f)\<rparr>)) =
      opts_verdict cv f m (run_opts tab ps (rq_oack q) g)" for m g cv f
    using parse_opts [OF wf(3), of "?q1\<lparr>rq_shm := m, rq_opts := g, rq_pf := Some (cv, f)\<rparr>" ?c4 e 2 cv f] hb1(2) lt(3) le
    by simp
  show ?thesis
    unfolding s1 s2 do_mode_def ref_request_def a2(4) Let_def find_formats
    using opts fn
    by (auto split: option.splits rw_result.splits sum.splits prod.splits access_result.splits)
qed


lemma get16_holds:
  assumes "holds b 0 (be16 a @ xs)"
  shows "get16 b 0 = a"
proof -
  have "b 0 = be16 a ! 0" "b 1 = be16 a ! 1"
    using holds_nth [OF assms, of 0] holds_nth [OF assms, of 1] by (simp_all add: nth_append)
  then show ?thesis using be16_join [of a] by (simp add: get16_def)
qed

lemma parse_request_ref:
  assumes "buf_read (xbuf x) 0 sz = encode_request opcode filename mode ps" and "sz \<le> PKTSIZE"
    and "wf_arg filename" and "wf_arg mode" and "wf_opts ps"
  shows "abs_req (parse_request tab rw va sz x) =
    ref_request tab rw va (opcode = RRQ) (xwoo x) filename mode ps
      \<lparr>ackbuf = buf_write (xack x) 0 (be16 OACK), ap = 2\<rparr> (xopts x) (xshm x)"
proof -
  let ?r = "filename @ [NUL] @ mode @ [NUL] @ enc_opts ps"
  have sz: "sz = 2 + length ?r"
    using arg_cong [OF assms(1), of length] by (simp add: encode_request_def)
  have h: "holds (xbuf x) 0 (be16 opcode @ ?r)"
    using assms(1) sz by (simp add: holds_def encode_request_def)
  then have "holds (xbuf x) 2 ?r" by (simp add: holds_append numeral_2_eq_2)
  moreover have "get16 (xbuf x) 0 = opcode" using h by (rule get16_holds)
  ultimately show ?thesis
    unfolding parse_request_def
    using parse_encoded [OF _ sz assms(2-5), of
        "\<lparr>rmem = xbuf x, rq_oack = \<lparr>ackbuf = buf_write (xack x) 0 (be16 OACK), ap = 2\<rparr>,
          rq_opts = xopts x, rq_shm = xshm x, rq_pf = None\<rparr>" tab rw va "opcode = RRQ" "xwoo x"]
    by simp
qed

text \<open>
  C14. The parser understands what clients mean. If the packet buffer holds the encoding of a
  request (opcode, file name, mode, options, each string non-empty, free of NUL and
  terminated by NUL, at most \<open>PKTSIZE\<close> bytes in all), then parsing it in place does what the
  reference says: look up the mode without regard to case, remap the name, check the access,
  and negotiate the options in the order given, stopping at the first refusal with the same
  error, whatever bytes lie behind the request in the buffer.
\<close>

theorem parse_request_refines:
  assumes "buf_read (xbuf x) 0 sz = encode_request opcode filename mode ps" and "sz \<le> PKTSIZE"
    and "wf_arg filename" and "wf_arg mode" and "wf_opts ps"
  shows "abs_req (parse_request tab rw va sz x) =
    ref_request tab rw va (opcode = RRQ) (xwoo x) filename mode ps
      \<lparr>ackbuf = buf_write (xack x) 0 (be16 OACK), ap = 2\<rparr> (xopts x) (xshm x)"
  using assms by (rule parse_request_ref)

text \<open>A concrete request.\<close>

definition ex_request :: "char list" where
  "ex_request = encode_request RRQ ''/tftpboot/abc'' ''Octet'' []"

definition ex_req_xfer :: xfer where
  "ex_req_xfer = (ex_xfer writing)\<lparr>xbuf := mem_of ex_request\<rparr>"

lemma buf_read_mem_of: "buf_read (mem_of xs) 0 (length xs) = xs"
  by (rule nth_equalityI) (simp_all add: mem_of_def)

lemma ex_req_facts:
  "buf_read (xbuf ex_req_xfer) 0 (length ex_request) = encode_request RRQ ''/tftpboot/abc'' ''Octet'' []"
  "length ex_request \<le> PKTSIZE" "wf_arg ''/tftpboot/abc''" "wf_arg ''Octet''" "wf_opts []"
  "map_of formats (map tolower ''Octet'') = Some False"
proof -
  show "buf_read (xbuf ex_req_xfer) 0 (length ex_request) = encode_request RRQ ''/tftpboot/abc'' ''Octet'' []"
    using buf_read_mem_of by (simp add: ex_req_xfer_def ex_request_def)
  show "map_of formats (map tolower ''Octet'') = Some False" by code_simp
qed (simp_all add: ex_request_def encode_request_def enc_opts_def wf_arg_def wf_opts_def)

theorem parse_request_refines_witness:
  "abs_req (parse_request options (\<lambda>f rrq. Some (Rw_null None)) (validate_access ex_cfg ex_open) (length ex_request) ex_req_xfer)
     = A_nak EACCESS None"
  using parse_request_refines [OF ex_req_facts(1-5), of options "\<lambda>f rrq. Some (Rw_null None)" "validate_access ex_cfg ex_open"]
  by (simp add: ref_request_def ex_req_facts(6) del: list.map)

lemma skip_arg_no_NUL:
  "\<forall>i. cp < i \<and> i < e \<longrightarrow> b i \<noteq> NUL \<Longrightarrow> cp < e \<Longrightarrow> skip_arg b cp e = e"
proof (induction b cp e rule: skip_arg.induct)
  case (1 b cp e)
  then show ?case by (subst skip_arg.simps) (auto simp: not_less_eq le_less)
qed


text \<open>
  A datagram that fills the packet buffer and contains no NUL after the opcode makes the
  parser read one byte beyond the buffer.
\<close>

lemma unterminated_request_overread:
  assumes "\<forall>i. 2 \<le> i \<and> i < PKTSIZE \<longrightarrow> xbuf x i \<noteq> NUL"
  shows "tftp tab E rw va cs PKTSIZE x = Some (Faulted Out_of_bounds, x)"
proof -
  have "skip_arg (xbuf x) 2 PKTSIZE = PKTSIZE"
    by (rule skip_arg_no_NUL) (use assms in auto)
  then have "parse_request tab rw va PKTSIZE x = Req_fault Out_of_bounds"
    unfolding parse_request_def by (subst parse_loop.simps) (use assms in simp)
  then show ?thesis by (simp add: tftp_def)
qed

subsection \<open>Access checks leave the transfer parameters alone\<close>

lemma validate_access_opts:
  assumes "validate_access cfg opn rrq convert filename w m g = Inr (Acc_ok f, m', g')"
  shows "segsize g' = segsize g \<and> rollover_val g' = rollover_val g \<and> (opts_inv g \<longrightarrow> opts_inv g') \<and>
    (rrq \<or> fdata f = [] \<and> fpos f = 0)"
proof -
  obtain fd where "check_opened cfg rrq convert fd (g\<lparr>tsize_ok := False\<rparr>) = (Acc_ok f, g')"
    using assms by (auto simp: validate_access_def Let_def split: sum.splits option.splits prod.splits access_result.splits)
  note ok = check_opened_ok [OF this]
  then have "opts_inv g \<Longrightarrow> opts_inv g'" by (simp add: opts_inv_def)
  then show ?thesis using ok by auto
qed

subsection \<open>The option acknowledgement\<close>

lemma run_opts_inv:
  "run_opts tab ps a g = Inr (a', g') \<Longrightarrow> opts_inv g \<Longrightarrow> map snd tab = map snd options \<Longrightarrow> opts_inv g'"
proof (induction tab ps a g rule: run_opts.induct)
  case (2 tab name v ps a g)
  then obtain a1 g1 where d: "do_opt tab name v a g = Inr (a1, g1)" by (auto split: sum.splits)
  then show ?case using 2(1) [OF d refl] 2(2-4) do_opt_inv [OF 2(3, 4) d] by simp
qed simp

text \<open>
  Negotiation appends to the packet the options it accepts, in the order of the request, each
  as the client spelled it and with a decimal value; options it ignores are missing.
\<close>

lemma run_opts_oack:
  "run_opts tab ps a g = Inr (a', g') \<Longrightarrow>
     \<exists>gs. buf_read (ackbuf a') 0 (ap a') = buf_read (ackbuf a) 0 (ap a) @ enc_opts gs \<and>
       subseq (map fst gs) (map fst ps) \<and> (\<forall>(name, v) \<in> set gs. \<exists>u. strtoumax v = (u, [], False)) \<and>
       (ap a' = ap a \<longleftrightarrow> gs = [])"
proof (induction tab ps a g rule: run_opts.induct)
  case (1 tab a g)
  then show ?case by (auto simp: enc_opts_def)
next
  case (2 tab name v ps a g)
  then obtain a1 g1 where d: "do_opt tab name v a g = Inr (a1, g1)" by (auto split: sum.splits)
  have r: "run_opts tab ps a1 g1 = Inr (a', g')" using 2(2) d by simp
  from 2(1) [OF d refl r] obtain gs where gs: "buf_read (ackbuf a') 0 (ap a') = buf_read (ackbuf a1) 0 (ap a1) @ enc_opts gs"
    "subseq (map fst gs) (map fst ps)" "\<forall>(name, v) \<in> set gs. \<exists>u. strtoumax v = (u, [], False)" "ap a' = ap a1 \<longleftrightarrow> gs = []" by blast
  show ?case
  proof (cases "a1 = a")
    case True
    then show ?thesis using gs by (intro exI [of _ gs]) (auto intro: list_emb_Cons)
  next
    case False
    from do_opt_appends [OF d this] obtain u ret where ret: "strtoumax ret = (u, [], False)"
      "buf_read (ackbuf a1) (ap a) (ap a1 - ap a) = name @ [NUL] @ ret @ [NUL]"
      "ap a1 = ap a + length name + length ret + 2" and same: "\<forall>i. i < ap a \<or> ap a1 \<le> i \<longrightarrow> ackbuf a1 i = ackbuf a i"
      by blast
    have "buf_read (ackbuf a1) 0 (ap a1) = buf_read (ackbuf a1) 0 (ap a) @ buf_read (ackbuf a1) (ap a) (ap a1 - ap a)"
      using buf_read_append [of "ackbuf a1" 0 "ap a" "ap a1 - ap a"] ret(3) by (simp add: add.assoc)
    moreover have "buf_read (ackbuf a1) 0 (ap a) = buf_read (ackbuf a) 0 (ap a)"
      using same by (simp add: buf_read_def)
    ultimately have "buf_read (ackbuf a') 0 (ap a') = buf_read (ackbuf a) 0 (ap a) @ enc_opts ((name, ret) # gs)"
      using gs(1) ret(2) by (simp add: enc_opts_def)
    moreover from arg_cong [OF this, of length] have "ap a' \<noteq> ap a" by (simp add: enc_opts_def)
    ultimately show ?thesis using gs(2, 3) ret(1) by (intro exI [of _ "(name, ret) # gs"]) simp
  qed
qed

subsection \<open>Whole requests\<close>

text \<open>The OACK packet of a request, if it has accepted options.\<close>

definition oack_len :: "oack \<Rightarrow> nat option" where
  "oack_len a = (if ap a \<noteq> 2 then Some (ap a) else None)"

abbreviation oack_start :: "xfer \<Rightarrow> oack" where
  "oack_start x \<equiv> \<lparr>ackbuf = buf_write (xack x) 0 (be16 OACK), ap = 2\<rparr>"

lemma oack_start_packet:
  assumes "run_opts tab ps (oack_start x) g = Inr (a, g')"
  shows "\<exists>gs. buf_read (ackbuf a) 0 (ap a) = be16 OACK @ enc_opts gs \<and> subseq (map fst gs) (map fst ps) \<and>
    (\<forall>(name, v) \<in> set gs. \<exists>u. strtoumax v = (u, [], False)) \<and> (oack_len a = None \<longleftrightarrow> gs = [])"
  using run_opts_oack [OF assms] by (auto simp: oack_len_def)

lemma request_accepted:
  assumes "buf_read (xbuf x) 0 sz = encode_request opcode filename mode ps" and "sz \<le> PKTSIZE"
    and "wf_arg filename" and "wf_arg mode" and "wf_opts ps" and "map_of formats (map tolower mode) = Some convert"
    and "rw filename (opcode = RRQ) = Some (Rw_ok name)"
    and "va (opcode = RRQ) convert name (xwoo x) (xshm x) (xopts x) = Inr (Acc_ok f, m, g)"
    and "run_opts tab ps (oack_start x) g = Inr (a, g')"
  shows "\<exists>y. tftp tab E rw va cs sz x = Some (if opcode = WRQ then tftp_recvfile E convert (oack_len a) cs y
                                              else tftp_sendfile E convert (oack_len a) cs y) \<and>
    xopts y = g' \<and> xack y = ackbuf a \<and> xfile y = f \<and> sent y = sent x"
proof -
  have "abs_req (parse_request tab rw va sz x) = A_ok convert f a g' m"
    using parse_request_ref [OF assms(1-5), of tab rw va] assms(6-9)
    by (simp add: ref_request_def opts_verdict_def)
  then obtain q where q: "parse_request tab rw va sz x = Req_ok convert f q"
    "rq_oack q = a" "rq_opts q = g'" "rq_shm q = m"
    by (cases "parse_request tab rw va sz x") auto
  have "get16 (xbuf x) 0 = opcode"
    using assms(1) get16_holds [of "xbuf x" opcode] by (metis encode_request_def holds_def length_buf_read)
  then show ?thesis using q
    by (intro exI [of _ "(sync_req q x)\<lparr>xfile := f\<rparr>"]) (simp add: tftp_def Let_def sync_req_def oack_len_def)
qed

text \<open>
  A read request is served: if it is accepted, the network works and the client
  acknowledges, exactly the OACK (if there are accepted options) and the DATA packets of the
  file in the negotiated block size are sent.
\<close>

lemma read_request_serves:
  assumes "buf_read (xbuf x) 0 sz = encode_request RRQ filename mode ps" and "sz \<le> PKTSIZE"
    and "wf_arg filename" and "wf_arg mode" and "wf_opts ps" and "map_of formats (map tolower mode) = Some convert"
    and "rw filename True = Some (Rw_ok name)"
    and "va True convert name (xwoo x) (xshm x) (xopts x) = Inr (Acc_ok f, m, g)"
    and "run_opts tab ps (oack_start x) g = Inr (a, g')"
    and "\<forall>k. send_ok E k" and "frderr f = None" and "segsize g' = int n" and "0 < n"
    and "pk = data_packets (rollover_val g') 1 (chunks n (mode_enc convert (frest f)))"
    and "oacks = (if oack_len a = None then [] else [buf_read (ackbuf a) 0 (ap a)])"
  shows "\<exists>x'. tftp tab E rw va (oack_replies (oack_len a) @ map ack_for pk) sz x = Some (Finished, x') \<and>
            sent x' = sent x @ oacks @ pk \<and> fclosed x'"
proof -
  have rw: "rw filename (RRQ = RRQ) = Some (Rw_ok name)"
    "va (RRQ = RRQ) convert name (xwoo x) (xshm x) (xopts x) = Inr (Acc_ok f, m, g)" using assms(7, 8) by simp_all
  from request_accepted [where rw = rw and va = va, OF assms(1-6) rw assms(9)]
  obtain y where y: "tftp tab E rw va (oack_replies (oack_len a) @ map ack_for pk) sz x =
      Some (tftp_sendfile E convert (oack_len a) (oack_replies (oack_len a) @ map ack_for pk) y)"
    "xopts y = g'" "xack y = ackbuf a" "xfile y = f" "sent y = sent x" by auto
  have "oack_packets (oack_len a) y = oacks" using assms(15) y(3) by (auto simp: oack_packets_def oack_len_def)
  then show ?thesis
    using tftp_sendfile_completes [OF assms(10), of y n pk convert "oack_len a"] assms(11-14) y by auto
qed

text \<open>
  A write request is served: the file that is closed at the end has exactly the data sent by
  the client, and every packet has been acknowledged, the first reply being the OACK if
  there are accepted options.
\<close>

lemma write_request_serves:
  assumes "buf_read (xbuf x) 0 sz = encode_request WRQ filename mode ps" and "sz \<le> PKTSIZE"
    and "wf_arg filename" and "wf_arg mode" and "wf_opts ps" and "map_of formats (map tolower mode) = Some convert"
    and "rw filename False = Some (Rw_ok name)"
    and "va False convert name (xwoo x) (xshm x) (xopts x) = Inr (Acc_ok f, m, g)"
    and "run_opts tab ps (oack_start x) g = Inr (a, g')"
    and "\<forall>k. send_ok E k" and "fdata f = []" and "fpos f = 0" and "fspace f = None"
    and "segsize g' = int n" and "0 < n" and "n \<le> MAX_SEGSIZE"
    and "pk = data_packets (rollover_val g') 1 (chunks n s)"
    and "first = (if oack_len a = None then be16 ACK @ be16 0 else buf_read (ackbuf a) 0 (ap a))"
  shows "\<exists>x'. tftp tab E rw va (map deliver pk @ [silence]) sz x = Some (Exited 0, x') \<and>
            fdata (xfile x') = mode_dec convert s \<and> fclosed x' \<and> sent x' = sent x @ first # map ack_packet pk"
proof -
  have ne: "WRQ \<noteq> RRQ" by simp
  have rw: "rw filename (WRQ = RRQ) = Some (Rw_ok name)"
    "va (WRQ = RRQ) convert name (xwoo x) (xshm x) (xopts x) = Inr (Acc_ok f, m, g)" using assms(7, 8) by simp_all
  from request_accepted [where rw = rw and va = va, OF assms(1-6) rw assms(9)]
  obtain y where y: "tftp tab E rw va (map deliver pk @ [silence]) sz x =
      Some (tftp_recvfile E convert (oack_len a) (map deliver pk @ [silence]) y)"
    "xopts y = g'" "xack y = ackbuf a" "xfile y = f" "sent y = sent x" by auto
  have "round_reply (oack_len a) 0 y = first" using assms(18) y(3) by (auto simp: round_reply_def oack_len_def)
  then show ?thesis
    using tftp_recvfile_completes [OF assms(10, 15, 16), of y pk s convert "oack_len a"] assms(11-14, 17) y by auto
qed

end
