(* ===== verification/Cmdline.thy ===== *)
theory Cmdline
  imports Getopt Request
begin

text \<open>
  The start of \<open>main\<close> (\<open>tftpd.c\<close>): the option tables, the \<open>switch\<close> of the option loop, the
  directories and the checks that follow. A record holds the globals and the local variables
  the options set; the transfer parameters, the access policy and the table of negotiable
  options are those of the other components. Leaving the program is a value.
\<close>

subsection \<open>Numbers on the command line\<close>

definition digit_val :: "char \<Rightarrow> nat" where
  "digit_val c =
     (let n = of_char c in
      if 48 \<le> n \<and> n \<le> 57 then n - 48
      else if 97 \<le> n \<and> n \<le> 122 then n - 87
      else if 65 \<le> n \<and> n \<le> 90 then n - 55
      else 36)"

fun digits_in :: "nat \<Rightarrow> string \<Rightarrow> nat \<Rightarrow> nat \<times> string" where
  "digits_in b [] acc = (acc, [])"
| "digits_in b (c # cs) acc = (if digit_val c < b then digits_in b cs (acc * b + digit_val c) else (acc, c # cs))"

text \<open>\<open>strtoul(s, &end, base)\<close>: the value and the text at \<open>end\<close>; base 0 looks at the prefix.\<close>

definition strtoul :: "nat \<Rightarrow> string \<Rightarrow> u64 \<times> string" where
  "strtoul base s =
     (let t = dropWhile isspace s;
          neg = (t \<noteq> [] \<and> hd t = CHR ''-'');
          u = (if t \<noteq> [] \<and> (hd t = CHR ''-'' \<or> hd t = CHR ''+'') then tl t else t);
          hex = (take 1 u = ''0'' \<and> (take 1 (tl u) = ''x'' \<or> take 1 (tl u) = ''X'') \<and>
                 drop 2 u \<noteq> [] \<and> digit_val (hd (drop 2 u)) < 16);
          (b, ds) = (if base \<noteq> 0 then (base, u)
                     else if hex then (16, drop 2 u)
                     else if take 1 u = ''0'' then (8, u) else (10, u))
      in if ds = [] \<or> b \<le> digit_val (hd ds) then (0, s)
         else let (n, rest) = digits_in b ds 0
              in ((if 2 ^ 64 \<le> n then - 1 else if neg then - of_nat n else of_nat n), rest))"

text \<open>\<open>atoi\<close>: \<open>strtol\<close> in base 10, stored in an \<open>int\<close>.\<close>

definition atoi :: "string \<Rightarrow> int" where
  "atoi s =
     (let t = dropWhile isspace s;
          neg = (t \<noteq> [] \<and> hd t = CHR ''-'');
          u = (if t \<noteq> [] \<and> (hd t = CHR ''-'' \<or> hd t = CHR ''+'') then tl t else t);
          n = int (fst (parse_digits u 0));
          v = (if neg then max (- (2 ^ 63)) (- n) else min (2 ^ 63 - 1) n)
      in sint (word_of_int v :: u32))"

text \<open>\<open>sscanf(s, "%u:%u", &from, &to)\<close>: the number of conversions and the two variables.\<close>

definition scan_u :: "string \<Rightarrow> (u32 \<times> string) option" where
  "scan_u s = (case strtoumax s of (v, rest, _) \<Rightarrow> if rest = s then None else Some (ucast v, rest))"

definition sscanf_range :: "string \<Rightarrow> u32 \<Rightarrow> u32 \<Rightarrow> int \<times> u32 \<times> u32" where
  "sscanf_range s from to =
     (case scan_u s of
        None \<Rightarrow> (0, from, to)
      | Some (f, rest) \<Rightarrow>
          if rest = [] \<or> hd rest \<noteq> CHR '':'' then (1, f, to)
          else case scan_u (tl rest) of None \<Rightarrow> (1, f, to) | Some (t, _) \<Rightarrow> (2, f, t))"

subsection \<open>The option tables\<close>

abbreviation OPT_VERBOSITY :: int where "OPT_VERBOSITY \<equiv> 256"

definition long_options :: "option_desc list" where
  "long_options = map (\<lambda>(n, a, v). \<lparr>opt_name = n, has_arg = a, flag = None, val = v\<rparr>)
     [(''ipv4'', 0, schar (CHR ''4'')), (''ipv6'', 0, schar (CHR ''6'')), (''create'', 0, schar (CHR ''c'')),
      (''secure'', 0, schar (CHR ''s'')), (''permissive'', 0, schar (CHR ''p'')), (''verbose'', 0, schar (CHR ''v'')),
      (''verbosity'', 1, OPT_VERBOSITY), (''version'', 0, schar (CHR ''V'')), (''listen'', 0, schar (CHR ''l'')),
      (''foreground'', 0, schar (CHR ''L'')), (''address'', 1, schar (CHR ''a'')), (''blocksize'', 1, schar (CHR ''B'')),
      (''user'', 1, schar (CHR ''u'')), (''umask'', 1, schar (CHR ''U'')), (''refuse'', 1, schar (CHR ''r'')),
      (''timeout'', 1, schar (CHR ''t'')), (''retransmit'', 1, schar (CHR ''T'')), (''port-range'', 1, schar (CHR ''R'')),
      (''map-file'', 1, schar (CHR ''m'')), (''pidfile'', 1, schar (CHR ''P''))]"

definition short_options :: string where
  "short_options = ''46cspvVlLa:B:u:U:r:t:T:R:m:P:''"

subsection \<open>The switch\<close>

record config =
  ai_fam :: int
  force_ipv6 :: bool
  standalone :: bool
  nodaemon :: bool
  address :: "string option"
  waittime :: int
  c_opts :: opts
  c_access :: access_cfg
  portrange :: bool
  portrange_from :: u32
  portrange_to :: u32
  user :: string
  my_umask :: u32
  spec_umask :: bool
  c_table :: opt_table
  rewrite_file :: "string option"
  verbosity :: int
  pidfile :: "string option"

definition config_start :: config where
  "config_start = \<lparr>ai_fam = 0, force_ipv6 = False, standalone = False, nodaemon = False, address = None,
     waittime = 900, c_opts = init_opts,
     c_access = \<lparr>secure = False, cancreate = False, unixperms = False, dirs = []\<rparr>,
     portrange = False, portrange_from = 0, portrange_to = 0, user = ''nobody'', my_umask = 0,
     spec_umask = False, c_table = options, rewrite_file = None, verbosity = 0, pidfile = None\<rparr>"

abbreviation EX_USAGE :: int where "EX_USAGE \<equiv> 64"
abbreviation EX_NOINPUT :: int where "EX_NOINPUT \<equiv> 66"
abbreviation EX_NOUSER :: int where "EX_NOUSER \<equiv> 67"
abbreviation EX_OSERR :: int where "EX_OSERR \<equiv> 71"
abbreviation EX_IOERR :: int where "EX_IOERR \<equiv> 74"
abbreviation EX_PROTOCOL :: int where "EX_PROTOCOL \<equiv> 76"
abbreviation EX_CONFIG :: int where "EX_CONFIG \<equiv> 78"

text \<open>How the program stops early: \<open>exit\<close>, or reading a string at the null pointer.\<close>

datatype stop = Exit int | Null_string

definition set_max_blksize :: "string \<Rightarrow> config \<Rightarrow> stop + config" where
  "set_max_blksize arg cf =
     (case strtoumax arg of
        (v, vp, _) \<Rightarrow>
          let mb = (ucast v :: u32)
          in if mb < 512 \<or> of_nat MAX_SEGSIZE < mb \<or> vp \<noteq> [] then Inl (Exit EX_USAGE)
             else Inr (cf\<lparr>c_opts := (c_opts cf)\<lparr>max_blksize := mb\<rparr>\<rparr>))"

definition set_retransmit :: "string \<Rightarrow> config \<Rightarrow> stop + config" where
  "set_retransmit arg cf =
     (case strtoumax arg of
        (tov, vp, _) \<Rightarrow>
          if tov < 10000 \<or> 255000000 < tov \<or> vp \<noteq> [] then Inl (Exit EX_USAGE)
          else Inr (cf\<lparr>c_opts := (c_opts cf)\<lparr>rexmtval := tov, timeout := tov, maxtimeout := tov * TIMEOUT_LIMIT\<rparr>\<rparr>))"

definition set_portrange :: "string \<Rightarrow> config \<Rightarrow> stop + config" where
  "set_portrange arg cf =
     (case sscanf_range arg (portrange_from cf) (portrange_to cf) of
        (n, f, t) \<Rightarrow>
          if n \<noteq> 2 \<or> t < f \<or> 65535 \<le> t then Inl (Exit EX_USAGE)
          else Inr (cf\<lparr>portrange_from := f, portrange_to := t, portrange := True\<rparr>))"

definition set_umask :: "string \<Rightarrow> config \<Rightarrow> stop + config" where
  "set_umask arg cf =
     (case strtoul 8 arg of
        (v, ep) \<Rightarrow>
          if ep \<noteq> [] then Inl (Exit EX_USAGE) else Inr (cf\<lparr>my_umask := ucast v, spec_umask := True\<rparr>))"

text \<open>\<open>-r\<close>: the first entry of that name loses its name.\<close>

fun refuse :: "string \<Rightarrow> opt_table \<Rightarrow> opt_table option" where
  "refuse n [] = None"
| "refuse n ((opt, fnc) # tab) =
     (if strcaseeq n opt then Some (([], fnc) # tab) else map_option (Cons (opt, fnc)) (refuse n tab))"

definition main_option :: "int \<Rightarrow> string option \<Rightarrow> config \<Rightarrow> stop + config" where
  "main_option c oa cf =
     (let arg = (\<lambda>f. case oa of None \<Rightarrow> Inl Null_string | Some v \<Rightarrow> f v)
      in if c = schar (CHR ''4'') then Inr (cf\<lparr>ai_fam := 2\<rparr>)
      else if c = schar (CHR ''6'') then Inr (cf\<lparr>ai_fam := 10, force_ipv6 := True\<rparr>)
      else if c = schar (CHR ''c'') then Inr (cf\<lparr>c_access := (c_access cf)\<lparr>cancreate := True\<rparr>\<rparr>)
      else if c = schar (CHR ''s'') then Inr (cf\<lparr>c_access := (c_access cf)\<lparr>secure := True\<rparr>\<rparr>)
      else if c = schar (CHR ''p'') then Inr (cf\<lparr>c_access := (c_access cf)\<lparr>unixperms := True\<rparr>\<rparr>)
      else if c = schar (CHR ''l'') then Inr (cf\<lparr>standalone := True\<rparr>)
      else if c = schar (CHR ''L'') then Inr (cf\<lparr>standalone := True, nodaemon := True\<rparr>)
      else if c = schar (CHR ''a'') then Inr (cf\<lparr>address := oa\<rparr>)
      else if c = schar (CHR ''t'') then arg (\<lambda>v. Inr (cf\<lparr>waittime := atoi v\<rparr>))
      else if c = schar (CHR ''B'') then arg (\<lambda>v. set_max_blksize v cf)
      else if c = schar (CHR ''T'') then arg (\<lambda>v. set_retransmit v cf)
      else if c = schar (CHR ''R'') then arg (\<lambda>v. set_portrange v cf)
      else if c = schar (CHR ''u'') then arg (\<lambda>v. Inr (cf\<lparr>user := v\<rparr>))
      else if c = schar (CHR ''U'') then arg (\<lambda>v. set_umask v cf)
      else if c = schar (CHR ''r'') then
        arg (\<lambda>v. case refuse v (c_table cf) of None \<Rightarrow> Inl (Exit EX_USAGE) | Some tab \<Rightarrow> Inr (cf\<lparr>c_table := tab\<rparr>))
      else if c = schar (CHR ''m'') then
        (if rewrite_file cf \<noteq> None then Inl (Exit EX_USAGE) else Inr (cf\<lparr>rewrite_file := oa\<rparr>))
      else if c = schar (CHR ''v'') then Inr (cf\<lparr>verbosity := verbosity cf + 1\<rparr>)
      else if c = OPT_VERBOSITY then arg (\<lambda>v. Inr (cf\<lparr>verbosity := atoi v\<rparr>))
      else if c = schar (CHR ''V'') then Inl (Exit 0)
      else if c = schar (CHR ''P'') then Inr (cf\<lparr>pidfile := oa\<rparr>)
      else Inr cf)"

text \<open>The loop and the directories after the options.\<close>

definition main_options :: "string list \<Rightarrow> (stop + config) option" where
  "main_options argv =
     map_option (\<lambda>r. case r of
         Inl e \<Rightarrow> Inl e
       | Inr (cf, st) \<Rightarrow> Inr (cf\<lparr>c_access := (c_access cf)\<lparr>dirs := drop (optind st) argv\<rparr>\<rparr>))
       (getopt_fold main_option argv short_options long_options getopt_start config_start)"

subsection \<open>After the options\<close>

text \<open>
  The file system and the user database: \<open>chdir\<close>, the text of a map file, and the uid and gid
  of a user. The regex compiler is a parameter of the rule parser.
\<close>

record start_env =
  chdir_ok :: "string \<Rightarrow> bool"
  map_text :: "string \<Rightarrow> string option"
  getpwnam :: "string \<Rightarrow> (int \<times> int) option"

text \<open>\<open>read_remap_rules\<close>, with the rule counter of the parser.\<close>

definition read_remap_rules ::
  "(string \<Rightarrow> bool \<Rightarrow> 'rx option) \<Rightarrow> start_env \<Rightarrow> string \<Rightarrow> int \<Rightarrow> stop + ('rx rule list \<times> int)" where
  "read_remap_rules regcomp env path n =
     (case map_text env path of
        None \<Rightarrow> Inl (Exit EX_NOINPUT)
      | Some text \<Rightarrow> (case parserulefile regcomp text n of None \<Rightarrow> Inl (Exit EX_CONFIG) | Some r \<Rightarrow> Inr r))"

definition check_secure :: "start_env \<Rightarrow> config \<Rightarrow> stop option" where
  "check_secure env cf =
     (let ds = dirs (c_access cf)
      in if \<not> secure (c_access cf) then None
         else if length ds = 0 then Some (Exit EX_USAGE)
         else if 1 < length ds then Some (Exit EX_USAGE)
         else if \<not> chdir_ok env (ds ! 0) then Some (Exit EX_NOINPUT)
         else None)"

text \<open>The result: the configuration, the uid and gid to run as, and the rules with their counter.\<close>

definition main_start ::
  "(string \<Rightarrow> bool \<Rightarrow> 'rx option) \<Rightarrow> start_env \<Rightarrow> config \<Rightarrow> stop + (config \<times> (int \<times> int) \<times> 'rx rule list \<times> int)" where
  "main_start regcomp env cf =
     (case check_secure env cf of
        Some e \<Rightarrow> Inl e
      | None \<Rightarrow>
     (case getpwnam env (user cf) of
        None \<Rightarrow> Inl (Exit EX_NOUSER)
      | Some pw \<Rightarrow>
     (case (case rewrite_file cf of None \<Rightarrow> Inr ([], 0) | Some f \<Rightarrow> read_remap_rules regcomp env f 0) of
        Inl e \<Rightarrow> Inl e
      | Inr (rules, n) \<Rightarrow>
          Inr ((if pidfile cf \<noteq> None \<and> \<not> standalone cf then cf\<lparr>pidfile := None\<rparr> else cf), pw, rules, n))))"

subsection \<open>What the options guarantee\<close>

definition config_ok :: "config \<Rightarrow> bool" where
  "config_ok cf = (opts_inv (c_opts cf) \<and> segsize (c_opts cf) = SEGSIZE \<and> map snd (c_table cf) = map snd options \<and>
     portrange_from cf \<le> portrange_to cf \<and> unat (portrange_to cf) < 65535)"

lemma config_start_ok: "config_ok config_start"
  using init_opts_inv by (simp add: config_ok_def config_start_def init_opts_def)

lemma set_max_blksize_ok:
  assumes "config_ok cf" and "set_max_blksize v cf = Inr cf'"
  shows "config_ok cf'"
proof -
  obtain mb :: u32 where "512 \<le> mb" "mb \<le> of_nat MAX_SEGSIZE" and cf': "cf' = cf\<lparr>c_opts := (c_opts cf)\<lparr>max_blksize := mb\<rparr>\<rparr>"
    using assms(2) by (auto simp: set_max_blksize_def Let_def not_less split: prod.splits if_splits)
  then have mb: "512 \<le> unat mb" "unat mb \<le> MAX_SEGSIZE" by (simp_all add: word_le_nat_alt)
  then have "int 512 \<le> int (unat mb)" by (simp only: of_nat_le_iff)
  then show ?thesis using assms(1) mb by (simp add: cf' config_ok_def opts_inv_def)
qed

lemma set_retransmit_ok:
  assumes "config_ok cf" and "set_retransmit v cf = Inr cf'"
  shows "config_ok cf'"
proof -
  obtain t :: u64 where t: "10000 \<le> t" "t \<le> 255000000"
    and cf': "cf' = cf\<lparr>c_opts := (c_opts cf)\<lparr>rexmtval := t, timeout := t, maxtimeout := t * TIMEOUT_LIMIT\<rparr>\<rparr>"
    using assms(2) by (auto simp: set_retransmit_def not_less split: prod.splits if_splits)
  then have u: "10000 \<le> unat t" "unat t \<le> 255000000" by (simp_all add: word_le_nat_alt)
  then have "unat (t * TIMEOUT_LIMIT) = 63 * unat t" by (simp add: unat_word_ariths(2) take_bit_nat_eq_self)
  then show ?thesis using assms(1) u by (simp add: cf' config_ok_def opts_inv_def)
qed

lemma set_portrange_ok: "config_ok cf \<Longrightarrow> set_portrange v cf = Inr cf' \<Longrightarrow> config_ok cf'"
  by (auto simp: set_portrange_def config_ok_def not_less word_less_nat_alt word_le_nat_alt not_le split: prod.splits if_splits)

lemma set_umask_ok: "config_ok cf \<Longrightarrow> set_umask v cf = Inr cf' \<Longrightarrow> config_ok cf'"
  by (auto simp: set_umask_def config_ok_def split: prod.splits if_splits)

lemma refuse_handlers: "refuse n tab = Some tab' \<Longrightarrow> map snd tab' = map snd tab"
  by (induction n tab arbitrary: tab' rule: refuse.induct) (auto split: if_splits)

lemma config_ok_other:
  "config_ok cf \<Longrightarrow> c_opts cf' = c_opts cf \<Longrightarrow> c_table cf' = c_table cf \<Longrightarrow> portrange_from cf' = portrange_from cf \<Longrightarrow>
     portrange_to cf' = portrange_to cf \<Longrightarrow> config_ok cf'"
  by (simp add: config_ok_def)

lemma main_option_ok:
  assumes ok: "config_ok cf" and r: "main_option c oa cf = Inr cf'"
  shows "config_ok cf'"
proof (cases "c \<in> {schar (CHR ''B''), schar (CHR ''T''), schar (CHR ''R''), schar (CHR ''U''), schar (CHR ''r'')}")
  case True
  then obtain v where v: "oa = Some v" using r by (cases oa) (auto simp: main_option_def schar_inj)
  from True consider "c = schar (CHR ''B'')" | "c = schar (CHR ''T'')" | "c = schar (CHR ''R'')"
    | "c = schar (CHR ''U'')" | "c = schar (CHR ''r'')" by blast
  then show ?thesis
  proof cases
    case 1
    then show ?thesis using set_max_blksize_ok [OF ok] r v by (simp add: main_option_def schar_inj)
  next
    case 2
    then show ?thesis using set_retransmit_ok [OF ok] r v by (simp add: main_option_def schar_inj)
  next
    case 3
    then show ?thesis using set_portrange_ok [OF ok] r v by (simp add: main_option_def schar_inj)
  next
    case 4
    then show ?thesis using set_umask_ok [OF ok] r v by (simp add: main_option_def schar_inj)
  next
    case 5
    then obtain tab where "refuse v (c_table cf) = Some tab" "cf' = cf\<lparr>c_table := tab\<rparr>"
      using r v by (auto simp: main_option_def schar_inj split: option.splits)
    then show ?thesis using ok refuse_handlers by (simp add: config_ok_def)
  qed
next
  case False
  then show ?thesis using r by (intro config_ok_other [OF ok]) (auto simp: main_option_def split: if_splits option.splits)
qed

lemma main_options_returns: "argv \<noteq> [] \<Longrightarrow> \<exists>r. main_options argv = Some r"
  using getopt_fold_returns [of argv main_option short_options long_options config_start] by (auto simp: main_options_def)

lemma main_options_ok:
  assumes "main_options argv = Some (Inr cf)"
  shows "config_ok cf"
proof -
  let ?g = "getopt_fold main_option argv short_options long_options getopt_start config_start"
  obtain r where r: "?g = Some r"
    and cf: "(case r of Inl e \<Rightarrow> Inl e | Inr (cf, st) \<Rightarrow> Inr (cf\<lparr>c_access := (c_access cf)\<lparr>dirs := drop (optind st) argv\<rparr>\<rparr>)) = Inr cf"
    using assms by (auto simp: main_options_def)
  then obtain c st where g: "?g = Some (Inr (c, st))" and cf: "cf = c\<lparr>c_access := (c_access c)\<lparr>dirs := drop (optind st) argv\<rparr>\<rparr>"
    by (cases r) auto
  have "config_ok c"
    using getopt_fold_keeps [of config_ok main_option argv short_options long_options] main_option_ok config_start_ok g by blast
  then show ?thesis by (simp add: cf config_ok_def)
qed

text \<open>
  C35. Whatever the command line, the option loop ends, and the server goes on only with sane
  settings: a maximal block size between 512 and 65464, a retransmission time between 10 ms
  and 255 s with the overall limit 63 times it, a port range whose ends are in order and
  below 65535 (0 and 0 if none is given), and an option table in which entries have at most
  lost their names. These are the conditions under which negotiation keeps the transfer
  parameters in range.
\<close>

theorem main_options_bounds:
  assumes "argv \<noteq> []"
  shows "\<exists>r. main_options argv = Some r \<and> (\<forall>cf. r = Inr cf \<longrightarrow>
    opts_inv (c_opts cf) \<and> segsize (c_opts cf) = SEGSIZE \<and> map snd (c_table cf) = map snd options \<and>
    unat (portrange_from cf) \<le> unat (portrange_to cf) \<and> unat (portrange_to cf) < 65535)"
  using main_options_returns [OF assms] main_options_ok by (auto simp: config_ok_def word_le_nat_alt)

theorem main_options_bounds_witness:
  "\<exists>r. main_options [''woo-tftpd'', ''-l'', ''-s'', ''-B'', ''1468'', ''/srv''] = Some r"
  using main_options_bounds [of "[''woo-tftpd'', ''-l'', ''-s'', ''-B'', ''1468'', ''/srv'']"] by blast

text \<open>An option refused with \<open>-r\<close> is not negotiated any more: it is ignored, however it is spelled.\<close>

lemma refuse_not_found:
  "refuse n tab = Some tab' \<Longrightarrow> distinct (map (map tolower \<circ> fst) tab) \<Longrightarrow> map tolower n = map tolower opt \<Longrightarrow>
     opt \<noteq> [] \<Longrightarrow> find (\<lambda>(name, fnc). strcaseeq name opt) tab' = None"
proof (induction n tab arbitrary: tab' rule: refuse.induct)
  case (2 n o' fnc tab)
  have "find (\<lambda>(name, fnc). strcaseeq name opt) tab = None" if "strcaseeq n o'"
    using 2(3, 4) that by (force simp: find_None_iff strcaseeq_def)
  then show ?case using 2 by (auto simp: strcaseeq_def split: if_splits)
qed simp

lemma refused_option_ignored:
  assumes "refuse n options = Some tab" and "strcaseeq n opt"
  shows "do_opt tab opt v a g = Inr (a, g\<lparr>blksize_set := False\<rparr>)"
proof (cases "opt = []")
  case True
  then show ?thesis by (simp add: do_opt_def)
next
  case False
  have "distinct (map (map tolower \<circ> fst) options)" by (simp add: options_def tolower_def)
  then have "find (\<lambda>(name, fnc). strcaseeq name opt) tab = None"
    using refuse_not_found [OF assms(1)] assms(2) False by (simp add: strcaseeq_def)
  then show ?thesis by (simp add: do_opt_def Let_def split: prod.split)
qed

text \<open>The maximal block size is cut to 32 bits before it is checked.\<close>

lemma blocksize_wraps:
  "set_max_blksize ''4294967808'' config_start = Inr (config_start\<lparr>c_opts := init_opts\<lparr>max_blksize := 512\<rparr>\<rparr>)"
proof -
  have "strtoumax ''4294967808'' = (4294967808, [], False)"
    by (simp add: strtoumax_def isspace_def isdigit_def)
  then show ?thesis by (simp add: set_max_blksize_def config_start_def)
qed

end
