(* ===== verification/Process.thy ===== *)
theory Process
  imports Cmdline
begin

text \<open>
  The process of the server as the operating system sees it: its open descriptors, working
  directory and session, and its signal dispositions. On these work the replacements
  \<open>lib/dup2.c\<close>, \<open>lib/daemon.c\<close> and \<open>lib/bsdsignal.c\<close>, the wrapper \<open>set_signal\<close> and the
  allocation wrappers of \<open>tftpd/misc.c\<close>, \<open>lib/xmalloc.c\<close> and \<open>lib/xstrdup.c\<close>. The table of
  descriptors has the length of the process's limit; \<open>open\<close> and \<open>dup\<close> take the lowest free
  descriptor.
\<close>

subsection \<open>Descriptors\<close>

type_synonym 'f fdtab = "'f option list"

definition fd_open :: "'f fdtab \<Rightarrow> int \<Rightarrow> bool" where
  "fd_open t fd = (0 \<le> fd \<and> nat fd < length t \<and> t ! nat fd \<noteq> None)"

definition lowest_free :: "'f fdtab \<Rightarrow> nat option" where
  "lowest_free t = find (\<lambda>i. t ! i = None) [0 ..< length t]"

definition sys_close :: "int \<Rightarrow> 'f fdtab \<Rightarrow> 'f fdtab" where
  "sys_close fd t = (if fd_open t fd then t[nat fd := None] else t)"

definition sys_open :: "'f \<Rightarrow> 'f fdtab \<Rightarrow> int \<times> 'f fdtab" where
  "sys_open f t = (case lowest_free t of None \<Rightarrow> (- 1, t) | Some k \<Rightarrow> (int k, t[k := Some f]))"

definition sys_dup :: "int \<Rightarrow> 'f fdtab \<Rightarrow> int \<times> 'f fdtab" where
  "sys_dup fd t =
     (if \<not> fd_open t fd then (- 1, t)
      else case lowest_free t of None \<Rightarrow> (- 1, t) | Some k \<Rightarrow> (int k, t[k := t ! nat fd]))"

definition free_count :: "'f fdtab \<Rightarrow> nat" where
  "free_count t = count_list t None"

lemma lowest_free_Some:
  "lowest_free t = Some k \<Longrightarrow> k < length t \<and> t ! k = None \<and> (\<forall>j < k. t ! j \<noteq> None)"
  by (auto simp: lowest_free_def find_Some_iff)

lemma lowest_free_None: "lowest_free t = None \<longleftrightarrow> None \<notin> set t"
  by (auto simp: lowest_free_def find_None_iff in_set_conv_nth)

lemma free_count_use: "k < length t \<Longrightarrow> t ! k = None \<Longrightarrow> v \<noteq> None \<Longrightarrow> free_count (t[k := v]) < free_count t"
  unfolding free_count_def
proof (induction t arbitrary: k)
  case (Cons a t)
  then show ?case by (cases k) auto
qed simp

lemma sys_dup_cases:
  assumes "sys_dup fd t = (rv, t')" and "0 \<le> rv"
  shows "fd_open t fd" "lowest_free t = Some (nat rv)" "t' = t[nat rv := t ! nat fd]"
  using assms by (auto simp: sys_dup_def split: if_splits option.splits)

lemma length_sys_close [simp]: "length (sys_close fd t) = length t"
  by (simp add: sys_close_def)

lemma fd_open_close: "fd_open (sys_close a t) b \<longleftrightarrow> fd_open t b \<and> a \<noteq> b"
  by (auto simp: sys_close_def fd_open_def nth_list_update split: if_splits)

text \<open>\<open>dup2\<close> of the library directory: it calls itself until \<open>dup\<close> returns the right number.\<close>

function dup2 :: "int \<Rightarrow> int \<Rightarrow> 'f fdtab \<Rightarrow> int \<times> 'f fdtab" where
  "dup2 oldfd newfd t =
     (case sys_dup oldfd (sys_close newfd t) of
        (rv, t1) \<Rightarrow>
          if 0 \<le> rv \<and> rv \<noteq> newfd then
            (case dup2 oldfd newfd t1 of (rv1, t2) \<Rightarrow> (rv1, sys_close rv t2))
          else (rv, t1))"
  by pat_completeness auto

lemma dup2_decreases:
  assumes "sys_dup oldfd (sys_close newfd t) = (rv, t1)" and "0 \<le> rv" and "rv \<noteq> newfd"
  shows "free_count (sys_close newfd t1) < free_count (sys_close newfd t)"
proof -
  let ?t = "sys_close newfd t"
  note d = sys_dup_cases [OF assms(1, 2)]
  note k = lowest_free_Some [OF d(2)]
  have "\<not> fd_open t1 newfd"
    using d(3) k assms(2, 3) fd_open_close [of newfd t newfd] by (auto simp: fd_open_def nth_list_update)
  then have "sys_close newfd t1 = ?t[nat rv := ?t ! nat oldfd]" using d(3) by (simp add: sys_close_def)
  then show ?thesis using free_count_use [of "nat rv" ?t "?t ! nat oldfd"] k d(1) by (simp add: fd_open_def)
qed

termination dup2
  by (relation "measure (\<lambda>(oldfd, newfd, t). free_count (sys_close newfd t))") (auto intro: dup2_decreases [OF sym])

declare dup2.simps [simp del]

text \<open>What POSIX says \<open>dup2\<close> does.\<close>

definition posix_dup2 :: "int \<Rightarrow> int \<Rightarrow> 'f fdtab \<Rightarrow> int \<times> 'f fdtab" where
  "posix_dup2 oldfd newfd t =
     (if \<not> fd_open t oldfd \<or> newfd < 0 \<or> length t \<le> nat newfd then (- 1, t)
      else if oldfd = newfd then (newfd, t)
      else (newfd, t[nat newfd := t ! nat oldfd]))"


lemma fd_open_bound: "fd_open t fd \<Longrightarrow> 0 \<le> fd \<and> nat fd < length t"
  by (simp add: fd_open_def)

lemma sys_close_closed: "\<not> fd_open t fd \<Longrightarrow> sys_close fd t = t"
  by (simp add: sys_close_def)

text \<open>The recursion, once \<open>newfd\<close> is closed: the descriptors it opens on the way are closed again.\<close>

lemma dup2_fresh:
  "fd_open t oldfd \<Longrightarrow> \<not> fd_open t newfd \<Longrightarrow>
     dup2 oldfd newfd t = (if 0 \<le> newfd \<and> nat newfd < length t then (newfd, t[nat newfd := t ! nat oldfd]) else (- 1, t))"
proof (induction oldfd newfd t rule: dup2.induct)
  case (1 oldfd newfd t)
  note op = 1(2) and cl = 1(3)
  have c: "sys_close newfd t = t" by (rule sys_close_closed [OF cl])
  show ?case
  proof (cases "lowest_free t")
    case None
    have "\<not> (0 \<le> newfd \<and> nat newfd < length t)"
      using None cl unfolding lowest_free_None fd_open_def by (metis nth_mem)
    then show ?thesis using op c None by (subst dup2.simps) (auto simp: sys_dup_def)
  next
    case (Some k)
    note k = lowest_free_Some [OF Some]
    let ?t1 = "t[k := t ! nat oldfd]"
    have d: "sys_dup oldfd t = (int k, ?t1)" using op Some by (simp add: sys_dup_def)
    show ?thesis
    proof (cases "int k = newfd")
      case True
      then show ?thesis using c d k by (subst dup2.simps) auto
    next
      case False
      have ko: "k \<noteq> nat oldfd" using k op by (auto simp: fd_open_def)
      have op1: "fd_open ?t1 oldfd" using op ko by (simp add: fd_open_def)
      have cl1: "\<not> fd_open ?t1 newfd" using cl False by (auto simp: fd_open_def nth_list_update)
      have d1: "(int k, ?t1) = sys_dup oldfd (sys_close newfd t)" using c d by simp
      have ih: "dup2 oldfd newfd ?t1 =
          (if 0 \<le> newfd \<and> nat newfd < length ?t1 then (newfd, ?t1[nat newfd := ?t1 ! nat oldfd]) else (- 1, ?t1))"
        using 1(1) [OF d1 _ op1 cl1] False by simp
      have undo: "sys_close (int k) ?t1 = t"
        using k op by (simp add: sys_close_def fd_open_def) (metis list_update_id)
      have undo2: "sys_close (int k) (?t1[nat newfd := t ! nat oldfd]) = t[nat newfd := t ! nat oldfd]" if "0 \<le> newfd"
      proof -
        have "nat newfd \<noteq> k" using False that by auto
        then have "?t1[nat newfd := t ! nat oldfd] = (t[nat newfd := t ! nat oldfd])[k := t ! nat oldfd]"
          by (simp add: list_update_swap)
        moreover have "(t[nat newfd := t ! nat oldfd]) ! k = None" using k \<open>nat newfd \<noteq> k\<close> by simp
        ultimately show ?thesis using k op
          by (simp add: sys_close_def fd_open_def) (metis list_update_id)
      qed
      show ?thesis using ih undo undo2 c d False ko by (subst dup2.simps) auto
    qed
  qed
qed

subsection \<open>Going into the background\<close>

text \<open>The process: its descriptors, working directory, number, and whether it leads a session.\<close>

record 'f proc =
  p_fds :: "'f fdtab"
  p_cwd :: string
  p_pid :: int
  p_leader :: bool

datatype fork_result = Fork_fails | In_parent | In_child int

record 'f daemon_env =
  d_chdir :: bool
  d_null :: "'f option"
  d_fork :: fork_result
  d_setsid :: bool

datatype 'f daemon_out = Returns int "'f proc" | Exits int

text \<open>
  The descriptors 0, 1 and 2 become \<open>/dev/null\<close>: whether all calls worked, and the table. The
  condition stops at the first call that fails and then leaves \<open>nullfd\<close> open.
\<close>

definition redirect ::
  "(int \<Rightarrow> int \<Rightarrow> 'f fdtab \<Rightarrow> int \<times> 'f fdtab) \<Rightarrow> 'f option \<Rightarrow> 'f fdtab \<Rightarrow> bool \<times> 'f fdtab" where
  "redirect dp null t =
     (case (case null of None \<Rightarrow> (- 1, t) | Some f \<Rightarrow> sys_open f t) of
        (nullfd, t0) \<Rightarrow>
          if nullfd < 0 then (False, t0)
          else case dp nullfd 0 t0 of (r0, t1) \<Rightarrow>
          if r0 < 0 then (False, t1)
          else case dp nullfd 1 t1 of (r1, t2) \<Rightarrow>
          if r1 < 0 then (False, t2)
          else case dp nullfd 2 t2 of (r2, t3) \<Rightarrow>
          if r2 < 0 then (False, t3)
          else (True, sys_close nullfd t3))"

definition daemon ::
  "(int \<Rightarrow> int \<Rightarrow> 'f fdtab \<Rightarrow> int \<times> 'f fdtab) \<Rightarrow> 'f daemon_env \<Rightarrow> bool \<Rightarrow> bool \<Rightarrow> 'f proc \<Rightarrow> 'f daemon_out" where
  "daemon dp env nochdir noclose p =
     (if \<not> nochdir \<and> \<not> d_chdir env then Returns (- 1) p
      else let p1 = (if nochdir then p else p\<lparr>p_cwd := ''/''\<rparr>)
      in case (if noclose then (True, p_fds p1) else redirect dp (d_null env) (p_fds p1)) of
           (ok, t) \<Rightarrow>
             let p2 = p1\<lparr>p_fds := t\<rparr>
             in if \<not> ok then Returns (- 1) p2
                else case d_fork env of
                       Fork_fails \<Rightarrow> Returns (- 1) p2
                     | In_parent \<Rightarrow> Exits 0
                     | In_child pid \<Rightarrow>
                         if d_setsid env then Returns pid (p2\<lparr>p_pid := pid, p_leader := True\<rparr>)
                         else Returns (- 1) (p2\<lparr>p_pid := pid, p_leader := False\<rparr>))"

subsection \<open>Signals\<close>

datatype handler = SIG_DFL | SIG_IGN | Handle_exit | Handle_sighup

record sigaction =
  sa_handler :: handler
  sa_mask :: "int set"
  sa_flags :: "int set"

text \<open>The dispositions, and which signals the kernel lets a process change.\<close>

type_synonym sigtab = "int \<Rightarrow> sigaction"

abbreviation SIGHUP :: int where "SIGHUP \<equiv> 1"
abbreviation SIGINT :: int where "SIGINT \<equiv> 2"
abbreviation SIGTERM :: int where "SIGTERM \<equiv> 15"
abbreviation SIGCHLD :: int where "SIGCHLD \<equiv> 17"
abbreviation SA_NOCLDSTOP :: int where "SA_NOCLDSTOP \<equiv> 0"
abbreviation SA_NOCLDWAIT :: int where "SA_NOCLDWAIT \<equiv> 1"
abbreviation SA_RESTART :: int where "SA_RESTART \<equiv> 28"

definition set_signal :: "(int \<Rightarrow> bool) \<Rightarrow> int \<Rightarrow> handler \<Rightarrow> int set \<Rightarrow> sigtab \<Rightarrow> stop + sigtab" where
  "set_signal ok signum h flags tab =
     (if \<not> ok signum then Inl (Exit EX_OSERR)
      else Inr (tab(signum := \<lparr>sa_handler = h, sa_mask = {}, sa_flags = flags\<rparr>)))"

text \<open>The result \<open>None\<close> is \<open>SIG_ERR\<close>.\<close>

definition bsd_signal :: "(int \<Rightarrow> bool) \<Rightarrow> int \<Rightarrow> handler \<Rightarrow> sigtab \<Rightarrow> handler option \<times> sigtab" where
  "bsd_signal ok signum h tab =
     (if \<not> ok signum then (None, tab)
      else (Some (sa_handler (tab signum)),
            tab(signum := \<lparr>sa_handler = h, sa_mask = {signum}, sa_flags = {SA_RESTART}\<rparr>)))"

subsection \<open>Memory\<close>

text \<open>\<open>malloc\<close> and \<open>strdup\<close> give an address or nothing; the wrappers never give nothing.\<close>

definition tfmalloc :: "(nat \<Rightarrow> nat option) \<Rightarrow> nat \<Rightarrow> stop + nat" where
  "tfmalloc malloc sz = (case malloc sz of None \<Rightarrow> Inl (Exit EX_OSERR) | Some p \<Rightarrow> Inr p)"

definition tfstrdup :: "(string \<Rightarrow> nat option) \<Rightarrow> string \<Rightarrow> stop + nat" where
  "tfstrdup strdup str = (case strdup str of None \<Rightarrow> Inl (Exit EX_OSERR) | Some p \<Rightarrow> Inr p)"

definition xmalloc :: "(nat \<Rightarrow> nat option) \<Rightarrow> nat \<Rightarrow> stop + nat" where
  "xmalloc malloc sz = (case malloc sz of None \<Rightarrow> Inl (Exit 128) | Some p \<Rightarrow> Inr p)"

definition xstrdup :: "(string \<Rightarrow> nat option) \<Rightarrow> string \<Rightarrow> stop + nat" where
  "xstrdup strdup str = (case strdup str of None \<Rightarrow> Inl (Exit 128) | Some p \<Rightarrow> Inr p)"

subsection \<open>What they do\<close>

lemma dup2_cases_of:
  "dup2 oldfd newfd t =
     (if fd_open t oldfd \<and> oldfd \<noteq> newfd then posix_dup2 oldfd newfd t else (- 1, sys_close newfd t))"
proof (cases "fd_open t oldfd \<and> oldfd \<noteq> newfd")
  case True
  let ?t = "sys_close newfd t"
  have step: "dup2 oldfd newfd t = dup2 oldfd newfd ?t"
    by (subst (1 2) dup2.simps) (simp add: sys_close_closed fd_open_close)
  have "fd_open ?t oldfd" "\<not> fd_open ?t newfd" using True by (auto simp: fd_open_close)
  from dup2_fresh [OF this] have r: "dup2 oldfd newfd t =
      (if 0 \<le> newfd \<and> nat newfd < length t then (newfd, ?t[nat newfd := ?t ! nat oldfd]) else (- 1, ?t))"
    by (simp add: step)
  have "?t[nat newfd := ?t ! nat oldfd] = t[nat newfd := t ! nat oldfd]" if "0 \<le> newfd"
    using True that by (auto simp: sys_close_def fd_open_def nth_list_update)
  moreover have "?t = t" if "\<not> (0 \<le> newfd \<and> nat newfd < length t)" using that by (auto simp: sys_close_def fd_open_def)
  ultimately show ?thesis using r True by (auto simp: posix_dup2_def)
next
  case False
  then have "\<not> fd_open (sys_close newfd t) oldfd" by (simp add: fd_open_close)
  then show ?thesis using False by (subst dup2.simps) (auto simp: sys_dup_def)
qed


text \<open>
  C13. The replacement \<open>dup2\<close> always returns, although it calls itself without a visible bound.
  For an open descriptor and a different target it does what POSIX asks: the target refers
  to the same file and every other descriptor, those opened on the way included, is as
  before; a target beyond the limit is refused and nothing changes. Otherwise it differs
  from POSIX: it fails with the target closed, also when both descriptors are the same.
\<close>

theorem dup2_meaning:
  "dup2 oldfd newfd t =
     (if fd_open t oldfd \<and> oldfd \<noteq> newfd then posix_dup2 oldfd newfd t else (- 1, sys_close newfd t))"
  by (rule dup2_cases_of)

text \<open>The contract of \<open>dup2\<close> that \<open>daemon\<close> needs; POSIX and the replacement keep it.\<close>

locale dup2_call =
  fixes dp :: "int \<Rightarrow> int \<Rightarrow> 'f fdtab \<Rightarrow> int \<times> 'f fdtab"
  assumes dup2_other: "fd_open t oldfd \<Longrightarrow> oldfd \<noteq> newfd \<Longrightarrow> dp oldfd newfd t = posix_dup2 oldfd newfd t"
begin

lemma dup2_to:
  "fd_open t oldfd \<Longrightarrow> k < length t \<Longrightarrow> oldfd \<noteq> int k \<Longrightarrow> dp oldfd (int k) t = (int k, t[k := t ! nat oldfd])"
  by (simp add: dup2_other posix_dup2_def)

text \<open>With the first three descriptors open, nothing but them changes.\<close>

lemma redirect_open:
  assumes "\<forall>k < 3. fd_open t (int k)" and "lowest_free t \<noteq> None"
  shows "redirect dp (Some f) t = (True, t[0 := Some f, 1 := Some f, 2 := Some f])"
proof -
  obtain n where n: "lowest_free t = Some n" using assms(2) by blast
  note k = lowest_free_Some [OF n]
  have n3: "3 \<le> n" using assms(1) k by (force simp: fd_open_def not_less [symmetric])
  let ?t0 = "t[n := Some f]" let ?t1 = "?t0[0 := Some f]" let ?t2 = "?t1[1 := Some f]" let ?t3 = "?t2[2 := Some f]"
  have op: "fd_open ?t0 (int n)" "fd_open ?t1 (int n)" "fd_open ?t2 (int n)" using k n3 by (simp_all add: fd_open_def)
  have d: "dp (int n) 0 ?t0 = (0, ?t1)" "dp (int n) 1 ?t1 = (1, ?t2)" "dp (int n) 2 ?t2 = (2, ?t3)"
    using dup2_to [OF op(1), of 0] dup2_to [OF op(2), of 1] dup2_to [OF op(3), of 2] k n3 by fastforce+
  have "sys_close (int n) ?t3 = t[0 := Some f, 1 := Some f, 2 := Some f]"
  proof -
    let ?T = "t[0 := Some f, 1 := Some f, 2 := Some f]"
    have "?t3 = ?T[n := Some f]" using n3 by (simp add: list_update_swap)
    moreover have "?T[n := None] = ?T" using list_update_id [of ?T n] k n3 by simp
    ultimately show ?thesis using k by (simp add: sys_close_def fd_open_def)
  qed
  then show ?thesis using n d by (simp add: redirect_def sys_open_def)
qed

lemma redirect_true:
  assumes "redirect dp null t = (True, t')" and "\<forall>k < 3. fd_open t (int k)"
  shows "\<exists>f. null = Some f \<and> t' = t[0 := Some f, 1 := Some f, 2 := Some f]"
proof -
  obtain f where f: "null = Some f" using assms(1) by (cases null) (simp_all add: redirect_def)
  then have "lowest_free t \<noteq> None" using assms(1) by (auto simp: redirect_def sys_open_def split: option.splits)
  then show ?thesis using redirect_open [OF assms(2), of f] assms(1) f by simp
qed

lemma daemon_returns:
  assumes "daemon dp env nochdir noclose p = Returns r p'" and "0 \<le> r" and "\<forall>k < 3. fd_open (p_fds p) (int k)"
  shows "d_fork env = In_child r \<and> p_pid p' = r \<and> p_leader p' \<and> p_cwd p' = (if nochdir then p_cwd p else ''/'') \<and>
    (if noclose then p_fds p' = p_fds p
     else \<exists>f. d_null env = Some f \<and> p_fds p' = (p_fds p)[0 := Some f, 1 := Some f, 2 := Some f])"
proof -
  let ?p1 = "if nochdir then p else p\<lparr>p_cwd := ''/''\<rparr>"
  obtain ok t where io: "(if noclose then (True, p_fds ?p1) else redirect dp (d_null env) (p_fds ?p1)) = (ok, t)"
    by (metis surj_pair)
  have f: "p_fds ?p1 = p_fds p" by simp
  have ok: "ok" and fork: "d_fork env = In_child r" and p': "p' = (?p1\<lparr>p_fds := t\<rparr>)\<lparr>p_pid := r, p_leader := True\<rparr>"
    using assms(1, 2) io by (auto simp: daemon_def Let_def split: if_splits fork_result.splits)
  have "if noclose then t = p_fds p else \<exists>f. d_null env = Some f \<and> t = (p_fds p)[0 := Some f, 1 := Some f, 2 := Some f]"
    using io ok redirect_true [of "d_null env" "p_fds p" t] assms(3) by (simp add: f split: if_splits)
  then show ?thesis using fork p' by auto
qed

end

interpretation posix_dup: dup2_call posix_dup2
  by unfold_locales simp

lemma dup2_eq_posix: "fd_open t oldfd \<Longrightarrow> oldfd \<noteq> newfd \<Longrightarrow> dup2 oldfd newfd t = posix_dup2 oldfd newfd t"
  using dup2_cases_of [of oldfd newfd t] by simp

interpretation lib_dup: dup2_call dup2
  by unfold_locales (rule dup2_eq_posix)


text \<open>
  C12. A server in the background. When \<open>daemon\<close> returns without an error, in a process that
  was started with its standard descriptors open, it returns in the forked child, which
  leads its own session; the working directory is the root unless the caller asked to keep
  it; the standard descriptors are \<open>/dev/null\<close>; and every other descriptor, the listening
  sockets among them, refers to what it did before.
\<close>

theorem daemon_background:
  assumes "daemon dup2 env nochdir False p = Returns r p'" and "0 \<le> r" and "\<forall>k < 3. fd_open (p_fds p) (int k)"
  shows "d_fork env = In_child r \<and> p_leader p' \<and> p_cwd p' = (if nochdir then p_cwd p else ''/'') \<and>
    (\<exists>f. d_null env = Some f \<and> (\<forall>k < 3. p_fds p' ! k = Some f)) \<and>
    (\<forall>k. 3 \<le> k \<longrightarrow> p_fds p' ! k = p_fds p ! k)"
proof -
  note d = lib_dup.daemon_returns [OF assms]
  then obtain f where f: "d_null env = Some f" "p_fds p' = (p_fds p)[0 := Some f, 1 := Some f, 2 := Some f]" by auto
  have "2 < length (p_fds p)" using assms(3) [rule_format, of 2] by (simp add: fd_open_def)
  moreover from this have "p_fds p \<noteq> []" by auto
  ultimately have "p_fds p' ! 0 = Some f" "p_fds p' ! 1 = Some f" "p_fds p' ! 2 = Some f"
    unfolding f(2) by (simp_all add: nth_list_update)
  then have "\<forall>k < 3. p_fds p' ! k = Some f" by (simp add: less_Suc_eq numeral_3_eq_3 numeral_2_eq_2)
  then show ?thesis using d f by auto
qed

definition ex_proc :: "string proc" where
  "ex_proc = \<lparr>p_fds = [Some ''tty'', Some ''tty'', Some ''tty'', Some ''socket'', None, None], p_cwd = ''/home'', p_pid = 40,
     p_leader = False\<rparr>"

definition ex_daemon_env :: "string daemon_env" where
  "ex_daemon_env = \<lparr>d_chdir = True, d_null = Some ''/dev/null'', d_fork = In_child 41, d_setsid = True\<rparr>"

lemma ex_proc_open: "\<forall>k < 3. fd_open (p_fds ex_proc) (int k)"
  by (auto simp: ex_proc_def fd_open_def less_Suc_eq numeral_3_eq_3)

lemma ex_daemon: "\<exists>p'. daemon dup2 ex_daemon_env nochdir False ex_proc = Returns 41 p'"
proof -
  have "lowest_free (p_fds ex_proc) \<noteq> None" by (simp add: lowest_free_None ex_proc_def)
  from lib_dup.redirect_open [OF ex_proc_open this] show ?thesis
    by (simp add: daemon_def ex_daemon_env_def Let_def ex_proc_def)
qed

theorem daemon_background_witness:
  "\<exists>p'. daemon dup2 ex_daemon_env True False ex_proc = Returns 41 p' \<and> p_fds p' ! 3 = Some ''socket'' \<and> p_cwd p' = ''/home''"
proof -
  obtain p' where p': "daemon dup2 ex_daemon_env True False ex_proc = Returns 41 p'" using ex_daemon by blast
  from daemon_background [OF p' _ ex_proc_open] have "p_fds p' ! 3 = p_fds ex_proc ! 3" "p_cwd p' = p_cwd ex_proc" by simp_all
  with p' show ?thesis by (simp add: ex_proc_def)
qed

text \<open>
  Started without a standard input, \<open>/dev/null\<close> is opened as descriptor 0; the replacement
  \<open>dup2\<close> then closes it instead of leaving it, and \<open>daemon\<close> fails.
\<close>

lemma daemon_without_stdin:
  assumes "p_fds p \<noteq> []" and "p_fds p ! 0 = None" and "d_fork env = In_child pid"
  shows "\<exists>p'. daemon dup2 env nochdir False p = Returns (- 1) p'"
proof -
  have "lowest_free (p_fds p) = Some 0"
    using assms by (simp add: lowest_free_def upt_conv_Cons)
  then have "fst (redirect dup2 (d_null env) (p_fds p)) = False"
    by (auto simp: redirect_def sys_open_def dup2_cases_of split: option.splits prod.splits)
  then show ?thesis by (auto simp: daemon_def Let_def split: prod.splits)
qed

text \<open>A signal set with \<open>bsd_signal\<close> can be set back with its result.\<close>

lemma bsd_signal_restores:
  assumes "bsd_signal ok signum h tab = (Some old, tab')" and "bsd_signal ok signum old tab' = (r, tab'')"
  shows "r = Some h \<and> sa_handler (tab'' signum) = sa_handler (tab signum) \<and> (\<forall>n. n \<noteq> signum \<longrightarrow> tab'' n = tab n)"
  using assms by (auto simp: bsd_signal_def split: if_splits)

end
