(* ===== verification/NetAddr.thy ===== *)
theory NetAddr
  imports CLib
begin

text \<open>
  Addresses and ports: socket addresses and \<open>sa_set_port\<close> (\<open>tftpsubs.h\<close>), \<open>pick_port_bind\<close>,
  \<open>set_sock_addr\<close>, \<open>is_numeric_ipv6\<close>, \<open>strip_address\<close> and \<open>synchnet\<close> (\<open>tftpsubs.c\<close>),
  \<open>split_port\<close> (\<open>tftpd.c\<close>), \<open>address_is_local\<close> and \<open>myrecvfrom\<close> (\<open>recvfrom.c\<close>), and the
  replacements \<open>lib/inet_ntop.c\<close> and \<open>lib/getaddrinfo.c\<close>. The kernel's answers (\<open>bind\<close>,
  \<open>getsockname\<close>, \<open>recvmsg\<close>) and the host database (\<open>gethostbyname\<close>) are arguments.
\<close>

subsection \<open>Socket addresses\<close>

abbreviation AF_UNSPEC :: int where "AF_UNSPEC \<equiv> 0"
abbreviation AF_INET :: int where "AF_INET \<equiv> 2"
abbreviation AF_INET6 :: int where "AF_INET6 \<equiv> 10"

text \<open>
  \<open>union sock_addr\<close>: the port is at the same offset in both members, the two addresses do
  not overlap. All fields are in host order; an address that is all zero is the wildcard.
\<close>

record sock_addr =
  sa_family :: int
  sa_port :: u16
  sin_addr :: u32
  sin6_addr :: "128 word"

definition zero_addr :: "int \<Rightarrow> sock_addr" where
  "zero_addr f = \<lparr>sa_family = f, sa_port = 0, sin_addr = 0, sin6_addr = 0\<rparr>"

definition sa_set_port :: "sock_addr \<Rightarrow> u16 \<Rightarrow> int \<times> sock_addr" where
  "sa_set_port s port =
     (if sa_family s = AF_INET then (0, s\<lparr>sa_port := port\<rparr>)
      else if sa_family s = AF_INET6 then (0, s\<lparr>sa_port := port\<rparr>)
      else (- 1, s))"

subsection \<open>Binding a port of a range\<close>

abbreviation EINVAL :: int where "EINVAL \<equiv> 22"
abbreviation EADDRINUSE :: int where "EADDRINUSE \<equiv> 98"

text \<open>
  The \<open>do\<close> loop of \<open>pick_port_bind\<close>: the return value and \<open>*myaddr\<close>. \<open>bind\<close> is the \<open>errno\<close> of a
  failing \<open>bind\<close>. As in C the loop may run forever, which is \<open>None\<close>.
\<close>

partial_function (option) pick_loop ::
  "(sock_addr \<Rightarrow> int option) \<Rightarrow> bool \<Rightarrow> u32 \<Rightarrow> u32 \<Rightarrow> u32 \<Rightarrow> u32 \<Rightarrow> sock_addr \<Rightarrow> (int \<times> sock_addr) option" where
  "pick_loop bind port_range from to firstport port myaddr =
     (let myaddr' = snd (sa_set_port myaddr (ucast port))
      in case bind myaddr' of
           None \<Rightarrow> Some (0, myaddr')
         | Some err \<Rightarrow>
             if \<not> (port_range \<and> (err = EINVAL \<or> err = EADDRINUSE)) then Some (- 1, myaddr')
             else let port1 = port + 1; port2 = (if to < port1 then from else port1)
                  in if port2 \<noteq> firstport then pick_loop bind port_range from to firstport port2 myaddr'
                     else Some (- 1, myaddr'))"

definition pick_port_bind ::
  "(sock_addr \<Rightarrow> int option) \<Rightarrow> u32 \<Rightarrow> u32 \<Rightarrow> u32 \<Rightarrow> sock_addr \<Rightarrow> (int \<times> sock_addr) option" where
  "pick_port_bind bind rand from to myaddr =
     (let port_range = (from \<noteq> 0 \<and> to \<noteq> 0);
          firstport = (if port_range then from + rand mod (to - from + 1) else 0)
      in pick_loop bind port_range from to firstport firstport myaddr)"

text \<open>The reference: try the ports of a list in order, once each.\<close>

fun scan_ports :: "(sock_addr \<Rightarrow> int option) \<Rightarrow> sock_addr \<Rightarrow> nat list \<Rightarrow> int \<times> sock_addr" where
  "scan_ports bind a [] = (- 1, a)"
| "scan_ports bind a (p # ps) =
     (let a' = snd (sa_set_port a (of_nat p))
      in case bind a' of
           None \<Rightarrow> (0, a')
         | Some err \<Rightarrow> if err = EINVAL \<or> err = EADDRINUSE then scan_ports bind a' ps else (- 1, a'))"

lemma ucast_of_nat32 [simp]: "(ucast (of_nat n :: u32) :: u16) = of_nat n"
  by (simp add: unsigned_of_nat word_of_nat_eq_iff)

lemma of_nat32_eq: "m < 4294967296 \<Longrightarrow> n < 4294967296 \<Longrightarrow> (of_nat m :: u32) = of_nat n \<longleftrightarrow> m = n"
  by (simp add: word_of_nat_eq_iff take_bit_nat_eq_self)

lemma of_nat32_less: "m < 4294967296 \<Longrightarrow> n < 4294967296 \<Longrightarrow> (of_nat m :: u32) < of_nat n \<longleftrightarrow> m < n"
  by (simp add: word_of_nat_less_iff take_bit_nat_eq_self)

lemma next_in_ring:
  assumes "0 < (N::nat)"
  shows "(if i mod N = N - 1 then 0 else Suc (i mod N)) = Suc i mod N"
  using assms by (simp only: mod_Suc Suc_eq_plus1 [symmetric]) (cases N, auto)

lemma ring_back:
  assumes "k < N" and "k \<le> i" and "i < k + N"
  shows "Suc i mod N = k \<longleftrightarrow> Suc i = k + N"
proof (cases "Suc i < N")
  case True
  then show ?thesis using assms by auto
next
  case False
  then have "Suc i mod N = Suc i - N" using assms by (simp add: le_mod_geq)
  then show ?thesis using False assms by auto
qed

lemma pick_loop_scan:
  assumes "0 < f" and "f + N \<le> 65536" and "k < N" and "k \<le> i" and "i < k + N"
  shows "pick_loop bind True (of_nat f) (of_nat (f + N - 1)) (of_nat (f + k)) (of_nat (f + i mod N)) a
    = Some (scan_ports bind a (map (\<lambda>i. f + i mod N) [i ..< k + N]))"
  using assms(4, 5)
proof (induction "k + N - i" arbitrary: i a)
  case 0
  then show ?case by simp
next
  case (Suc r)
  let ?a = "snd (sa_set_port a (of_nat (f + i mod N)))"
  have iN: "i mod N < N" and sN: "Suc i mod N < N" using assms(3) by simp_all
  have lim: "f + i mod N + 1 < 4294967296" "f + N - 1 < 4294967296" "f + k < 4294967296"
    "f + Suc i mod N < 4294967296"
    using assms(2, 3) iN sN by linarith+
  have up: "(of_nat (f + i mod N) :: u32) + 1 = of_nat (f + i mod N + 1)" by simp
  have cond: "(of_nat (f + N - 1) :: u32) < of_nat (f + i mod N + 1) \<longleftrightarrow> i mod N = N - 1"
    using iN assms(1) unfolding of_nat32_less [OF lim(2, 1)] by auto
  have ring: "(if i mod N = N - 1 then f else f + i mod N + 1) = f + Suc i mod N"
    using next_in_ring [of N i] assms(3) by (simp split: if_splits)
  have nxt: "(if (of_nat (f + N - 1) :: u32) < of_nat (f + i mod N) + 1 then of_nat f
      else of_nat (f + i mod N) + 1) = (of_nat (f + Suc i mod N) :: u32)"
    unfolding up cond ring [symmetric] by simp
  have wrap: "(of_nat (f + Suc i mod N) :: u32) = of_nat (f + k) \<longleftrightarrow> Suc i = k + N"
    unfolding of_nat32_eq [OF lim(4, 3)] using ring_back [OF assms(3) Suc.prems] by simp
  have rest: "pick_loop bind True (of_nat f) (of_nat (f + N - 1)) (of_nat (f + k)) (of_nat (f + Suc i mod N)) ?a
      = Some (scan_ports bind ?a (map (\<lambda>i. f + i mod N) [Suc i ..< k + N]))" if "Suc i \<noteq> k + N"
    using Suc.hyps(1) [of "Suc i" ?a] Suc.hyps(2) Suc.prems that by simp
  have upt: "[i ..< k + N] = i # [Suc i ..< k + N]" using Suc.prems by (simp add: upt_conv_Cons)
  show ?case
    by (subst pick_loop.simps, unfold upt ucast_of_nat32 Let_def nxt)
       (use wrap rest in \<open>auto split: option.split\<close>)
qed

lemma rotate_upt: "rotate k [f ..< f + N] = map (\<lambda>i. f + i mod N) [k ..< k + N]"
  by (rule nth_equalityI) (simp_all add: nth_rotate)

lemma pick_port_bind_eq:
  assumes "unat from \<le> unat to" and "unat to < 65536"
  shows "pick_port_bind bind rand from to myaddr = Some (scan_ports bind myaddr
    (if from \<noteq> 0 then rotate (unat rand mod (unat to - unat from + 1)) [unat from ..< unat to + 1] else [0]))"
proof (cases "from = 0")
  case True
  then show ?thesis by (simp add: pick_port_bind_def pick_loop.simps Let_def split: option.split)
next
  case False
  define f N where "f = unat from" and "N = unat to - unat from + 1"
  define k where "k = unat rand mod N"
  have N: "0 < N" "f + N \<le> 65536" "f + N = unat to + 1" using assms by (simp_all add: f_def N_def)
  have ft: "f + N - 1 = unat to" using N(3) by simp
  have f: "0 < f" "from = of_nat f" "to = of_nat (f + N - 1)"
    unfolding ft using False by (simp_all add: f_def unat_gt_0)
  have k: "k < N" using N by (simp add: k_def)
  have "to - from + 1 = of_nat N" unfolding f(2, 3) using N(1) by (cases N) simp_all
  moreover have "unat (of_nat N :: u32) = N" using N by (simp add: unsigned_of_nat take_bit_nat_eq_self)
  ultimately have r: "rand mod (to - from + 1) = of_nat k"
    unfolding k_def word_arith_nat_mod [of rand] by simp
  have "to \<noteq> 0" using assms(1) False unat_gt_0 [of "from"] unat_gt_0 [of to] by linarith
  moreover have "pick_loop bind True from to (of_nat (f + k)) (of_nat (f + k mod N)) myaddr
      = Some (scan_ports bind myaddr (rotate k [f ..< f + N]))"
    unfolding f(2, 3) rotate_upt using pick_loop_scan [OF f(1) N(2) k, of k] k by simp
  ultimately have "pick_port_bind bind rand from to myaddr = Some (scan_ports bind myaddr (rotate k [f ..< f + N]))"
    unfolding pick_port_bind_def r Let_def using False k f(2) by simp
  then show ?thesis unfolding N(3) using False by (simp only: k_def N_def f_def if_True not_False_eq_True)
qed

lemma scan_ports_ok:
  assumes "scan_ports bind a ps = (rv, a')" and "0 \<le> rv" and "sa_family a = AF_INET \<or> sa_family a = AF_INET6"
  shows "bind a' = None \<and> (\<exists>p \<in> set ps. a' = a\<lparr>sa_port := of_nat p\<rparr>)"
  using assms
proof (induction bind a ps rule: scan_ports.induct)
  case (2 bind a p ps)
  let ?a = "a\<lparr>sa_port := of_nat p\<rparr>"
  have set: "snd (sa_set_port a (of_nat p)) = ?a" using 2(4) by (auto simp: sa_set_port_def)
  show ?case
  proof (cases "bind ?a")
    case None
    then show ?thesis using 2(2) by (simp add: set)
  next
    case (Some err)
    have b: "err = EINVAL \<or> err = EADDRINUSE" using 2(2, 3) Some by (auto simp: set Let_def split: if_splits)
    then have "scan_ports bind ?a ps = (rv, a')" using 2(2) Some by (simp add: set)
    then have "bind a' = None \<and> (\<exists>p \<in> set ps. a' = ?a\<lparr>sa_port := of_nat p\<rparr>)"
      using 2(1) [OF refl _ b] 2(3, 4) Some by (simp add: set)
    then show ?thesis by auto
  qed
qed simp

text \<open>
  C38. \<open>pick_port_bind\<close> always returns. With a port range it tries every port of the range
  exactly once, in ascending order from a random start and wrapping at the end: it binds the
  first port that is free, gives up at once on an error other than a port in use, and fails
  after the whole range; without a range it makes one attempt with port 0.
\<close>

theorem pick_port_bind_scan:
  assumes "unat from \<le> unat to" and "unat to < 65536"
  shows "pick_port_bind bind rand from to myaddr = Some (scan_ports bind myaddr
    (if from \<noteq> 0 then rotate (unat rand mod (unat to - unat from + 1)) [unat from ..< unat to + 1] else [0]))"
  using assms by (rule pick_port_bind_eq)

theorem pick_port_bind_scan_witness:
  "pick_port_bind (\<lambda>a. if sa_port a \<in> {7, 9} then Some EADDRINUSE else None) 2 7 9 (zero_addr AF_INET)
     = Some (0, (zero_addr AF_INET)\<lparr>sa_port := 8\<rparr>)"
  using pick_port_bind_scan [of 7 9 "\<lambda>a. if sa_port a \<in> {7, 9} then Some EADDRINUSE else None" 2 "zero_addr AF_INET"]
  by (simp add: sa_set_port_def zero_addr_def rotate_drop_take upt_rec)

subsection \<open>Numeric addresses\<close>

text \<open>The loop of \<open>is_numeric_ipv6\<close>: the colons, the dots, and whether \<open>]\<close> ended it.\<close>

definition isxdigit :: "char \<Rightarrow> bool" where
  "isxdigit c = (c \<in> set ''0123456789ABCDEFabcdef'')"

fun num6_loop :: "string \<Rightarrow> nat \<Rightarrow> nat \<Rightarrow> (nat \<times> nat \<times> bool) option" where
  "num6_loop [] colon dot = Some (colon, dot, False)"
| "num6_loop (c # p) colon dot =
     (if c = CHR '']'' then Some (colon, dot, True)
      else if c = CHR '':'' then num6_loop p (colon + 1) dot
      else if c = CHR ''.'' then num6_loop p colon (dot + 1)
      else if isxdigit c then num6_loop p colon dot
      else None)"

definition is_numeric_ipv6 :: "string \<Rightarrow> bool" where
  "is_numeric_ipv6 p0 =
     (let bracket = (p0 \<noteq> [] \<and> hd p0 = CHR ''['');
          p = (if bracket then tl p0 else p0)
      in case num6_loop p 0 0 of
           None \<Rightarrow> False
         | Some (colon, dot, closed) \<Rightarrow>
             \<not> (colon < 2 \<or> 7 < colon) \<and> \<not> (dot \<noteq> 0 \<and> (dot \<noteq> 3 \<or> 6 < colon)) \<and> bracket = closed)"

text \<open>The stripped address, and what is left in the buffer the address was in.\<close>

definition strip_address :: "string \<Rightarrow> string \<times> string" where
  "strip_address addr =
     (if is_numeric_ipv6 addr \<and> hd addr = CHR ''['' \<and> last addr = CHR '']''
      then (tl (butlast addr), butlast addr) else (addr, addr))"

text \<open>\<open>p = strrchr(a, c); if (p) *p++ = 0;\<close>: the string cut at the last \<open>c\<close>, and the rest.\<close>

definition cut_last :: "char \<Rightarrow> string \<Rightarrow> string \<times> string option" where
  "cut_last c a =
     (if c \<in> set a
      then (rev (tl (dropWhile (\<lambda>x. x \<noteq> c) (rev a))), Some (rev (takeWhile (\<lambda>x. x \<noteq> c) (rev a))))
      else (a, None))"

text \<open>The family (\<open>-1\<close> on error), \<open>*ap\<close> and \<open>*pp\<close>; \<open>inet_aton\<close> recognises dotted quads.\<close>

definition split_port :: "(string \<Rightarrow> bool) \<Rightarrow> string \<Rightarrow> int \<times> string \<times> string option" where
  "split_port inet_aton a =
     (if is_numeric_ipv6 a then
        (if hd a \<noteq> CHR ''['' then (- 1, a, None)
         else case cut_last (CHR '']'') (tl a) of
                (ap, None) \<Rightarrow> (- 1, ap, None)
              | (ap, Some rest) \<Rightarrow> (AF_INET6, ap, snd (cut_last (CHR '':'') rest)))
      else case cut_last (CHR '':'') a of
             (ap, pp) \<Rightarrow> (if inet_aton ap then AF_INET else AF_UNSPEC, ap, pp))"

lemma cut_last_append:
  "c \<notin> set ys \<Longrightarrow> cut_last c (xs @ c # ys) = (xs, Some ys)"
  using dropWhile_cut [of c "rev ys" "rev xs"] takeWhile_cut [of c "rev ys" "rev xs"]
  by (simp add: cut_last_def)

lemma cut_last_none: "c \<notin> set a \<Longrightarrow> cut_last c a = (a, None)"
  by (simp add: cut_last_def)

lemma num6_loop_colons:
  "num6_loop p k d = Some (k', d', e) \<Longrightarrow> k + length (filter (\<lambda>c. c = CHR '':'') (takeWhile (\<lambda>c. c \<noteq> CHR '']'') p)) = k'"
  by (induction p k d rule: num6_loop.induct) (auto split: if_splits)

lemma num6_loop_closed:
  "CHR '']'' \<notin> set a \<Longrightarrow> num6_loop (a @ CHR '']'' # r) k d = map_option (\<lambda>(k, d, _). (k, d, True)) (num6_loop a k d)"
  by (induction a k d rule: num6_loop.induct) auto

lemma num6_loop_open: "CHR '']'' \<notin> set a \<Longrightarrow> num6_loop a k d = Some (k', d', e) \<Longrightarrow> \<not> e"
  by (induction a k d rule: num6_loop.induct) (auto split: if_splits)

lemma num6_loop_no_bracket: "num6_loop a k d = Some (k', d', False) \<Longrightarrow> CHR ''['' \<notin> set a \<and> CHR '']'' \<notin> set a"
  by (induction a k d rule: num6_loop.induct) (auto simp: isxdigit_def split: if_splits)

text \<open>A bracketed numeric address is recognised whatever follows the bracket.\<close>

lemma bracketed_numeric:
  assumes "is_numeric_ipv6 a" and "a = [] \<or> hd a \<noteq> CHR ''[''"
  shows "is_numeric_ipv6 (CHR ''['' # a @ CHR '']'' # r)" and "CHR '']'' \<notin> set a"
proof -
  from assms obtain k d where n: "num6_loop a 0 0 = Some (k, d, False)"
    and ok: "\<not> (k < 2 \<or> 7 < k)" "\<not> (d \<noteq> 0 \<and> (d \<noteq> 3 \<or> 6 < k))"
    by (auto simp: is_numeric_ipv6_def Let_def split: option.splits)
  then show nb: "CHR '']'' \<notin> set a" using num6_loop_no_bracket by blast
  show "is_numeric_ipv6 (CHR ''['' # a @ CHR '']'' # r)"
    using n ok num6_loop_closed [OF nb] by (simp add: is_numeric_ipv6_def)
qed

lemma few_colons_not_numeric:
  assumes "length (filter (\<lambda>c. c = CHR '':'') a) < 2"
  shows "\<not> is_numeric_ipv6 a"
proof -
  have "k < 2" if "num6_loop p 0 0 = Some (k, d, e)" "p = a \<or> p = tl a" for p k d e
  proof -
    let ?n = "\<lambda>p. length (filter (\<lambda>c. c = CHR '':'') p)"
    have "?n (takeWhile (\<lambda>c. c \<noteq> CHR '']'') p) \<le> ?n (takeWhile (\<lambda>c. c \<noteq> CHR '']'') p @ dropWhile (\<lambda>c. c \<noteq> CHR '']'') p)"
      by (simp only: filter_append length_append le_add1)
    moreover have "?n p \<le> ?n a" using that(2) by (cases a) auto
    ultimately show ?thesis using num6_loop_colons [OF that(1)] assms by simp
  qed
  then show ?thesis by (fastforce simp: is_numeric_ipv6_def Let_def split: option.splits if_splits)
qed

lemma split_port_parts:
  assumes "is_numeric_ipv6 a" and "a = [] \<or> hd a \<noteq> CHR ''[''"
    and "CHR '':'' \<notin> set h" and "CHR '':'' \<notin> set p" and "CHR '']'' \<notin> set p"
  shows "split_port aton (CHR ''['' # a @ '']:'' @ p) = (AF_INET6, a, Some p)"
    and "split_port aton (CHR ''['' # a @ '']'') = (AF_INET6, a, None)"
    and "split_port aton (h @ CHR '':'' # p) = (if aton h then AF_INET else AF_UNSPEC, h, Some p)"
    and "split_port aton h = (if aton h then AF_INET else AF_UNSPEC, h, None)"
    and "split_port aton a = (- 1, a, None)"
    and "fst (strip_address (CHR ''['' # a @ '']'')) = a"
proof -
  note br = bracketed_numeric [OF assms(1, 2)]
  have "cut_last (CHR '']'') (a @ '']:'' @ p) = (a, Some (CHR '':'' # p))"
    using cut_last_append [of "CHR '']''" "CHR '':'' # p" a] assms(5) by simp
  moreover have "cut_last (CHR '':'') (CHR '':'' # p) = ([], Some p)"
    using cut_last_append [of "CHR '':''" p "[]"] assms(4) by simp
  ultimately show "split_port aton (CHR ''['' # a @ '']:'' @ p) = (AF_INET6, a, Some p)"
    using br(1) [of "CHR '':'' # p"] by (simp add: split_port_def)
  have "cut_last (CHR '']'') (a @ '']'') = (a, Some [])" using cut_last_append [of "CHR '']''" "[]" a] by simp
  then show "split_port aton (CHR ''['' # a @ '']'') = (AF_INET6, a, None)"
    using br(1) [of "[]"] by (simp add: split_port_def cut_last_none)
  have few: "filter (\<lambda>c. c = CHR '':'') h = []" "filter (\<lambda>c. c = CHR '':'') p = []"
    using assms(3, 4) by (auto simp: filter_empty_conv)
  then have "\<not> is_numeric_ipv6 (h @ CHR '':'' # p)" "\<not> is_numeric_ipv6 h"
    by (simp_all add: few_colons_not_numeric)
  then show "split_port aton (h @ CHR '':'' # p) = (if aton h then AF_INET else AF_UNSPEC, h, Some p)"
    and "split_port aton h = (if aton h then AF_INET else AF_UNSPEC, h, None)"
    using assms(3, 4) by (simp_all add: split_port_def cut_last_append cut_last_none)
  have "a \<noteq> []" using assms(1) by (auto simp: is_numeric_ipv6_def)
  then show "split_port aton a = (- 1, a, None)" using assms(1, 2) by (simp add: split_port_def)
  show "fst (strip_address (CHR ''['' # a @ '']'')) = a"
    using br(1) [of "[]"] by (simp add: strip_address_def butlast_append)
qed

text \<open>
  C39. Addresses given to \<open>-a\<close> are taken apart as they are written: \<open>[ipv6]:port\<close> and
  \<open>[ipv6]\<close> give the address without brackets and the family \<open>AF_INET6\<close>, \<open>host:port\<close> and
  \<open>host\<close> give the host, with \<open>AF_INET\<close> exactly for a dotted quad; a numeric IPv6 address
  without brackets is refused. Stripping the brackets of \<open>[ipv6]\<close> gives the address back.
\<close>

theorem split_port_roundtrip:
  assumes "is_numeric_ipv6 a" and "a = [] \<or> hd a \<noteq> CHR ''[''"
    and "CHR '':'' \<notin> set h" and "CHR '':'' \<notin> set p" and "CHR '']'' \<notin> set p"
  shows "split_port aton (CHR ''['' # a @ '']:'' @ p) = (AF_INET6, a, Some p) \<and>
    split_port aton (CHR ''['' # a @ '']'') = (AF_INET6, a, None) \<and>
    split_port aton (h @ CHR '':'' # p) = (if aton h then AF_INET else AF_UNSPEC, h, Some p) \<and>
    split_port aton h = (if aton h then AF_INET else AF_UNSPEC, h, None) \<and>
    split_port aton a = (- 1, a, None) \<and>
    fst (strip_address (CHR ''['' # a @ '']'')) = a"
  by (intro conjI split_port_parts [OF assms])

theorem split_port_roundtrip_witness:
  "split_port (\<lambda>h. h = ''10.0.0.1'') ''[fe80::1]:69'' = (AF_INET6, ''fe80::1'', Some ''69'') \<and>
   split_port (\<lambda>h. h = ''10.0.0.1'') ''10.0.0.1:69'' = (AF_INET, ''10.0.0.1'', Some ''69'')"
proof -
  have "is_numeric_ipv6 ''fe80::1''" by code_simp
  from split_port_roundtrip [OF this, of "''10.0.0.1''" "''69''" "\<lambda>h. h = ''10.0.0.1''"]
  show ?thesis by simp
qed

subsection \<open>Resolving a host name\<close>

text \<open>
  \<open>struct addrinfo\<close> as far as the code reads it; an address of length 0 is \<open>None\<close>. \<open>hostent\<close>
  is an entry of the host database, with the address as a number.
\<close>

record addrinfo =
  ai_family :: int
  ai_addr :: "sock_addr option"
  ai_canonname :: "string option"

record hostent =
  h_name :: "string option"
  h_addrtype :: int
  h_length :: nat
  h_addr4 :: u32
  h_addr6 :: "128 word"

abbreviation EAI_NONAME :: int where "EAI_NONAME \<equiv> - 2"
abbreviation EAI_ADDRFAMILY :: int where "EAI_ADDRFAMILY \<equiv> - 9"
abbreviation EAI_MEMORY :: int where "EAI_MEMORY \<equiv> - 10"
abbreviation EAI_SYSTEM :: int where "EAI_SYSTEM \<equiv> - 11"

text \<open>
  The replacement \<open>getaddrinfo\<close>: \<open>m1\<close>, \<open>m2\<close> and \<open>m3\<close> tell whether the allocations of the result, the
  address and the name work (without the last there is just no name); the hints are the family, if given. \<open>*res\<close> is null unless the result is 0.
\<close>

definition getaddrinfo ::
  "(string \<Rightarrow> hostent option) \<Rightarrow> bool \<Rightarrow> bool \<Rightarrow> bool \<Rightarrow> string option \<Rightarrow> string option \<Rightarrow> int option \<Rightarrow> int \<times> addrinfo option" where
  "getaddrinfo gethostbyname m1 m2 m3 node service hints =
     (case node of
        None \<Rightarrow> (EAI_SYSTEM, None)
      | Some name \<Rightarrow>
     (if service \<noteq> None then (EAI_SYSTEM, None)
      else case gethostbyname name of
        None \<Rightarrow> (EAI_NONAME, None)
      | Some host \<Rightarrow>
     (if hints \<noteq> None \<and> the hints \<noteq> AF_UNSPEC \<and> the hints \<noteq> h_addrtype host then (EAI_ADDRFAMILY, None)
      else if \<not> m1 then (EAI_MEMORY, None)
      else let r = \<lparr>ai_family = h_addrtype host, ai_addr = None, ai_canonname = (if m3 then h_name host else None)\<rparr>
      in if h_length host = 0 then (0, Some r)
      else if h_addrtype host \<noteq> AF_INET \<and> h_addrtype host \<noteq> AF_INET6 then (EAI_ADDRFAMILY, None)
      else if \<not> m2 then (EAI_MEMORY, None)
      else let sa = zero_addr (h_addrtype host);
               sa' = (if h_addrtype host = AF_INET then sa\<lparr>sin_addr := h_addr4 host\<rparr> else sa\<lparr>sin6_addr := h_addr6 host\<rparr>)
           in (0, Some (r\<lparr>ai_addr := Some sa'\<rparr>)))))"

definition gai_strerror :: "string \<Rightarrow> string \<Rightarrow> int \<Rightarrow> string" where
  "gai_strerror errno_text h_errno_text errcode =
     (if errcode = 0 then ''no error''
      else if errcode = EAI_MEMORY then ''no memory''
      else if errcode = EAI_SYSTEM then errno_text
      else if errcode = EAI_NONAME then h_errno_text
      else if errcode = EAI_ADDRFAMILY then ''address does not match address family''
      else ''unknown error code'')"

text \<open>
  \<open>set_sock_addr\<close> over any resolver, called with the family of \<open>*s\<close> as hint and no service.
  The third result is \<open>*name\<close>; a name taken from \<open>host\<close> comes from the buffer that
  \<open>strip_address\<close> has shortened.
\<close>

definition set_sock_addr ::
  "(string option \<Rightarrow> string option \<Rightarrow> int option \<Rightarrow> int \<times> addrinfo option) \<Rightarrow> string \<Rightarrow> sock_addr \<Rightarrow> int \<times> sock_addr \<times> string option" where
  "set_sock_addr gai host s =
     (case gai (Some (fst (strip_address host))) None (Some (sa_family s)) of
        (err, r) \<Rightarrow>
          if err \<noteq> 0 then (err, s, None)
          else case r of
                 None \<Rightarrow> (EAI_NONAME, s, None)
               | Some ai \<Rightarrow>
                   (0, (case ai_addr ai of None \<Rightarrow> s | Some a \<Rightarrow> a),
                    Some (case ai_canonname ai of Some n \<Rightarrow> n | None \<Rightarrow> snd (strip_address host))))"

text \<open>
  What the callers rely on: an answer for a given family has that family, and an answer
  without a service has no port.
\<close>

locale resolver =
  fixes gai :: "string option \<Rightarrow> string option \<Rightarrow> int option \<Rightarrow> int \<times> addrinfo option"
  assumes gai_family: "gai (Some n) None (Some f) = (0, Some ai) \<Longrightarrow> f \<noteq> AF_UNSPEC \<Longrightarrow> ai_addr ai = Some a \<Longrightarrow> sa_family a = f"
    and gai_port: "gai (Some n) None h = (0, Some ai) \<Longrightarrow> ai_addr ai = Some a \<Longrightarrow> sa_port a = 0"
begin

lemma set_sock_addr_ok:
  assumes "set_sock_addr gai host s = (0, s', nm)"
  shows "\<exists>n ai. gai (Some n) None (Some (sa_family s)) = (0, Some ai) \<and> s' = (case ai_addr ai of None \<Rightarrow> s | Some a \<Rightarrow> a)"
proof -
  obtain err r where g: "gai (Some (fst (strip_address host))) None (Some (sa_family s)) = (err, r)" by fastforce
  with assms have e: "err = 0" by (simp add: set_sock_addr_def split: if_split_asm)
  with assms g obtain ai where r: "r = Some ai" by (cases r) (simp_all add: set_sock_addr_def)
  with assms g e have "s' = (case ai_addr ai of None \<Rightarrow> s | Some a \<Rightarrow> a)" by (simp add: set_sock_addr_def)
  with g e r show ?thesis by blast
qed

lemma set_sock_addr_family:
  assumes "sa_family s \<noteq> AF_UNSPEC" and "set_sock_addr gai host s = (0, s', nm)"
  shows "sa_family s' = sa_family s"
proof -
  obtain n ai where g: "gai (Some n) None (Some (sa_family s)) = (0, Some ai)"
    and s': "s' = (case ai_addr ai of None \<Rightarrow> s | Some a \<Rightarrow> a)" using set_sock_addr_ok [OF assms(2)] by blast
  show ?thesis using gai_family [OF g assms(1)] s' by (cases "ai_addr ai") simp_all
qed

lemma set_sock_addr_port:
  assumes "set_sock_addr gai host s = (0, s', nm)"
  shows "s' = s \<or> sa_port s' = 0"
proof -
  obtain n ai where g: "gai (Some n) None (Some (sa_family s)) = (0, Some ai)"
    and s': "s' = (case ai_addr ai of None \<Rightarrow> s | Some a \<Rightarrow> a)" using set_sock_addr_ok [OF assms] by blast
  show ?thesis using gai_port [OF g] s' by (cases "ai_addr ai") simp_all
qed

lemma set_sock_addr_error:
  "set_sock_addr gai host s = (e, s', nm) \<Longrightarrow> e \<noteq> 0 \<Longrightarrow> s' = s"
  by (auto simp: set_sock_addr_def split: prod.splits if_splits option.splits)

end

lemma getaddrinfo_ok:
  assumes "getaddrinfo db m1 m2 m3 (Some n) None h = (0, Some ai)" and "ai_addr ai = Some a"
  shows "\<exists>host. db n = Some host \<and> sa_port a = 0 \<and> sa_family a = h_addrtype host \<and>
    (h = None \<or> the h = AF_UNSPEC \<or> the h = h_addrtype host)"
proof (cases "db n")
  case None
  with assms show ?thesis by (simp add: getaddrinfo_def)
next
  case (Some host)
  with assms(1) have hint: "h = None \<or> the h = AF_UNSPEC \<or> the h = h_addrtype host"
    unfolding getaddrinfo_def by (simp split: if_splits)
  with assms Some hint show ?thesis
    unfolding getaddrinfo_def Let_def zero_addr_def by (cases "h_length host = 0") (auto split: if_split_asm)
qed

interpretation lib_resolver: resolver "getaddrinfo db m1 m2 m3"
proof
  fix n f ai a
  assume "getaddrinfo db m1 m2 m3 (Some n) None (Some f) = (0, Some ai)" "f \<noteq> AF_UNSPEC" "ai_addr ai = Some a"
  then show "sa_family a = f" using getaddrinfo_ok [of db m1 m2 m3 n "Some f" ai a] by auto
next
  fix n h ai a
  assume "getaddrinfo db m1 m2 m3 (Some n) None h = (0, Some ai)" "ai_addr ai = Some a"
  then show "sa_port a = 0" using getaddrinfo_ok [of db m1 m2 m3 n h ai a] by auto
qed

subsection \<open>Discarding stale datagrams\<close>

text \<open>
  \<open>select(nfds, {f}, ...)\<close> with a zero time-out: the number of ready descriptors among those
  below \<open>nfds\<close>. \<open>synchnet\<close> returns the datagrams drained and the queue left.
\<close>

definition select_ready :: "nat \<Rightarrow> nat \<Rightarrow> 'p list \<Rightarrow> int" where
  "select_ready nfds f queue = (if f < nfds \<and> queue \<noteq> [] then 1 else 0)"

fun synchnet :: "nat \<Rightarrow> 'p list \<Rightarrow> int \<times> 'p list" where
  "synchnet f [] = (0, [])"
| "synchnet f (p # queue) =
     (if select_ready f f (p # queue) \<le> 0 then (0, p # queue)
      else let (n, q) = synchnet f queue in (n + 1, q))"

text \<open>The first argument of \<open>select\<close> should be \<open>f + 1\<close>: nothing is ever drained.\<close>

lemma synchnet_drains_nothing: "synchnet f queue = (0, queue)"
  by (cases queue) (simp_all add: select_ready_def)

subsection \<open>The local address of a request\<close>

text \<open>
  \<open>bind_getsockname\<close> is the address that a fresh datagram socket reports after binding to
  the given address, or nothing if one of the calls fails.
\<close>

definition address_is_local :: "(sock_addr \<Rightarrow> sock_addr option) \<Rightarrow> sock_addr \<Rightarrow> bool" where
  "address_is_local bind_getsockname addr =
     (if sa_family addr = AF_INET \<and> 224 * 2 ^ 24 \<le> sin_addr addr then False
      else if sa_family addr = AF_INET6 \<and> drop_bit 120 (sin6_addr addr) = 255 then False
      else if sa_family addr \<noteq> AF_INET \<and> sa_family addr \<noteq> AF_INET6 then False
      else let sa1 = addr\<lparr>sa_port := 0\<rparr>
           in case bind_getsockname sa1 of
                None \<Rightarrow> False
              | Some sa2 \<Rightarrow>
                  if sa_family sa1 \<noteq> sa_family sa2 then False
                  else if sa_family sa2 = AF_INET then sin_addr sa1 = sin_addr sa2
                  else sin6_addr sa1 = sin6_addr sa2)"

text \<open>
  A received message: the sender, the data as \<open>recvmsg\<close> puts them into the caller's buffer (so at most
  its length; the kernel cuts off the rest), the control messages and the flag \<open>MSG_CTRUNC\<close>;
  and the socket options that make the kernel attach the destination address.
\<close>

datatype cmsg = Ip_pktinfo u32 | Ipv6_pktinfo "128 word" | Other_cmsg

record dgram =
  d_from :: sock_addr
  d_data :: "char list"
  d_cmsgs :: "cmsg list"
  d_ctrunc :: bool

record sockopts =
  so_pktinfo :: bool
  so_recvpktinfo6 :: bool
  so_pmtu_off :: bool

abbreviation new_sockopts :: sockopts where
  "new_sockopts \<equiv> \<lparr>so_pktinfo = False, so_recvpktinfo6 = False, so_pmtu_off = False\<rparr>"

text \<open>The options of all sockets; \<open>setsockopt\<close> on a descriptor that is not one fails, which nobody looks at.\<close>

definition pmtu_discovery_off :: "int \<Rightarrow> (int \<Rightarrow> sockopts) \<Rightarrow> int \<Rightarrow> sockopts" where
  "pmtu_discovery_off fd so = (if fd < 0 then so else so(fd := (so fd)\<lparr>so_pmtu_off := True\<rparr>))"

definition take_cmsg :: "int \<Rightarrow> cmsg \<Rightarrow> sock_addr \<Rightarrow> sock_addr" where
  "take_cmsg from_family cm myaddr =
     (if from_family = AF_INET then
        (case cm of Ip_pktinfo a \<Rightarrow> myaddr\<lparr>sa_family := AF_INET, sin_addr := a\<rparr> | _ \<Rightarrow> myaddr\<lparr>sa_family := AF_INET\<rparr>)
      else if from_family = AF_INET6 then
        (case cm of Ipv6_pktinfo a \<Rightarrow> myaddr\<lparr>sa_family := AF_INET6, sin6_addr := a\<rparr> | _ \<Rightarrow> myaddr\<lparr>sa_family := AF_INET6\<rparr>)
      else myaddr)"

definition wildcard_unless_local :: "(sock_addr \<Rightarrow> sock_addr option) \<Rightarrow> sock_addr \<Rightarrow> sock_addr" where
  "wildcard_unless_local bind_getsockname myaddr =
     (if address_is_local bind_getsockname myaddr then myaddr
      else if sa_family myaddr = AF_INET then myaddr\<lparr>sin_addr := 0\<rparr>
      else if sa_family myaddr = AF_INET6 then myaddr\<lparr>sin6_addr := 0\<rparr>
      else myaddr)"

text \<open>The options are chosen by the family that \<open>*from\<close> has before the call.\<close>

definition ask_dst :: "sock_addr \<Rightarrow> sockopts \<Rightarrow> sockopts" where
  "ask_dst from so0 =
     (let so1 = (if sa_family from = AF_INET then so0\<lparr>so_pktinfo := True\<rparr> else so0)
      in if sa_family from = AF_INET6 then so1\<lparr>so_recvpktinfo6 := True\<rparr> else so1)"

text \<open>
  The result is \<open>errno\<close>, or the data, \<open>*from\<close> and \<open>*myaddr\<close>.
\<close>

definition myrecvfrom ::
  "(sockopts \<Rightarrow> int + dgram) \<Rightarrow> (sock_addr \<Rightarrow> sock_addr option) \<Rightarrow> sockopts \<Rightarrow> sock_addr \<Rightarrow>
     (int + char list \<times> sock_addr \<times> sock_addr) \<times> sockopts" where
  "myrecvfrom recvmsg bind_getsockname so0 from =
     (let so = ask_dst from so0
      in case recvmsg so of
           Inl e \<Rightarrow> (Inl e, so)
         | Inr d \<Rightarrow>
             let from' = d_from d; myaddr = zero_addr (sa_family from')
             in if d_cmsgs d = [] \<or> d_ctrunc d then (Inr (d_data d, from', myaddr), so)
                else (Inr (d_data d, from', wildcard_unless_local bind_getsockname
                        (fold (take_cmsg (sa_family from')) (d_cmsgs d) myaddr)), so))"

text \<open>
  Without those system calls: no address is captured, and the family is the one that \<open>*from\<close>
  has before the call.
\<close>

definition myrecvfrom_plain :: "int + dgram \<Rightarrow> sock_addr \<Rightarrow> (int + char list \<times> sock_addr) \<times> sock_addr" where
  "myrecvfrom_plain recvfrom from =
     ((case recvfrom of Inl e \<Rightarrow> Inl e | Inr d \<Rightarrow> Inr (d_data d, d_from d)),
      snd (sa_set_port (zero_addr (sa_family from)) 69))"

lemma myrecvfrom_cases:
  "\<exists>so'. (\<forall>e. recvmsg so' = Inl e \<longrightarrow> myrecvfrom recvmsg bgs so from = (Inl e, so')) \<and>
     (\<forall>d. recvmsg so' = Inr d \<longrightarrow> (\<exists>my. myrecvfrom recvmsg bgs so from = (Inr (d_data d, d_from d, my), so')))"
  by (rule exI [of _ "ask_dst from so"]) (auto simp: myrecvfrom_def Let_def)

lemma take_cmsg_step:
  assumes "f = AF_INET \<or> f = AF_INET6"
  shows "sa_family (take_cmsg f cm a) = f" and "sa_port (take_cmsg f cm a) = sa_port a"
    and "f = AF_INET \<Longrightarrow> sin_addr (take_cmsg f cm a) = sin_addr a \<or> Ip_pktinfo (sin_addr (take_cmsg f cm a)) = cm"
    and "f = AF_INET6 \<Longrightarrow> sin6_addr (take_cmsg f cm a) = sin6_addr a \<or> Ipv6_pktinfo (sin6_addr (take_cmsg f cm a)) = cm"
  using assms by (cases cm; auto simp: take_cmsg_def)+

lemma fold_take_cmsg:
  assumes "f = AF_INET \<or> f = AF_INET6" and "sa_family a = f"
  shows "sa_family (fold (take_cmsg f) cms a) = f" and "sa_port (fold (take_cmsg f) cms a) = sa_port a"
    and "f = AF_INET \<Longrightarrow> sin_addr (fold (take_cmsg f) cms a) = sin_addr a \<or>
       Ip_pktinfo (sin_addr (fold (take_cmsg f) cms a)) \<in> set cms"
    and "f = AF_INET6 \<Longrightarrow> sin6_addr (fold (take_cmsg f) cms a) = sin6_addr a \<or>
       Ipv6_pktinfo (sin6_addr (fold (take_cmsg f) cms a)) \<in> set cms"
  using assms(2)
proof (induction cms arbitrary: a)
  case (Cons cm cms)
  note step = take_cmsg_step [OF assms(1)]
  { case 1 show ?case using Cons.IH(1) [OF step(1)] by simp
  next case 2 show ?case using Cons.IH(2) [OF step(1)] step(2) by simp
  next case (3 a) then show ?case using Cons.IH(3) [OF _ step(1), of cm a] step(3) [of cm a] by auto
  next case (4 a) then show ?case using Cons.IH(4) [OF _ step(1), of cm a] step(4) [of cm a] by auto }
qed simp_all

lemma myrecvfrom_ok:
  assumes "myrecvfrom recvmsg bgs so from = (Inr (dat, from', my), so')"
  shows "\<exists>d. recvmsg so' = Inr d \<and> my = (if d_cmsgs d = [] \<or> d_ctrunc d then zero_addr (sa_family from')
      else wildcard_unless_local bgs (fold (take_cmsg (sa_family from')) (d_cmsgs d) (zero_addr (sa_family from'))))"
  using assms by (auto simp: myrecvfrom_def Let_def split: sum.splits if_split_asm)

text \<open>
  C40. The local address \<open>myrecvfrom\<close> hands out for the reply has the family of the sender and
  no port. Its address is either the wildcard, or one that the kernel attached to this
  datagram and that the server can bind to; it is never a multicast address.
\<close>

theorem myrecvfrom_local:
  assumes "myrecvfrom recvmsg bgs so from = (Inr (dat, from', my), so')"
    and "sa_family from' = AF_INET \<or> sa_family from' = AF_INET6"
  shows "sa_family my = sa_family from' \<and> sa_port my = 0 \<and>
    (sa_family my = AF_INET \<longrightarrow> sin_addr my = 0 \<or> sin_addr my < 224 * 2 ^ 24 \<and> address_is_local bgs my \<and>
      (\<exists>d. recvmsg so' = Inr d \<and> Ip_pktinfo (sin_addr my) \<in> set (d_cmsgs d))) \<and>
    (sa_family my = AF_INET6 \<longrightarrow> sin6_addr my = 0 \<or> drop_bit 120 (sin6_addr my) \<noteq> 255 \<and> address_is_local bgs my \<and>
      (\<exists>d. recvmsg so' = Inr d \<and> Ipv6_pktinfo (sin6_addr my) \<in> set (d_cmsgs d)))"
proof -
  let ?f = "sa_family from'"
  obtain d where d: "recvmsg so' = Inr d"
    and my: "my = (if d_cmsgs d = [] \<or> d_ctrunc d then zero_addr ?f
      else wildcard_unless_local bgs (fold (take_cmsg ?f) (d_cmsgs d) (zero_addr ?f)))"
    using myrecvfrom_ok [OF assms(1)] by blast
  have "sa_family (zero_addr ?f) = ?f" by (simp add: zero_addr_def)
  note fold = fold_take_cmsg [OF assms(2) this, of "d_cmsgs d"]
  have "address_is_local bgs my \<Longrightarrow> sa_family my = AF_INET \<Longrightarrow> sin_addr my < 224 * 2 ^ 24"
    and "address_is_local bgs my \<Longrightarrow> sa_family my = AF_INET6 \<Longrightarrow> drop_bit 120 (sin6_addr my) \<noteq> 255"
    by (auto simp: address_is_local_def not_le split: if_splits)
  then show ?thesis
    using fold my d assms(2) by (auto simp: wildcard_unless_local_def zero_addr_def split: if_splits)
qed

definition ex_recvmsg :: "sockopts \<Rightarrow> int + dgram" where
  "ex_recvmsg so = Inr \<lparr>d_from = (zero_addr AF_INET)\<lparr>sa_port := 5000, sin_addr := 7\<rparr>, d_data = ''x'',
     d_cmsgs = (if so_pktinfo so then [Ip_pktinfo 9] else []), d_ctrunc = False\<rparr>"

theorem myrecvfrom_local_witness:
  "\<exists>my so'. myrecvfrom ex_recvmsg Some new_sockopts ((zero_addr AF_INET)\<lparr>sa_port := 5000, sin_addr := 7\<rparr>)
     = (Inr (''x'', (zero_addr AF_INET)\<lparr>sa_port := 5000, sin_addr := 7\<rparr>, my), so') \<and>
   sin_addr my = 9 \<and> sin_addr my < 224 * 2 ^ 24 \<and> address_is_local Some my"
proof -
  let ?c = "(zero_addr AF_INET)\<lparr>sa_port := 5000, sin_addr := 7\<rparr>"
  have r: "myrecvfrom ex_recvmsg Some new_sockopts ?c
    = (Inr (''x'', ?c, (zero_addr AF_INET)\<lparr>sin_addr := 9\<rparr>), new_sockopts\<lparr>so_pktinfo := True\<rparr>)"
    by (simp add: myrecvfrom_def ask_dst_def ex_recvmsg_def zero_addr_def wildcard_unless_local_def take_cmsg_def
        address_is_local_def)
  from myrecvfrom_local [OF this] have "sin_addr ((zero_addr AF_INET)\<lparr>sin_addr := 9\<rparr>) < 224 * 2 ^ 24 \<and>
      address_is_local Some ((zero_addr AF_INET)\<lparr>sin_addr := 9\<rparr>)" by (simp add: zero_addr_def)
  with r show ?thesis by auto
qed

text \<open>
  The address of the first request is never captured: \<open>from\<close> is still all zero when the
  options are chosen, so neither is set, and a kernel that attaches addresses only on request
  attaches none.
\<close>

lemma first_request_unpinned:
  assumes "\<And>so d a. recvmsg so = Inr d \<Longrightarrow> \<not> so_pktinfo so \<Longrightarrow> Ip_pktinfo a \<notin> set (d_cmsgs d)"
    and "\<not> so_pktinfo so" and "myrecvfrom recvmsg bgs so (zero_addr 0) = (Inr (dat, from', my), so')"
    and "sa_family from' = AF_INET"
  shows "sin_addr my = 0"
proof -
  have so': "so' = so" using assms(3) by (auto simp: myrecvfrom_def ask_dst_def zero_addr_def Let_def split: sum.splits if_split_asm)
  obtain d where d: "recvmsg so' = Inr d"
    and my: "my = (if d_cmsgs d = [] \<or> d_ctrunc d then zero_addr AF_INET
      else wildcard_unless_local bgs (fold (take_cmsg AF_INET) (d_cmsgs d) (zero_addr AF_INET)))"
    using myrecvfrom_ok [OF assms(3)] unfolding assms(4) by blast
  have "sin_addr (fold (take_cmsg AF_INET) (d_cmsgs d) (zero_addr AF_INET)) = 0"
    using fold_take_cmsg [of AF_INET "zero_addr AF_INET" "d_cmsgs d"] assms(1) [OF d] assms(2)
    by (simp add: zero_addr_def so')
  then show ?thesis by (simp add: my wildcard_unless_local_def) (simp add: zero_addr_def)
qed

subsection \<open>Printing addresses\<close>

text \<open>\<open>%x\<close>.\<close>

fun to_hex :: "nat \<Rightarrow> string" where
  "to_hex n = (if n < 16 then [''0123456789abcdef'' ! n] else to_hex (n div 16) @ [''0123456789abcdef'' ! (n mod 16)])"

declare to_hex.simps [simp del]

definition s6_addr16 :: "128 word \<Rightarrow> nat \<Rightarrow> u16" where
  "s6_addr16 a i = ucast (drop_bit (112 - 16 * i) a)"

text \<open>
  The replacement \<open>inet_ntop\<close>, with \<open>inet_ntoa\<close> as a parameter. For IPv6 the loop writes each
  group with a colon and a NUL; the last NUL goes to the offset of the total length.
\<close>

definition inet_ntop :: "(u32 \<Rightarrow> string option) \<Rightarrow> int \<Rightarrow> sock_addr \<Rightarrow> nat \<Rightarrow> fault + string option" where
  "inet_ntop inet_ntoa af src cnt =
     (if af = AF_INET then
        (case inet_ntoa (sin_addr src) of
           Some p \<Rightarrow> if cnt \<le> length p then Inr None else Inr (Some p)
         | None \<Rightarrow> Inr None)
      else if af = AF_INET6 then
        (if cnt < 40 then Inr None
         else let s = concat (map (\<lambda>i. to_hex (unat (s6_addr16 (sin6_addr src) i)) @ '':'') [0 ..< 8])
              in if cnt < length s + 1 then Inl Out_of_bounds else Inr (Some (butlast s)))
      else Inr None)"

lemma length_to_hex: "n < 16 ^ Suc k \<Longrightarrow> length (to_hex n) \<le> Suc k"
proof (induction k arbitrary: n)
  case 0
  then show ?case by (subst to_hex.simps) simp
next
  case (Suc k)
  have "n div 16 < 16 ^ Suc k" using Suc.prems by (simp add: less_mult_imp_div_less mult.commute)
  then show ?case using Suc.IH by (subst to_hex.simps) simp
qed

text \<open>A buffer of 41 bytes is enough, 40 bytes are accepted and are not.\<close>

lemma inet_ntop_fits:
  assumes "41 \<le> cnt"
  shows "\<exists>r. inet_ntop ntoa af src cnt = Inr r"
proof -
  let ?g = "\<lambda>i. to_hex (unat (s6_addr16 (sin6_addr src) i)) @ '':''"
  have "length (?g i) \<le> 5" for i
    using length_to_hex [of "unat (s6_addr16 (sin6_addr src) i)" 3] unat16_lt by simp
  then have "sum_list (map (length \<circ> ?g) [0 ..< 8]) \<le> sum_list (map (\<lambda>i. 5) [0 ..< 8 :: nat])"
    by (intro sum_list_mono) (simp only: comp_apply)
  then have "length (concat (map ?g [0 ..< 8])) \<le> 40"
    unfolding length_concat map_map by (simp add: sum_list_triv)
  then show ?thesis using assms by (auto simp: inet_ntop_def Let_def split: option.splits)
qed

lemma inet_ntop_overflow:
  "inet_ntop ntoa AF_INET6 ((zero_addr AF_INET6)\<lparr>sin6_addr := - 1\<rparr>) 40 = Inl Out_of_bounds"
proof -
  have "s6_addr16 (- 1) i = - 1" if "i < 8" for i
    using that by (intro bit_word_eqI) (simp add: s6_addr16_def bit_simps)
  moreover have "unat (- 1 :: u16) = 65535" by (simp add: unsigned_minus_1_eq_mask mask_eq_exp_minus_1)
  ultimately have "map (\<lambda>i. to_hex (unat (s6_addr16 (- 1) i)) @ '':'') [0 ..< 8] = replicate 8 (to_hex 65535 @ '':'')"
    by (intro nth_equalityI) simp_all
  moreover have "to_hex 65535 = ''ffff''" by (simp add: to_hex.simps)
  ultimately have "length (concat (map (\<lambda>i. to_hex (unat (s6_addr16 (- 1) i)) @ '':'') [0 ..< 8])) = 40"
    by (simp only: length_concat map_replicate sum_list_replicate) simp
  then show ?thesis unfolding inet_ntop_def Let_def zero_addr_def sock_addr.simps by simp
qed

end
