(* ===== verification/Listen.thy ===== *)
theory Listen
  imports Process NetAddr
begin

text \<open>
  The sockets the server listens on (\<open>main\<close> of \<open>tftpd.c\<close>): opening, the address given with
  \<open>-a\<close>, binding, going into the background, and the signals. The answers of the kernel, the
  resolver and the service database are a record; \<open>daemon\<close> is an argument, since the build
  takes the one of the C library where there is one. IPv6 is compiled in. A descriptor below 0
  is no socket.
\<close>

subsection \<open>The sockets\<close>

record listen_env =
  socket4 :: int
  socket6 :: int
  fcntl_ok :: "int \<Rightarrow> bool"
  inet_aton :: "string \<Rightarrow> bool"
  resolve :: "string option \<Rightarrow> string option \<Rightarrow> int option \<Rightarrow> int \<times> addrinfo option"
  getservbyname :: "string \<Rightarrow> u16 option"
  bind_ok :: "int \<Rightarrow> sock_addr \<Rightarrow> bool"
  sig_ok :: "int \<Rightarrow> bool"
  pidfile_ok :: bool

record socks =
  fd4 :: int
  fd6 :: int
  bindaddr4 :: sock_addr
  bindaddr6 :: sock_addr
  l_fam :: int

abbreviation IPPORT_TFTP :: u16 where "IPPORT_TFTP \<equiv> 69"

text \<open>\<open>fcntl\<close> fails on a descriptor that is not open; \<open>set_socket_nonblock\<close> then exits.\<close>

definition set_socket_nonblock :: "listen_env \<Rightarrow> int \<Rightarrow> stop option" where
  "set_socket_nonblock env fd = (if fd < 0 \<or> \<not> fcntl_ok env fd then Some (Exit EX_OSERR) else None)"

definition open_socket4 :: "listen_env \<Rightarrow> socks \<Rightarrow> stop + socks" where
  "open_socket4 env s =
     (if l_fam s = AF_INET6 then Inr s
      else if socket4 env < 0 then Inl (Exit EX_OSERR)
      else case set_socket_nonblock env (socket4 env) of
             Some e \<Rightarrow> Inl e
           | None \<Rightarrow> Inr (s\<lparr>fd4 := socket4 env, bindaddr4 := (zero_addr AF_INET)\<lparr>sa_port := IPPORT_TFTP\<rparr>\<rparr>))"

definition open_socket6 :: "listen_env \<Rightarrow> socks \<Rightarrow> stop + socks" where
  "open_socket6 env s =
     (if l_fam s = AF_INET then Inr s
      else if socket6 env < 0 \<and> fd4 s < 0 then Inl (Exit EX_OSERR)
      else case set_socket_nonblock env (socket6 env) of
             Some e \<Rightarrow> Inl e
           | None \<Rightarrow> Inr (s\<lparr>fd6 := socket6 env, bindaddr6 := (zero_addr AF_INET6)\<lparr>sa_port := IPPORT_TFTP\<rparr>\<rparr>))"

subsection \<open>The address to listen on\<close>

text \<open>An address of one family closes the socket of the other.\<close>

definition restrict_family :: "int \<Rightarrow> socks \<Rightarrow> stop + socks" where
  "restrict_family fam s =
     (if fam = AF_INET then
        (if 0 \<le> fd6 s then (if l_fam s = AF_INET6 then Inl (Exit EX_USAGE) else Inr (s\<lparr>fd6 := - 1, l_fam := AF_INET\<rparr>))
         else Inr s)
      else if fam = AF_INET6 then
        (if 0 \<le> fd4 s then (if l_fam s = AF_INET then Inl (Exit EX_USAGE) else Inr (s\<lparr>fd4 := - 1, l_fam := AF_INET6\<rparr>))
         else Inr s)
      else if fam = AF_UNSPEC then Inr s
      else Inl (Exit EX_USAGE))"

definition resolve4 :: "listen_env \<Rightarrow> string \<Rightarrow> socks \<Rightarrow> stop + socks" where
  "resolve4 env addr s =
     (if fd4 s < 0 then Inr s
      else case set_sock_addr (resolve env) addr ((bindaddr4 s)\<lparr>sa_family := AF_INET\<rparr>) of
             (err, a, _) \<Rightarrow> if err \<noteq> 0 then Inl (Exit EX_NOINPUT) else Inr (s\<lparr>bindaddr4 := a\<rparr>))"

definition resolve6 :: "listen_env \<Rightarrow> string \<Rightarrow> socks \<Rightarrow> stop + socks" where
  "resolve6 env addr s =
     (if fd6 s < 0 then Inr s
      else case set_sock_addr (resolve env) addr ((bindaddr6 s)\<lparr>sa_family := AF_INET6\<rparr>) of
             (err, a, _) \<Rightarrow>
               if err \<noteq> 0 then (if 0 \<le> fd4 s then Inr (s\<lparr>fd6 := - 1\<rparr>) else Inl (Exit EX_NOINPUT))
               else Inr (s\<lparr>bindaddr6 := a\<rparr>))"

definition set_ports :: "u16 \<Rightarrow> socks \<Rightarrow> socks" where
  "set_ports p s =
     s\<lparr>bindaddr4 := (if 0 \<le> fd4 s then (bindaddr4 s)\<lparr>sa_port := p\<rparr> else bindaddr4 s),
       bindaddr6 := (if 0 \<le> fd6 s then (bindaddr6 s)\<lparr>sa_port := p\<rparr> else bindaddr6 s)\<rparr>"

text \<open>A service name, a number in any base C knows, or \<open>tftp\<close> as it stands.\<close>

definition choose_port :: "listen_env \<Rightarrow> string \<Rightarrow> socks \<Rightarrow> stop + socks" where
  "choose_port env port s =
     (if port = [] then Inr s
      else case getservbyname env port of
             Some p \<Rightarrow> Inr (set_ports p s)
           | None \<Rightarrow>
               (case strtoul 0 port of
                  (v, e) \<Rightarrow>
                    if v \<noteq> 0 \<and> e = [] then Inr (set_ports (ucast v) s)
                    else if port = ''tftp'' then Inr s
                    else Inl (Exit EX_NOINPUT)))"

text \<open>
  The second resolution finds the address as the first one left it (\<open>strip_address\<close> works in
  place).
\<close>

definition use_address :: "listen_env \<Rightarrow> string \<Rightarrow> socks \<Rightarrow> stop + socks" where
  "use_address env arg s =
     (case split_port (inet_aton env) arg of
        (fam, addr, portptr) \<Rightarrow>
     (case restrict_family fam s of
        Inl e \<Rightarrow> Inl e
      | Inr s1 \<Rightarrow>
     (case (if addr = [] then Inr s1
            else case resolve4 env addr s1 of
                   Inl e \<Rightarrow> Inl e
                 | Inr s2 \<Rightarrow> resolve6 env (if fd4 s1 < 0 then addr else snd (strip_address addr)) s2) of
        Inl e \<Rightarrow> Inl e
      | Inr s3 \<Rightarrow> choose_port env (case portptr of None \<Rightarrow> ''tftp'' | Some p \<Rightarrow> p) s3)))"

subsection \<open>Binding\<close>

definition bind_socket4 :: "listen_env \<Rightarrow> socks \<Rightarrow> stop + socks" where
  "bind_socket4 env s =
     (if 0 \<le> fd4 s \<and> \<not> bind_ok env (fd4 s) (bindaddr4 s) then Inl (Exit EX_OSERR) else Inr s)"

definition bind_socket6 :: "listen_env \<Rightarrow> socks \<Rightarrow> stop + socks" where
  "bind_socket6 env s =
     (if 0 \<le> fd6 s \<and> \<not> bind_ok env (fd6 s) (bindaddr6 s)
      then (if 0 \<le> fd4 s then Inr (s\<lparr>fd6 := - 1\<rparr>) else Inl (Exit EX_OSERR))
      else Inr s)"

definition bind_sum :: "'e + 'a \<Rightarrow> ('a \<Rightarrow> 'e + 'b) \<Rightarrow> 'e + 'b" where
  "bind_sum r f = (case r of Inl e \<Rightarrow> Inl e | Inr a \<Rightarrow> f a)"

definition start_socks :: "config \<Rightarrow> socks" where
  "start_socks cf = \<lparr>fd4 = - 1, fd6 = - 1, bindaddr4 = zero_addr 0, bindaddr6 = zero_addr 0, l_fam = ai_fam cf\<rparr>"

definition main_sockets :: "listen_env \<Rightarrow> config \<Rightarrow> stop + socks" where
  "main_sockets env cf =
     bind_sum (open_socket4 env (start_socks cf)) (\<lambda>s1.
     bind_sum (open_socket6 env s1) (\<lambda>s2.
     bind_sum (case address cf of None \<Rightarrow> Inr s2 | Some a \<Rightarrow> use_address env a s2) (\<lambda>s3.
     bind_sum (bind_socket4 env s3) (bind_socket6 env))))"

subsection \<open>Into the background\<close>

text \<open>What the set-up leaves for the loop; \<open>b_pidtext\<close> is what has been written to the pid file.\<close>

record 'f boot =
  b_socks :: socks
  b_fdmax :: int
  b_cfg :: config
  b_proc :: "'f proc"
  b_sigs :: sigtab
  b_pidtext :: "string option"

type_synonym 'f daemon_fun = "bool \<Rightarrow> bool \<Rightarrow> 'f proc \<Rightarrow> 'f daemon_out"

text \<open>
  \<open>daemon(secure, 0)\<close>, the exit signals, and the pid file, which is forgotten if it cannot be
  opened (errors in writing it are only logged).
\<close>

definition main_detach :: "listen_env \<Rightarrow> 'f daemon_fun \<Rightarrow> config \<Rightarrow> socks \<Rightarrow> 'f proc \<Rightarrow> sigtab \<Rightarrow> stop + 'f boot" where
  "main_detach env dm cf s p tab =
     (case (if nodaemon cf then Returns 0 p else dm (secure (c_access cf)) False p) of
        Exits c \<Rightarrow> Inl (Exit c)
      | Returns r p1 \<Rightarrow>
          if r < 0 then Inl (Exit EX_OSERR)
          else
          bind_sum (set_signal (sig_ok env) SIGTERM Handle_exit {} tab) (\<lambda>tab1.
          bind_sum (set_signal (sig_ok env) SIGINT Handle_exit {} tab1) (\<lambda>tab2.
          let fdmax = (if fd4 s < fd6 s then fd6 s else fd4 s);
              b = \<lparr>b_socks = s, b_fdmax = fdmax, b_cfg = cf, b_proc = p1, b_sigs = tab2, b_pidtext = None\<rparr>
          in Inr (if pidfile cf = None then b
                  else if \<not> pidfile_ok env then b\<lparr>b_cfg := cf\<lparr>pidfile := None\<rparr>\<rparr>
                  else b\<lparr>b_pidtext := Some (utoa (nat (p_pid p1)) @ [LF])\<rparr>))))"

text \<open>Started by \<open>inetd\<close>, the socket is descriptor 0; the output descriptors are closed.\<close>

definition main_inetd :: "listen_env \<Rightarrow> config \<Rightarrow> 'f proc \<Rightarrow> sigtab \<Rightarrow> stop + 'f boot" where
  "main_inetd env cf p tab =
     (let p1 = p\<lparr>p_fds := sys_close 2 (sys_close 1 (p_fds p))\<rparr>
      in case set_socket_nonblock env 0 of
           Some e \<Rightarrow> Inl e
         | None \<Rightarrow> Inr \<lparr>b_socks = start_socks cf, b_fdmax = 0, b_cfg = cf, b_proc = p1, b_sigs = tab, b_pidtext = None\<rparr>)"

definition main_listen :: "listen_env \<Rightarrow> 'f daemon_fun \<Rightarrow> config \<Rightarrow> 'f proc \<Rightarrow> sigtab \<Rightarrow> stop + 'f boot" where
  "main_listen env dm cf p tab =
     (if standalone cf then bind_sum (main_sockets env cf) (\<lambda>s. main_detach env dm cf s p tab)
      else main_inetd env cf p tab)"

text \<open>Children are not waited for, \<open>SIGHUP\<close> is caught, and the mask for new files is set.\<close>

definition main_settle :: "listen_env \<Rightarrow> config \<Rightarrow> sigtab \<Rightarrow> u32 \<Rightarrow> stop + (sigtab \<times> u32)" where
  "main_settle env cf tab um =
     bind_sum (set_signal (sig_ok env) SIGCHLD SIG_IGN {SA_NOCLDSTOP, SA_NOCLDWAIT} tab) (\<lambda>tab1.
     bind_sum (set_signal (sig_ok env) SIGHUP Handle_sighup {} tab1) (\<lambda>tab2.
       Inr (tab2, (if spec_umask cf \<or> \<not> unixperms (c_access cf) then my_umask cf else um))))"

lemma bind_sum_simps [simp]: "bind_sum (Inl e) f = Inl e" "bind_sum (Inr a) f = f a"
  by (simp_all add: bind_sum_def)

lemma bind_sum_Inr: "bind_sum r f = Inr b \<longleftrightarrow> (\<exists>a. r = Inr a \<and> f a = Inr b)"
  by (cases r) simp_all

subsection \<open>What is bound\<close>

text \<open>While the sockets are opened, the family decides which ones there are.\<close>

definition both_open :: "socks \<Rightarrow> bool" where
  "both_open s = ((0 \<le> fd4 s \<longleftrightarrow> l_fam s \<noteq> AF_INET6) \<and> (0 \<le> fd6 s \<longleftrightarrow> l_fam s \<noteq> AF_INET))"

definition addr_ok :: "socks \<Rightarrow> bool" where
  "addr_ok s = ((0 \<le> fd4 s \<longrightarrow> sa_family (bindaddr4 s) = AF_INET) \<and> (0 \<le> fd6 s \<longrightarrow> sa_family (bindaddr6 s) = AF_INET6))"

text \<open>The relation between the sockets before and after a later step: some may have been closed.\<close>

definition fewer :: "socks \<Rightarrow> socks \<Rightarrow> bool" where
  "fewer s s' = ((0 \<le> fd4 s' \<longrightarrow> fd4 s' = fd4 s) \<and> (0 \<le> fd6 s' \<longrightarrow> fd6 s' = fd6 s) \<and>
     (0 \<le> fd4 s \<or> 0 \<le> fd6 s \<longrightarrow> 0 \<le> fd4 s' \<or> 0 \<le> fd6 s') \<and> (addr_ok s \<longrightarrow> addr_ok s'))"

lemma fewer_refl [simp]: "fewer s s"
  by (simp add: fewer_def)

lemma fewer_trans: "fewer s s' \<Longrightarrow> fewer s' s'' \<Longrightarrow> fewer s s''"
  by (auto simp: fewer_def)

lemma open_sockets:
  assumes "open_socket4 env (start_socks cf) = Inr s1" and "open_socket6 env s1 = Inr s2"
  shows "both_open s2 \<and> addr_ok s2 \<and> l_fam s2 = ai_fam cf \<and> (0 \<le> fd4 s2 \<longrightarrow> fcntl_ok env (fd4 s2)) \<and>
    (0 \<le> fd6 s2 \<longrightarrow> fcntl_ok env (fd6 s2))"
proof -
  have s1: "l_fam s1 = ai_fam cf \<and> fd6 s1 = - 1 \<and> (0 \<le> fd4 s1 \<longleftrightarrow> ai_fam cf \<noteq> AF_INET6) \<and>
      (0 \<le> fd4 s1 \<longrightarrow> sa_family (bindaddr4 s1) = AF_INET \<and> fcntl_ok env (fd4 s1))"
    using assms(1) by (auto simp: open_socket4_def start_socks_def set_socket_nonblock_def zero_addr_def
        split: if_splits option.splits)
  then show ?thesis using assms(2)
    by (auto simp: open_socket6_def set_socket_nonblock_def zero_addr_def both_open_def addr_ok_def
        split: if_splits option.splits)
qed

lemma restrict_family_fewer:
  assumes "both_open s" and "restrict_family fam s = Inr s'"
  shows "fewer s s'"
  using assms by (auto simp: restrict_family_def both_open_def fewer_def addr_ok_def split: if_splits)

lemma choose_port_fewer:
  assumes "choose_port env port s = Inr s'"
  shows "fewer s s'"
proof -
  have "fewer s (set_ports p s)" for p by (simp add: fewer_def set_ports_def addr_ok_def)
  then show ?thesis using assms by (auto simp: choose_port_def split: if_splits option.splits prod.splits)
qed

lemma bind_sockets_fewer:
  assumes "bind_socket4 env s = Inr s4" and "bind_socket6 env s4 = Inr s5"
  shows "fewer s s5 \<and> (0 \<le> fd4 s5 \<longrightarrow> bind_ok env (fd4 s5) (bindaddr4 s5)) \<and> (0 \<le> fd6 s5 \<longrightarrow> bind_ok env (fd6 s5) (bindaddr6 s5))"
  using assms by (auto simp: bind_socket4_def bind_socket6_def fewer_def addr_ok_def split: if_splits)

context resolver
begin

lemma resolve4_fewer:
  assumes "resolve env = gai" and "resolve4 env addr s = Inr s'"
  shows "fewer s s'"
proof (cases "fd4 s < 0")
  case False
  let ?b = "(bindaddr4 s)\<lparr>sa_family := AF_INET\<rparr>"
  obtain err a nm where r: "set_sock_addr gai addr ?b = (err, a, nm)" by (metis prod_cases3)
  with assms False have "err = 0" "s' = s\<lparr>bindaddr4 := a\<rparr>" by (auto simp: resolve4_def split: if_splits)
  moreover from this r have "sa_family a = AF_INET" using set_sock_addr_family [of ?b addr a nm] by simp
  ultimately show ?thesis by (simp add: fewer_def addr_ok_def)
qed (use assms in \<open>simp add: resolve4_def\<close>)

lemma resolve6_fewer:
  assumes "resolve env = gai" and "resolve6 env addr s = Inr s'"
  shows "fewer s s'"
proof (cases "fd6 s < 0")
  case False
  let ?b = "(bindaddr6 s)\<lparr>sa_family := AF_INET6\<rparr>"
  obtain err a nm where r: "set_sock_addr gai addr ?b = (err, a, nm)" by (metis prod_cases3)
  show ?thesis
  proof (cases "err = 0")
    case True
    with assms False r have "s' = s\<lparr>bindaddr6 := a\<rparr>" by (simp add: resolve6_def)
    moreover have "sa_family a = AF_INET6" using set_sock_addr_family [of ?b addr a nm] r True by simp
    ultimately show ?thesis by (simp add: fewer_def addr_ok_def)
  next
    case False2: False
    with assms False r show ?thesis by (auto simp: resolve6_def fewer_def addr_ok_def split: if_splits)
  qed
qed (use assms in \<open>simp add: resolve6_def\<close>)

lemma use_address_fewer:
  assumes "resolve env = gai" and "both_open s" and "use_address env arg s = Inr s'"
  shows "fewer s s'"
proof -
  obtain fam addr pp where sp: "split_port (inet_aton env) arg = (fam, addr, pp)" by (metis prod_cases3)
  obtain s1 where s1: "restrict_family fam s = Inr s1"
    using assms(3) sp by (auto simp: use_address_def split: sum.splits)
  let ?addr2 = "if fd4 s1 < 0 then addr else snd (strip_address addr)"
  have "\<exists>s3. fewer s1 s3 \<and> choose_port env (case pp of None \<Rightarrow> ''tftp'' | Some p \<Rightarrow> p) s3 = Inr s'"
  proof (cases "addr = []")
    case True
    then show ?thesis using assms(3) sp s1 by (intro exI [of _ s1]) (simp add: use_address_def)
  next
    case False
    obtain s2 where s2: "resolve4 env addr s1 = Inr s2" using assms(3) sp s1 False by (auto simp: use_address_def split: sum.splits)
    obtain s3 where s3: "resolve6 env ?addr2 s2 = Inr s3" using assms(3) sp s1 s2 False
      by (cases "resolve6 env ?addr2 s2") (simp_all add: use_address_def)
    have "fewer s1 s3" using fewer_trans [OF resolve4_fewer [OF assms(1) s2] resolve6_fewer [OF assms(1) s3]] .
    then show ?thesis using assms(3) sp s1 s2 s3 False by (intro exI [of _ s3]) (simp add: use_address_def)
  qed
  then obtain s3 where "fewer s1 s3" "fewer s3 s'" using choose_port_fewer by blast
  then show ?thesis using fewer_trans restrict_family_fewer [OF assms(2) s1] by blast
qed

end

definition sockets_bound :: "listen_env \<Rightarrow> config \<Rightarrow> socks \<Rightarrow> bool" where
  "sockets_bound env cf s = ((0 \<le> fd4 s \<or> 0 \<le> fd6 s) \<and>
    (0 \<le> fd4 s \<longrightarrow> bind_ok env (fd4 s) (bindaddr4 s) \<and> fcntl_ok env (fd4 s) \<and> sa_family (bindaddr4 s) = AF_INET \<and>
       ai_fam cf \<noteq> AF_INET6) \<and>
    (0 \<le> fd6 s \<longrightarrow> bind_ok env (fd6 s) (bindaddr6 s) \<and> fcntl_ok env (fd6 s) \<and> sa_family (bindaddr6 s) = AF_INET6 \<and>
       ai_fam cf \<noteq> AF_INET))"

lemma main_sockets_bound:
  assumes "resolver (resolve env)" and "main_sockets env cf = Inr s"
  shows "sockets_bound env cf s"
proof -
  obtain s1 s2 s3 s4 where o: "open_socket4 env (start_socks cf) = Inr s1" "open_socket6 env s1 = Inr s2"
    and a: "(case address cf of None \<Rightarrow> Inr s2 | Some a \<Rightarrow> use_address env a s2) = Inr s3"
    and b: "bind_socket4 env s3 = Inr s4" "bind_socket6 env s4 = Inr s"
    using assms(2) by (auto simp: main_sockets_def bind_sum_Inr)
  note op = open_sockets [OF o]
  have "fewer s2 s3" using a resolver.use_address_fewer [OF assms(1) refl] op by (auto split: option.splits)
  then have f: "fewer s2 s" using fewer_trans bind_sockets_fewer [OF b] by blast
  have "0 \<le> fd4 s2 \<or> 0 \<le> fd6 s2" using op by (auto simp: both_open_def)
  then have some: "0 \<le> fd4 s \<or> 0 \<le> fd6 s" and ok: "addr_ok s"
    and same: "0 \<le> fd4 s \<Longrightarrow> fd4 s = fd4 s2" "0 \<le> fd6 s \<Longrightarrow> fd6 s = fd6 s2"
    using f op unfolding fewer_def by blast+
  have "0 \<le> fd4 s \<Longrightarrow> fcntl_ok env (fd4 s) \<and> ai_fam cf \<noteq> AF_INET6" "0 \<le> fd6 s \<Longrightarrow> fcntl_ok env (fd6 s) \<and> ai_fam cf \<noteq> AF_INET"
    using same op unfolding both_open_def by (metis, metis)
  then show ?thesis using some ok bind_sockets_fewer [OF b] unfolding addr_ok_def sockets_bound_def by blast
qed

text \<open>What \<open>main_detach\<close> leaves: the configuration is the same but for the pid file.\<close>

lemma main_detach_Inr:
  assumes "main_detach env dm cf s p tab = Inr b"
  shows "b_socks b = s" "b_fdmax b = max (fd4 s) (fd6 s)" "\<exists>pf. b_cfg b = cf\<lparr>pidfile := pf\<rparr>"
    "b_sigs b = tab(SIGTERM := \<lparr>sa_handler = Handle_exit, sa_mask = {}, sa_flags = {}\<rparr>,
                    SIGINT := \<lparr>sa_handler = Handle_exit, sa_mask = {}, sa_flags = {}\<rparr>)"
    "\<exists>r \<ge> 0. (if nodaemon cf then Returns 0 p else dm (secure (c_access cf)) False p) = Returns r (b_proc b)"
proof -
  obtain r p1 where d: "(if nodaemon cf then Returns 0 p else dm (secure (c_access cf)) False p) = Returns r p1" "\<not> r < 0"
    using assms by (auto simp: main_detach_def split: daemon_out.splits if_splits)
  define tab2 where "tab2 = tab(SIGTERM := \<lparr>sa_handler = Handle_exit, sa_mask = {}, sa_flags = {}\<rparr>,
                    SIGINT := \<lparr>sa_handler = Handle_exit, sa_mask = {}, sa_flags = {}\<rparr>)"
  define b0 where "b0 = \<lparr>b_socks = s, b_fdmax = (if fd4 s < fd6 s then fd6 s else fd4 s), b_cfg = cf, b_proc = p1,
      b_sigs = tab2, b_pidtext = None\<rparr>"
  have "b = (if pidfile cf = None then b0
                  else if \<not> pidfile_ok env then b0\<lparr>b_cfg := cf\<lparr>pidfile := None\<rparr>\<rparr>
                  else b0\<lparr>b_pidtext := Some (utoa (nat (p_pid p1)) @ [LF])\<rparr>)"
    using assms d by (simp add: main_detach_def set_signal_def bind_sum_Inr Let_def b0_def tab2_def split: if_splits)
  moreover have "\<exists>pf. cf = cf\<lparr>pidfile := pf\<rparr>" by (rule exI [of _ "pidfile cf"]) simp
  ultimately have "b_socks b = b_socks b0 \<and> b_fdmax b = b_fdmax b0 \<and> (\<exists>pf. b_cfg b = cf\<lparr>pidfile := pf\<rparr>) \<and>
      b_sigs b = b_sigs b0 \<and> b_proc b = b_proc b0" by (auto simp: b0_def)
  then show "b_socks b = s" "b_fdmax b = max (fd4 s) (fd6 s)" "\<exists>pf. b_cfg b = cf\<lparr>pidfile := pf\<rparr>"
    "b_sigs b = tab(SIGTERM := \<lparr>sa_handler = Handle_exit, sa_mask = {}, sa_flags = {}\<rparr>,
                    SIGINT := \<lparr>sa_handler = Handle_exit, sa_mask = {}, sa_flags = {}\<rparr>)"
    "\<exists>r \<ge> 0. (if nodaemon cf then Returns 0 p else dm (secure (c_access cf)) False p) = Returns r (b_proc b)"
    using d by (auto simp: b0_def tab2_def)
qed

lemma main_listen_standalone:
  assumes "main_listen env dm cf p tab = Inr b" and "standalone cf"
  shows "main_sockets env cf = Inr (b_socks b) \<and> b_fdmax b = max (fd4 (b_socks b)) (fd6 (b_socks b))"
proof -
  obtain s where s: "main_sockets env cf = Inr s" "main_detach env dm cf s p tab = Inr b"
    using assms by (auto simp: main_listen_def bind_sum_Inr)
  then show ?thesis using main_detach_Inr(1, 2) [OF s(2)] by simp
qed

text \<open>
  C36. The server listens on what the options ask for. If it gets through the set-up of its
  sockets in standalone mode, then at least one socket is open; every open socket has been
  bound, is non-blocking and has an address of its own family; no IPv4 socket is open when
  only IPv6 was asked for and vice versa; and the descriptor limit for \<open>select\<close> covers both.
  Name resolution may be any that answers with the family asked for.
\<close>

theorem main_listen_sockets:
  assumes "standalone cf" and "resolver (resolve env)" and "main_listen env dm cf p tab = Inr b"
    and "s = b_socks b" and "fdmax = b_fdmax b"
  shows "(0 \<le> fd4 s \<or> 0 \<le> fd6 s) \<and> fd4 s \<le> fdmax \<and> fd6 s \<le> fdmax \<and>
    (0 \<le> fd4 s \<longrightarrow> bind_ok env (fd4 s) (bindaddr4 s) \<and> fcntl_ok env (fd4 s) \<and> sa_family (bindaddr4 s) = AF_INET \<and>
       ai_fam cf \<noteq> AF_INET6) \<and>
    (0 \<le> fd6 s \<longrightarrow> bind_ok env (fd6 s) (bindaddr6 s) \<and> fcntl_ok env (fd6 s) \<and> sa_family (bindaddr6 s) = AF_INET6 \<and>
       ai_fam cf \<noteq> AF_INET)"
  using main_listen_standalone [OF assms(3, 1)] main_sockets_bound [OF assms(2), of cf s] assms(4, 5)
  by (auto simp: sockets_bound_def)

definition ex_listen :: listen_env where
  "ex_listen = \<lparr>socket4 = 3, socket6 = 4, fcntl_ok = \<lambda>_. True, inet_aton = \<lambda>_. False,
     resolve = getaddrinfo (\<lambda>_. None) True True True, getservbyname = \<lambda>_. None, bind_ok = \<lambda>_ _. True,
     sig_ok = \<lambda>_. True, pidfile_ok = True\<rparr>"

abbreviation ex_sigs :: sigtab where
  "ex_sigs \<equiv> \<lambda>_. \<lparr>sa_handler = SIG_DFL, sa_mask = {}, sa_flags = {}\<rparr>"

lemma ex_sockets:
  "ai_fam cf = 0 \<Longrightarrow> address cf = None \<Longrightarrow> \<exists>s. main_sockets ex_listen cf = Inr s \<and> fd4 s = 3 \<and> fd6 s = 4"
  by (simp add: main_sockets_def open_socket4_def open_socket6_def start_socks_def set_socket_nonblock_def
      bind_socket4_def bind_socket6_def ex_listen_def)

theorem main_listen_sockets_witness:
  "\<exists>b. main_listen ex_listen (daemon dup2 ex_daemon_env) (config_start\<lparr>standalone := True\<rparr>) ex_proc ex_sigs = Inr b \<and>
     0 \<le> fd4 (b_socks b) \<and> bind_ok ex_listen (fd4 (b_socks b)) (bindaddr4 (b_socks b)) \<and> fd6 (b_socks b) \<le> b_fdmax b"
proof -
  let ?cf = "config_start\<lparr>standalone := True\<rparr>"
  obtain s where s: "main_sockets ex_listen ?cf = Inr s" "fd4 s = 3" using ex_sockets [of ?cf] by (auto simp: config_start_def)
  obtain p' where "daemon dup2 ex_daemon_env (secure (c_access ?cf)) False ex_proc = Returns 41 p'" using ex_daemon by blast
  then obtain b where b: "main_listen ex_listen (daemon dup2 ex_daemon_env) ?cf ex_proc ex_sigs = Inr b" "b_socks b = s"
    using s by (simp add: main_listen_def main_detach_def set_signal_def ex_listen_def Let_def config_start_def)
  have "resolver (resolve ex_listen)" by (simp add: ex_listen_def lib_resolver.resolver_axioms)
  from main_listen_sockets [OF _ this b(1) refl refl] b s show ?thesis by auto
qed

text \<open>
  If the IPv6 socket cannot be opened the code says it goes on without IPv6, but it goes on
  to set the descriptor \<open>-1\<close> non-blocking and exits.
\<close>

lemma no_ipv6_socket_is_fatal:
  "standalone cf \<Longrightarrow> ai_fam cf \<noteq> AF_INET \<Longrightarrow> socket6 env < 0 \<Longrightarrow> main_listen env dm cf p tab = Inl (Exit EX_OSERR)"
  by (auto simp: main_listen_def main_sockets_def open_socket4_def open_socket6_def set_socket_nonblock_def start_socks_def
      split: option.splits)

text \<open>
  With an address and no port, on a system whose service database has no \<open>tftp\<close>, the port
  is the 0 that resolution left in the address and not 69.
\<close>

lemma tftp_port_lost:
  assumes "resolver (resolve env)" and "split_port (inet_aton env) arg = (AF_UNSPEC, h, None)" and "h \<noteq> []"
    and "getservbyname env ''tftp'' = None" and "fd6 s < 0" and "0 \<le> fd4 s" and "sa_port (bindaddr4 s) = IPPORT_TFTP"
    and "set_sock_addr (resolve env) h ((bindaddr4 s)\<lparr>sa_family := AF_INET\<rparr>) = (0, a, nm)"
    and "sin_addr a \<noteq> sin_addr (bindaddr4 s)"
  shows "\<exists>s'. use_address env arg s = Inr s' \<and> sa_port (bindaddr4 s') = 0"
proof -
  have "sa_port a = 0" using resolver.set_sock_addr_port [OF assms(1, 8)] assms(9) by auto
  moreover have "strtoul 0 ''tftp'' = (0, ''tftp'')" by (simp add: strtoul_def isspace_def digit_val_def)
  ultimately show ?thesis using assms
    by (simp add: use_address_def restrict_family_def resolve4_def resolve6_def choose_port_def)
qed

end
