(* ===== verification/Server.thy ===== *)
theory Server
  imports Listen
begin

text \<open>
  The main loop of the server and the child process that handles a request (\<open>main\<close> of
  \<open>tftpd.c\<close>). One iteration of the loop is a function of what the kernel and the signals do
  in it; the parent goes on and hands a request to a child. The child is a sequence of calls
  on its credentials and its socket that ends in \<open>tftp\<close>. Logging, path MTU discovery and
  TCP wrappers (not compiled in) are left out.
\<close>

subsection \<open>The loop of the parent\<close>

record 'rx server_state =
  caught_sighup :: bool
  exit_signal :: int
  rewrite_rules :: "'rx rule list"
  rule_count :: int
  from_addr :: sock_addr
  sock_opts :: "int \<Rightarrow> sockopts"

definition handle_sighup :: "('rx, 'z) server_state_scheme \<Rightarrow> ('rx, 'z) server_state_scheme" where
  "handle_sighup st = st\<lparr>caught_sighup := True\<rparr>"

definition handle_exit :: "int \<Rightarrow> ('rx, 'z) server_state_scheme \<Rightarrow> ('rx, 'z) server_state_scheme" where
  "handle_exit sig st = st\<lparr>exit_signal := sig\<rparr>"

datatype wait_result = Sel_fail int | Sel_timeout | Sel_ready bool bool

text \<open>
  What happens in one iteration: the signals that arrive while it waits, the result of
  \<open>select\<close> (with the readiness of the two sockets), what the ready socket delivers, which
  addresses are local, whether \<open>fork\<close> works; and the file system for the map file and the pid
  file.
\<close>

record iteration =
  i_sighup :: bool
  i_exit :: int
  i_select :: wait_result
  i_recv :: "sockopts \<Rightarrow> int + dgram"
  i_local :: "sock_addr \<Rightarrow> sock_addr option"
  i_fork :: bool
  i_files :: start_env
  i_unlink :: bool

definition arrive :: "iteration \<Rightarrow> 'rx server_state \<Rightarrow> 'rx server_state" where
  "arrive it st =
     (let st1 = (if i_sighup it then handle_sighup st else st)
      in if i_exit it \<noteq> 0 then handle_exit (i_exit it) st1 else st1)"

text \<open>A request as the child gets it.\<close>

record 'rx child =
  ch_data :: "char list"
  ch_from :: sock_addr
  ch_myaddr :: sock_addr
  ch_rules :: "'rx rule list"

datatype 'rx loop_out = Stop_server stop | Continue "'rx server_state" | Forked "'rx server_state" "'rx child"

abbreviation EAGAIN :: int where "EAGAIN \<equiv> 11"
abbreviation EINTR :: int where "EINTR \<equiv> 4"

text \<open>\<open>SIGHUP\<close>: the rules are read again, or the server returns to \<open>inetd\<close>.\<close>

definition reload ::
  "(string \<Rightarrow> bool \<Rightarrow> 'rx option) \<Rightarrow> config \<Rightarrow> iteration \<Rightarrow> 'rx server_state \<Rightarrow> stop + 'rx server_state" where
  "reload regcomp cf it st =
     (if \<not> caught_sighup st then Inr st
      else let st1 = st\<lparr>caught_sighup := False\<rparr>
           in if \<not> standalone cf then Inl (Exit 0)
              else case rewrite_file cf of
                     None \<Rightarrow> Inr st1
                   | Some f \<Rightarrow>
                       map_sum id (\<lambda>(rules, n). st1\<lparr>rewrite_rules := rules, rule_count := n\<rparr>)
                         (read_remap_rules regcomp (i_files it) f (rule_count st1)))"

definition ready_fd :: "config \<Rightarrow> socks \<Rightarrow> bool \<Rightarrow> bool \<Rightarrow> int option" where
  "ready_fd cf s r4 r6 =
     (if standalone cf then
        (if 0 \<le> fd4 s \<and> r4 then Some (fd4 s) else if 0 \<le> fd6 s \<and> r6 then Some (fd6 s) else None)
      else Some 0)"

text \<open>A wildcard address is replaced by the one the server was told to listen on.\<close>

definition fix_myaddr :: "config \<Rightarrow> socks \<Rightarrow> sock_addr \<Rightarrow> sock_addr \<Rightarrow> sock_addr" where
  "fix_myaddr cf s from myaddr =
     (if standalone cf then
        (if sa_family from = AF_INET \<and> sin_addr myaddr = 0 then myaddr\<lparr>sin_addr := sin_addr (bindaddr4 s)\<rparr>
         else if sa_family from = AF_INET6 \<and> sin6_addr myaddr = 0 then myaddr\<lparr>sin6_addr := sin6_addr (bindaddr6 s)\<rparr>
         else myaddr)
      else myaddr)"

definition serve_fd :: "config \<Rightarrow> socks \<Rightarrow> iteration \<Rightarrow> int \<Rightarrow> 'rx server_state \<Rightarrow> 'rx loop_out" where
  "serve_fd cf s it fd st =
     (case myrecvfrom (i_recv it) (i_local it) (sock_opts st fd) (from_addr st) of
        (Inl e, so) \<Rightarrow>
          if e = EAGAIN \<or> e = EINTR then Continue (st\<lparr>sock_opts := (sock_opts st)(fd := so)\<rparr>)
          else Stop_server (Exit EX_IOERR)
      | (Inr (data, from, myaddr), so) \<Rightarrow>
          let st1 = st\<lparr>sock_opts := (sock_opts st)(fd := so), from_addr := from\<rparr>
          in if sa_family from \<noteq> AF_INET \<and> sa_family from \<noteq> AF_INET6 then Stop_server (Exit EX_PROTOCOL)
             else if \<not> i_fork it then Stop_server (Exit EX_OSERR)
             else Forked st1 \<lparr>ch_data = data, ch_from = from, ch_myaddr = fix_myaddr cf s from myaddr,
                              ch_rules = rewrite_rules st1\<rparr>)"

definition main_iter ::
  "(string \<Rightarrow> bool \<Rightarrow> 'rx option) \<Rightarrow> config \<Rightarrow> socks \<Rightarrow> iteration \<Rightarrow> 'rx server_state \<Rightarrow> 'rx loop_out" where
  "main_iter regcomp cf s it st =
     (if exit_signal st \<noteq> 0 then
        Stop_server (Exit (if pidfile cf \<noteq> None \<and> \<not> i_unlink it then EX_OSERR else 0))
      else case reload regcomp cf it st of
        Inl e \<Rightarrow> Stop_server e
      | Inr st1 \<Rightarrow>
          let st2 = arrive it st1
          in case i_select it of
               Sel_fail e \<Rightarrow> if e = EINTR then Continue st2 else Stop_server (Exit EX_IOERR)
             | Sel_timeout \<Rightarrow> Stop_server (Exit 0)
             | Sel_ready r4 r6 \<Rightarrow>
                 (case ready_fd cf s r4 r6 of None \<Rightarrow> Continue st2 | Some fd \<Rightarrow> serve_fd cf s it fd st2))"

text \<open>The loop over a sequence of iterations: the requests handed out, and why it stopped if it did.\<close>

fun serve ::
  "(string \<Rightarrow> bool \<Rightarrow> 'rx option) \<Rightarrow> config \<Rightarrow> socks \<Rightarrow> iteration list \<Rightarrow> 'rx server_state \<Rightarrow>
     'rx child list \<times> stop option \<times> 'rx server_state" where
  "serve regcomp cf s [] st = ([], None, st)"
| "serve regcomp cf s (it # its) st =
     (case main_iter regcomp cf s it st of
        Stop_server e \<Rightarrow> ([], Some e, st)
      | Continue st1 \<Rightarrow> serve regcomp cf s its st1
      | Forked st1 ch \<Rightarrow> (case serve regcomp cf s its st1 of (chs, r) \<Rightarrow> (ch # chs, r)))"

subsection \<open>Every request gets its child\<close>

text \<open>
  An iteration with nothing fatal in it: no exit signal, a map file that can be read again,
  and either a datagram (\<open>Some\<close> data and sender) for which \<open>fork\<close> works, or an interrupted
  or empty wait.
\<close>

definition calm :: "(string \<Rightarrow> bool \<Rightarrow> 'rx option) \<Rightarrow> config \<Rightarrow> socks \<Rightarrow> iteration \<Rightarrow> bool" where
  "calm regcomp cf s it = (i_exit it = 0 \<and>
     (\<forall>f n. rewrite_file cf = Some f \<longrightarrow> (\<exists>r. read_remap_rules regcomp (i_files it) f n = Inr r)))"

definition event_of :: "socks \<Rightarrow> iteration \<Rightarrow> (char list \<times> sock_addr) option \<Rightarrow> bool" where
  "event_of s it ev =
     (case ev of
        Some (data, from) \<Rightarrow>
          i_fork it \<and> (sa_family from = AF_INET \<or> sa_family from = AF_INET6) \<and>
          (\<exists>r4 r6. i_select it = Sel_ready r4 r6 \<and> (0 \<le> fd4 s \<and> r4 \<or> 0 \<le> fd6 s \<and> r6)) \<and>
          (\<forall>so. \<exists>d. i_recv it so = Inr d \<and> d_data d = data \<and> d_from d = from)
      | None \<Rightarrow> i_select it = Sel_fail EINTR \<or> i_select it = Sel_ready False False \<or>
          (\<exists>r4 r6. i_select it = Sel_ready r4 r6) \<and> (\<forall>so. i_recv it so \<in> {Inl EAGAIN, Inl EINTR}))"

lemma reload_calm:
  assumes "standalone cf" and "calm regcomp cf s it"
  shows "\<exists>st1. reload regcomp cf it st = Inr st1 \<and> exit_signal st1 = exit_signal st \<and>
    (rewrite_file cf = None \<longrightarrow> rewrite_rules st1 = rewrite_rules st)"
proof (cases "caught_sighup st \<and> rewrite_file cf \<noteq> None")
  case True
  then obtain f r where "rewrite_file cf = Some f" "read_remap_rules regcomp (i_files it) f (rule_count st) = Inr r"
    using assms(2) unfolding calm_def by blast
  then show ?thesis using True assms(1) by (cases r) (simp add: reload_def)
next
  case False
  then show ?thesis using assms(1) by (auto simp: reload_def)
qed

lemma arrive_calm:
  "i_exit it = 0 \<Longrightarrow> exit_signal (arrive it st) = exit_signal st" "rewrite_rules (arrive it st) = rewrite_rules st"
  by (simp_all add: arrive_def handle_sighup_def handle_exit_def Let_def)

lemma serve_fd_request:
  assumes "i_fork it" and "sa_family from = AF_INET \<or> sa_family from = AF_INET6"
    and "\<forall>so. \<exists>d. i_recv it so = Inr d \<and> d_data d = data \<and> d_from d = from"
  shows "\<exists>st' ch. serve_fd cf s it fd st = Forked st' ch \<and> exit_signal st' = exit_signal st \<and> rewrite_rules st' = rewrite_rules st \<and>
    ch_data ch = data \<and> ch_from ch = from \<and> ch_rules ch = rewrite_rules st"
proof -
  obtain my so where m: "myrecvfrom (i_recv it) (i_local it) (sock_opts st fd) (from_addr st) = (Inr (data, from, my), so)"
    using assms(3) myrecvfrom_cases [of "i_recv it" "i_local it" "sock_opts st fd" "from_addr st"] by metis
  then show ?thesis using assms(1, 2) by (auto simp: serve_fd_def)
qed

lemma serve_fd_empty:
  assumes "\<forall>so. i_recv it so \<in> {Inl EAGAIN, Inl EINTR}"
  shows "\<exists>st'. serve_fd cf s it fd st = Continue st' \<and> exit_signal st' = exit_signal st \<and> rewrite_rules st' = rewrite_rules st"
proof -
  obtain e so where "e = EAGAIN \<or> e = EINTR"
    "myrecvfrom (i_recv it) (i_local it) (sock_opts st fd) (from_addr st) = (Inl e, so)"
    using assms myrecvfrom_cases [of "i_recv it" "i_local it" "sock_opts st fd" "from_addr st"] by (metis insert_iff singletonD)
  then show ?thesis by (auto simp: serve_fd_def)
qed

lemma ready_fd_some:
  "standalone cf \<Longrightarrow> 0 \<le> fd4 s \<and> r4 \<or> 0 \<le> fd6 s \<and> r6 \<Longrightarrow> \<exists>fd. ready_fd cf s r4 r6 = Some fd"
  by (auto simp: ready_fd_def)

lemma main_iter_calm:
  assumes sa: "standalone cf" and ok: "calm regcomp cf s it" and ev: "event_of s it ev" and ex: "exit_signal st = 0"
  shows "\<exists>st'. exit_signal st' = 0 \<and> (rewrite_file cf = None \<longrightarrow> rewrite_rules st' = rewrite_rules st) \<and>
    (case ev of None \<Rightarrow> main_iter regcomp cf s it st = Continue st'
     | Some (data, from) \<Rightarrow> \<exists>ch. main_iter regcomp cf s it st = Forked st' ch \<and> ch_data ch = data \<and> ch_from ch = from \<and>
         (rewrite_file cf = None \<longrightarrow> ch_rules ch = rewrite_rules st))"
proof -
  obtain st1 where r: "reload regcomp cf it st = Inr st1" and e1: "exit_signal st1 = 0"
    and rules: "rewrite_file cf = None \<longrightarrow> rewrite_rules st1 = rewrite_rules st"
    using reload_calm [OF sa ok, of st] ex by auto
  have e2: "exit_signal (arrive it st1) = 0" using arrive_calm(1) [of it st1] ok e1 by (simp add: calm_def)
  show ?thesis
  proof (cases ev)
    case None
    then consider "i_select it = Sel_fail EINTR" | r4 r6 where "i_select it = Sel_ready r4 r6" "ready_fd cf s r4 r6 = None"
      | r4 r6 fd where "i_select it = Sel_ready r4 r6" "ready_fd cf s r4 r6 = Some fd" "\<forall>so. i_recv it so \<in> {Inl EAGAIN, Inl EINTR}"
      using ev sa by (fastforce simp: event_of_def ready_fd_def)
    then show ?thesis
    proof cases
      case 3
      then show ?thesis using None ex r e2 serve_fd_empty [OF 3(3), of cf s fd "arrive it st1"] rules by (auto simp: main_iter_def arrive_calm(2))
    qed (use None ex r e2 rules in \<open>auto simp: main_iter_def arrive_calm(2)\<close>)
  next
    case (Some p)
    obtain data frm where p: "p = (data, frm)" by fastforce
    obtain r4 r6 where sel4: "i_select it = Sel_ready r4 r6" and "0 \<le> fd4 s \<and> r4 \<or> 0 \<le> fd6 s \<and> r6"
      using ev Some p unfolding event_of_def by (simp, blast)
    then obtain fd where sel: "i_select it = Sel_ready r4 r6" "ready_fd cf s r4 r6 = Some fd"
      using ready_fd_some [OF sa] by blast
    have "\<exists>st' ch. serve_fd cf s it fd (arrive it st1) = Forked st' ch \<and> exit_signal st' = exit_signal (arrive it st1) \<and> rewrite_rules st' = rewrite_rules (arrive it st1) \<and>
        ch_data ch = data \<and> ch_from ch = frm \<and> ch_rules ch = rewrite_rules (arrive it st1)"
      by (rule serve_fd_request) (use ev Some p in \<open>auto simp: event_of_def\<close>)
    then show ?thesis using Some p ex r e2 sel rules by (auto simp: main_iter_def arrive_calm(2))
  qed
qed

lemma serve_calm:
  assumes "standalone cf" and "\<forall>it \<in> set its. calm regcomp cf s it" and "list_all2 (event_of s) its evs"
    and "exit_signal st = 0"
  shows "\<exists>chs st'. serve regcomp cf s its st = (chs, None, st') \<and>
    map (\<lambda>ch. (ch_data ch, ch_from ch)) chs = map the (filter (\<lambda>e. e \<noteq> None) evs) \<and>
    exit_signal st' = 0 \<and> (rewrite_file cf = None \<longrightarrow> rewrite_rules st' = rewrite_rules st)"
  using assms(3, 2, 4)
proof (induction its evs arbitrary: st rule: list_all2_induct)
  case Nil
  then show ?case by simp
next
  case (Cons it its ev evs)
  have c: "calm regcomp cf s it" and rest: "\<forall>it \<in> set its. calm regcomp cf s it" using Cons.prems by simp_all
  obtain st1 where st1: "exit_signal st1 = 0" "rewrite_file cf = None \<longrightarrow> rewrite_rules st1 = rewrite_rules st"
    and it: "case ev of None \<Rightarrow> main_iter regcomp cf s it st = Continue st1
     | Some (data, from) \<Rightarrow> \<exists>ch. main_iter regcomp cf s it st = Forked st1 ch \<and> ch_data ch = data \<and> ch_from ch = from"
    using main_iter_calm [OF assms(1) c Cons.hyps(1) Cons.prems(2)] by (auto split: option.splits)
  obtain chs st' where "serve regcomp cf s its st1 = (chs, None, st')"
    "map (\<lambda>ch. (ch_data ch, ch_from ch)) chs = map the (filter (\<lambda>e. e \<noteq> None) evs)"
    "exit_signal st' = 0" "rewrite_file cf = None \<longrightarrow> rewrite_rules st' = rewrite_rules st1"
    using Cons.IH [OF rest st1(1)] by metis
  then show ?case using it st1(2) by (auto split: option.splits)
qed

text \<open>
  C5. No request is lost. Let the standalone server go through any sequence of iterations in
  which datagrams arrive, waits are interrupted or turn out empty, and the map file is
  re-read on \<open>SIGHUP\<close>, as long as no exit signal comes, \<open>fork\<close> works and the map file stays
  readable. Then the server is still running at the end, and the requests handed to child
  processes are exactly the datagrams received, with their senders, in order.
\<close>

theorem serve_every_request:
  assumes "standalone cf" and "\<forall>it \<in> set its. calm regcomp cf s it" and "list_all2 (event_of s) its evs"
    and "exit_signal st = 0"
  shows "\<exists>chs st'. serve regcomp cf s its st = (chs, None, st') \<and>
    map (\<lambda>ch. (ch_data ch, ch_from ch)) chs = map the (filter (\<lambda>e. e \<noteq> None) evs)"
  using serve_calm [OF assms] by blast

definition ex_state :: "unit server_state" where
  "ex_state = \<lparr>caught_sighup = False, exit_signal = 0, rewrite_rules = [], rule_count = 0, from_addr = zero_addr 0,
     sock_opts = \<lambda>_. new_sockopts\<rparr>"

definition ex_iter :: iteration where
  "ex_iter = \<lparr>i_sighup = False, i_exit = 0, i_select = Sel_ready True False, i_recv = ex_recvmsg, i_local = Some,
     i_fork = True, i_files = \<lparr>chdir_ok = \<lambda>_. True, map_text = \<lambda>_. None, getpwnam = \<lambda>_. None\<rparr>, i_unlink = True\<rparr>"

definition ex_socks :: socks where
  "ex_socks = \<lparr>fd4 = 3, fd6 = - 1, bindaddr4 = zero_addr AF_INET, bindaddr6 = zero_addr 0, l_fam = AF_INET\<rparr>"

theorem serve_every_request_witness:
  "\<exists>chs st'. serve (\<lambda>_ _. None) (config_start\<lparr>standalone := True\<rparr>) ex_socks [ex_iter, ex_iter] ex_state = (chs, None, st') \<and>
     map ch_data chs = [''x'', ''x'']"
proof -
  let ?ev = "Some (''x'', (zero_addr AF_INET)\<lparr>sa_port := 5000, sin_addr := 7\<rparr>)"
  have "event_of ex_socks ex_iter ?ev"
    by (simp add: event_of_def ex_iter_def ex_socks_def ex_recvmsg_def zero_addr_def) blast
  then have e: "list_all2 (event_of ex_socks) [ex_iter, ex_iter] [?ev, ?ev]" by simp
  have c: "\<forall>it \<in> set [ex_iter, ex_iter]. calm (\<lambda>_ _. None) (config_start\<lparr>standalone := True\<rparr>) ex_socks it"
    by (simp add: calm_def ex_iter_def config_start_def)
  obtain chs st' where r: "serve (\<lambda>_ _. None) (config_start\<lparr>standalone := True\<rparr>) ex_socks [ex_iter, ex_iter] ex_state = (chs, None, st')"
    "map (\<lambda>ch. (ch_data ch, ch_from ch)) chs = map the (filter (\<lambda>e. e \<noteq> None) [?ev, ?ev])"
    using serve_every_request [OF _ c e, of ex_state] by (auto simp: ex_state_def)
  have "map ch_data chs = map fst (map (\<lambda>ch. (ch_data ch, ch_from ch)) chs)" by simp
  then have "map ch_data chs = [''x'', ''x'']" unfolding r(2) by simp
  with r(1) show ?thesis by (intro exI conjI)
qed

text \<open>Signals: an exit signal ends the loop at the next iteration, whatever else happens.\<close>

lemma exit_signal_stops:
  "i_exit it \<noteq> 0 \<Longrightarrow> exit_signal (arrive it st) \<noteq> 0"
  "exit_signal st \<noteq> 0 \<Longrightarrow> \<exists>c. main_iter regcomp cf s it st = Stop_server (Exit c)"
  by (simp_all add: arrive_def handle_exit_def main_iter_def)

end
