(* ===== verification/Child.thy ===== *)
theory Child
  imports Server
begin

text \<open>
  The child process (\<open>main\<close> of \<open>tftpd.c\<close> after the loop): attaching to the monitor, the
  socket of the transfer, giving up privileges, binding a port and connecting to the client,
  and the call of \<open>tftp\<close>. The result has the credentials and the local address at the end.
\<close>

subsection \<open>Credentials\<close>

record cred =
  ruid :: int
  euid :: int
  rgid :: int
  egid :: int
  groups :: "string option"
  chrooted :: bool

text \<open>What the system calls of the child answer.\<close>

record child_env =
  e_woo :: woo_env
  e_sigaction :: bool
  e_socket :: int
  e_initgroups :: bool
  e_chroot :: bool
  e_setregid :: bool
  e_setreuid :: bool
  e_bind :: "sock_addr \<Rightarrow> int option"
  e_rand :: u32
  e_connect :: bool
  e_peer_ip :: string
  e_peer_port :: u16

text \<open>\<open>setregid\<close> and then, unless that failed, \<open>setreuid\<close>: \<open>setrv\<close> and the credentials.\<close>

definition drop_privileges :: "child_env \<Rightarrow> int \<times> int \<Rightarrow> cred \<Rightarrow> bool \<times> cred" where
  "drop_privileges env pw cr =
     (let setrv = (\<not> e_setregid env);
          cr1 = (if setrv then cr else cr\<lparr>rgid := snd pw, egid := snd pw\<rparr>)
      in if setrv then (True, cr1)
         else if \<not> e_setreuid env then (True, cr1)
         else (False, cr1\<lparr>ruid := fst pw, euid := fst pw\<rparr>))"

subsection \<open>The child\<close>

datatype child_out = Ch_exit int | Ch_fault fault | Ch_loops | Ch_tftp "(outcome \<times> xfer) option"

record child_result =
  res_out :: child_out
  res_cred :: cred
  res_addr :: sock_addr
  res_shm :: wootftpd_shared_data
  res_so :: "int \<Rightarrow> sockopts"

text \<open>The address of the client as the macros of the map file print it.\<close>

definition client_of :: "sock_addr \<Rightarrow> client_addr" where
  "client_of a =
     (if sa_family a = AF_INET then Addr_in (sin_addr a)
      else Addr_in6 (map (\<lambda>i. ucast (drop_bit (8 * (15 - i)) (sin6_addr a))) [0 ..< 16]))"

text \<open>The request handler with the server's rules, policy and option table.\<close>

definition run_tftp ::
  "'rx regexec \<Rightarrow> (sock_addr \<Rightarrow> string option) \<Rightarrow> sys_open \<Rightarrow> net_env \<Rightarrow> rcall list \<Rightarrow> config \<Rightarrow> 'rx child \<Rightarrow> xfer \<Rightarrow>
     (outcome \<times> xfer) option" where
  "run_tftp regexec ntop opn E cs cf ch x =
     tftp (c_table cf) E
       (rewrite_access regexec (rewrite_macros (client_of (ch_from ch)) (ntop (ch_from ch)))
          (if ch_rules ch = [] then None else Some (ch_rules ch)))
       (validate_access (c_access cf) opn) cs (length (ch_data ch)) x"

text \<open>The state in which \<open>tftp\<close> is called: the packet is in \<open>buf\<close>.\<close>

definition child_xfer :: "config \<Rightarrow> 'rx child \<Rightarrow> woo_data \<Rightarrow> wootftpd_shared_data \<Rightarrow> xfer \<Rightarrow> xfer" where
  "child_xfer cf ch w m x0 = x0\<lparr>xbuf := buf_write (xbuf x0) 0 (ch_data ch), xopts := c_opts cf, xwoo := w, xshm := m\<rparr>"

definition child_request ::
  "'rx regexec \<Rightarrow> (sock_addr \<Rightarrow> string option) \<Rightarrow> sys_open \<Rightarrow> net_env \<Rightarrow> rcall list \<Rightarrow> config \<Rightarrow> child_env \<Rightarrow> 'rx child \<Rightarrow>
     woo_data \<Rightarrow> wootftpd_shared_data \<Rightarrow> xfer \<Rightarrow> child_out \<times> wootftpd_shared_data" where
  "child_request regexec ntop opn E cs cf env ch w m x0 =
     (case woo_set_ip_port_from_socket_id w m (e_peer_ip env) (e_peer_port env) of
        Inl e \<Rightarrow> (Ch_fault e, m)
      | Inr (_, m1) \<Rightarrow>
          let x1 = child_xfer cf ch w m1 x0; tp_opcode = get16 (xbuf x1) 0
          in if tp_opcode = RRQ \<or> tp_opcode = WRQ then (Ch_tftp (run_tftp regexec ntop opn E cs cf ch x1), m1)
             else (Ch_exit 0, m1))"

definition child_main ::
  "'rx regexec \<Rightarrow> (sock_addr \<Rightarrow> string option) \<Rightarrow> sys_open \<Rightarrow> net_env \<Rightarrow> rcall list \<Rightarrow> config \<Rightarrow> int \<times> int \<Rightarrow>
     child_env \<Rightarrow> 'rx child \<Rightarrow> xfer \<Rightarrow> cred \<Rightarrow> child_result" where
  "child_main regexec ntop opn E cs cf pw env ch x0 cr0 =
     (case woo_init (e_woo env) (xwoo x0) (xshm x0) of
        (_, w, m) \<Rightarrow>
          let my0 = ch_myaddr ch; quit = (\<lambda>code cr my. \<lparr>res_out = Ch_exit code, res_cred = cr, res_addr = my, res_shm = m, res_so = \<lambda>_. new_sockopts\<rparr>)
          in if \<not> e_sigaction env then quit EX_OSERR cr0 my0
          else if e_socket env < 0 then quit EX_IOERR cr0 my0
          else if \<not> e_initgroups env then quit EX_OSERR cr0 my0
          else let cr1 = cr0\<lparr>groups := Some (user cf)\<rparr>
          in if secure (c_access cf) \<and> \<not> e_chroot env then quit EX_OSERR cr1 my0
          else let cr2 = (if secure (c_access cf) then cr1\<lparr>chrooted := True\<rparr> else cr1)
          in case drop_privileges env pw cr2 of
               (True, cr3) \<Rightarrow> quit EX_OSERR cr3 my0
             | (False, cr3) \<Rightarrow>
                 (case pick_port_bind (e_bind env) (e_rand env) (portrange_from cf) (portrange_to cf) my0 of
                    None \<Rightarrow> \<lparr>res_out = Ch_loops, res_cred = cr3, res_addr = my0, res_shm = m, res_so = \<lambda>_. new_sockopts\<rparr>
                  | Some (rv, my) \<Rightarrow>
                      if rv < 0 then quit EX_IOERR cr3 my
                      else if \<not> e_connect env then quit EX_IOERR cr3 my
                      else let so = pmtu_discovery_off (e_socket env) (\<lambda>_. new_sockopts)
                      in case child_request regexec ntop opn E cs cf env ch w m x0 of
                           (out, m1) \<Rightarrow> \<lparr>res_out = out, res_cred = cr3, res_addr = my, res_shm = m1, res_so = so\<rparr>))"

subsection \<open>No request is touched with privileges\<close>

lemma drop_privileges_ok:
  "drop_privileges env pw cr = (False, cr') \<Longrightarrow>
     cr' = cr\<lparr>rgid := snd pw, egid := snd pw, ruid := fst pw, euid := fst pw\<rparr>"
  by (auto simp: drop_privileges_def Let_def split: if_splits)

text \<open>The calls that have to work before the request is looked at.\<close>

definition child_ready :: "config \<Rightarrow> child_env \<Rightarrow> bool" where
  "child_ready cf env = (e_sigaction env \<and> 0 \<le> e_socket env \<and> e_initgroups env \<and> (secure (c_access cf) \<longrightarrow> e_chroot env) \<and>
     e_setregid env \<and> e_setreuid env \<and> e_connect env)"

definition child_cred :: "config \<Rightarrow> int \<times> int \<Rightarrow> cred \<Rightarrow> cred" where
  "child_cred cf pw cr0 =
     \<lparr>ruid = fst pw, euid = fst pw, rgid = snd pw, egid = snd pw, groups = Some (user cf),
      chrooted = (secure (c_access cf) \<or> chrooted cr0)\<rparr>"

lemma child_main_ready:
  assumes "child_ready cf env" and "woo_init (e_woo env) (xwoo x0) (xshm x0) = (rw, w, m)"
    and "pick_port_bind (e_bind env) (e_rand env) (portrange_from cf) (portrange_to cf) (ch_myaddr ch) = Some (rv, my)"
    and "0 \<le> rv"
  shows "child_main regexec ntop opn E cs cf pw env ch x0 cr0 =
    \<lparr>res_out = fst (child_request regexec ntop opn E cs cf env ch w m x0), res_cred = child_cred cf pw cr0,
     res_addr = my, res_shm = snd (child_request regexec ntop opn E cs cf env ch w m x0),
     res_so = pmtu_discovery_off (e_socket env) (\<lambda>_. new_sockopts)\<rparr>"
  using assms by (simp add: child_main_def child_ready_def drop_privileges_def child_cred_def Let_def split: prod.split)

lemma child_main_runs_tftp:
  assumes "child_ready cf env" and "woo_init (e_woo env) (xwoo x0) (xshm x0) = (rw, w, m)"
    and "pick_port_bind (e_bind env) (e_rand env) (portrange_from cf) (portrange_to cf) (ch_myaddr ch) = Some (rv, my)"
    and "0 \<le> rv" and "woo_set_ip_port_from_socket_id w m (e_peer_ip env) (e_peer_port env) = Inr (c, m1)"
    and "get16 (buf_write (xbuf x0) 0 (ch_data ch)) 0 = RRQ \<or> get16 (buf_write (xbuf x0) 0 (ch_data ch)) 0 = WRQ"
  shows "child_main regexec ntop opn E cs cf pw env ch x0 cr0 =
    \<lparr>res_out = Ch_tftp (run_tftp regexec ntop opn E cs cf ch (child_xfer cf ch w m1 x0)), res_cred = child_cred cf pw cr0,
     res_addr = my, res_shm = m1, res_so = pmtu_discovery_off (e_socket env) (\<lambda>_. new_sockopts)\<rparr>"
  using child_main_ready [OF assms(1-4)] assms(5, 6)
  by (simp add: child_request_def child_xfer_def Let_def)

lemma child_main_tftp:
  assumes "res_out (child_main regexec ntop opn E cs cf pw env ch x0 cr0) = Ch_tftp t"
  shows "child_ready cf env \<and> (\<exists>rv my. 0 \<le> rv \<and>
    pick_port_bind (e_bind env) (e_rand env) (portrange_from cf) (portrange_to cf) (ch_myaddr ch) = Some (rv, my))"
proof -
  obtain rw w m where w: "woo_init (e_woo env) (xwoo x0) (xshm x0) = (rw, w, m)" by (metis prod_cases3)
  let ?cr2 = "if secure (c_access cf) then cr0\<lparr>groups := Some (user cf), chrooted := True\<rparr> else cr0\<lparr>groups := Some (user cf)\<rparr>"
  have ok: "e_sigaction env" "\<not> e_socket env < 0" "e_initgroups env" "\<not> (secure (c_access cf) \<and> \<not> e_chroot env)"
    using assms unfolding child_main_def w Let_def by (auto split: if_splits)
  have priv: "e_setregid env \<and> e_setreuid env"
  proof (rule ccontr)
    assume "\<not> (e_setregid env \<and> e_setreuid env)"
    then obtain cr3 where "drop_privileges env pw ?cr2 = (True, cr3)"
      by (cases "e_setregid env") (simp_all add: drop_privileges_def)
    then show False using assms ok unfolding child_main_def w Let_def by simp
  qed
  then obtain cr3 where d: "drop_privileges env pw ?cr2 = (False, cr3)" by (simp add: drop_privileges_def)
  have "\<exists>rv my. pick_port_bind (e_bind env) (e_rand env) (portrange_from cf) (portrange_to cf) (ch_myaddr ch) = Some (rv, my) \<and>
      0 \<le> rv \<and> e_connect env"
    using assms ok d unfolding child_main_def w Let_def by (simp split: option.splits prod.splits if_splits)
  then show ?thesis using ok priv by (auto simp: child_ready_def)
qed

text \<open>
  C4. No request is processed with privileges. If the child gets as far as looking at the
  request (\<open>tftp\<close> runs), then it has the user and group id of the configured user, real and
  effective, and that user's groups; with \<open>-s\<close> it is confined to the server directory; its
  socket is bound to the local address of the request, with a port of the configured range if
  there is one, and does not discover the path MTU. The choice of the port never loops.
\<close>

theorem child_privileges:
  assumes "res_out r = Ch_tftp t" and "r = child_main regexec ntop opn E cs cf pw env ch x0 cr0"
    and "config_ok cf" and "sa_family (ch_myaddr ch) = AF_INET \<or> sa_family (ch_myaddr ch) = AF_INET6"
  shows "ruid (res_cred r) = fst pw \<and> euid (res_cred r) = fst pw \<and> rgid (res_cred r) = snd pw \<and> egid (res_cred r) = snd pw \<and>
    groups (res_cred r) = Some (user cf) \<and> (secure (c_access cf) \<longrightarrow> chrooted (res_cred r)) \<and>
    e_bind env (res_addr r) = None \<and> res_addr r = (ch_myaddr ch)\<lparr>sa_port := sa_port (res_addr r)\<rparr> \<and>
    (portrange_from cf \<noteq> 0 \<longrightarrow> unat (portrange_from cf) \<le> unat (sa_port (res_addr r)) \<and>
       unat (sa_port (res_addr r)) \<le> unat (portrange_to cf)) \<and> so_pmtu_off (res_so r (e_socket env))"
proof -
  let ?f = "unat (portrange_from cf)" and ?t = "unat (portrange_to cf)"
  obtain rv my where ready: "child_ready cf env" and rv: "0 \<le> rv"
    and pick: "pick_port_bind (e_bind env) (e_rand env) (portrange_from cf) (portrange_to cf) (ch_myaddr ch) = Some (rv, my)"
    using child_main_tftp assms(1, 2) by blast
  obtain rw w m where w: "woo_init (e_woo env) (xwoo x0) (xshm x0) = (rw, w, m)" by (metis prod_cases3)
  have r: "res_cred r = child_cred cf pw cr0" "res_addr r = my" "so_pmtu_off (res_so r (e_socket env))"
    using child_main_ready [OF ready w pick rv] assms(2) ready by (simp_all add: child_ready_def pmtu_discovery_off_def)
  have ft: "?f \<le> ?t" "?t < 65535" using assms(3) by (simp_all add: config_ok_def word_le_nat_alt)
  let ?ps = "if portrange_from cf \<noteq> 0 then rotate (unat (e_rand env) mod (?t - ?f + 1)) [?f ..< ?t + 1] else [0]"
  have "scan_ports (e_bind env) (ch_myaddr ch) ?ps = (rv, my)"
    using pick pick_port_bind_eq [of "portrange_from cf" "portrange_to cf"] ft by simp
  from scan_ports_ok [OF this rv assms(4)] obtain p where b: "e_bind env my = None" and p: "p \<in> set ?ps"
    and my: "my = (ch_myaddr ch)\<lparr>sa_port := of_nat p\<rparr>" by blast
  have "?f \<le> unat (sa_port my) \<and> unat (sa_port my) \<le> ?t" if "portrange_from cf \<noteq> 0"
  proof -
    have "?f \<le> p" "p \<le> ?t" using p that by auto
    then show ?thesis using ft by (simp add: my unsigned_of_nat take_bit_nat_eq_self)
  qed
  then show ?thesis using r b my by (simp add: child_cred_def)
qed

definition ex_child_env :: child_env where
  "ex_child_env = \<lparr>e_woo = \<lparr>env_sem_open = False, env_shm_open = 3, env_mmap = True, env_kill0 = \<lambda>_. 0\<rparr>,
     e_sigaction = True, e_socket = 5, e_initgroups = True, e_chroot = True, e_setregid = True, e_setreuid = True,
     e_bind = \<lambda>_. None, e_rand = 0, e_connect = True, e_peer_ip = ''10.0.0.7'', e_peer_port = 5000\<rparr>"

definition ex_root :: cred where
  "ex_root = \<lparr>ruid = 0, euid = 0, rgid = 0, egid = 0, groups = None, chrooted = False\<rparr>"

lemma pick_port_bind_free:
  assumes "\<And>a. bind a = None"
  shows "\<exists>my. pick_port_bind bind rand from to a = Some (0, my)"
  using assms by (simp add: pick_port_bind_def pick_loop.simps Let_def)

lemma woo_init_absent:
  "\<not> env_sem_open we \<Longrightarrow> woo_init we w m = (20, w\<lparr>semaphore := False, mapped := False, enable := 0\<rparr>, m)"
  by (simp add: woo_init_def Let_def)

theorem child_privileges_witness:
  "euid (res_cred (child_main (\<lambda>(_::unit) _. Rx_nomatch) (\<lambda>_. None) ex_open ex_net [] config_start (65534, 65534) ex_child_env
     \<lparr>ch_data = ex_request, ch_from = zero_addr AF_INET, ch_myaddr = zero_addr AF_INET, ch_rules = [] :: unit rule list\<rparr>
     (ex_xfer writing) ex_root)) = 65534"
proof -
  let ?ch = "\<lparr>ch_data = ex_request, ch_from = zero_addr AF_INET, ch_myaddr = zero_addr AF_INET, ch_rules = [] :: unit rule list\<rparr>"
  let ?w = "ex_woo\<lparr>semaphore := False, mapped := False, enable := 0\<rparr>"
  have ready: "child_ready config_start ex_child_env" by (simp add: child_ready_def ex_child_env_def)
  have i: "woo_init (e_woo ex_child_env) (xwoo (ex_xfer writing)) (xshm (ex_xfer writing)) = (20, ?w, ex_shm)"
    using woo_init_absent by (simp add: ex_child_env_def ex_xfer_def)
  obtain my where p: "pick_port_bind (e_bind ex_child_env) (e_rand ex_child_env) (portrange_from config_start)
      (portrange_to config_start) (ch_myaddr ?ch) = Some (0, my)"
    using pick_port_bind_free [of "e_bind ex_child_env" "e_rand ex_child_env" "portrange_from config_start"
        "portrange_to config_start" "ch_myaddr ?ch"] by (auto simp: ex_child_env_def)
  have s: "woo_set_ip_port_from_socket_id ?w ex_shm (e_peer_ip ex_child_env) (e_peer_port ex_child_env) = Inr (10, ex_shm)"
    by (simp add: woo_set_ip_port_from_socket_id_def)
  have g: "get16 (buf_write (xbuf (ex_xfer writing)) 0 (ch_data ?ch)) 0 = RRQ"
    by (simp add: get16_def buf_write_def ex_request_def encode_request_def be16_def)
  let ?r = "child_main (\<lambda>(_::unit) _. Rx_nomatch) (\<lambda>_. None) ex_open ex_net [] config_start (65534, 65534) ex_child_env ?ch
     (ex_xfer writing) ex_root"
  obtain t where t: "res_out ?r = Ch_tftp t"
    using child_main_runs_tftp [OF ready i p _ s disjI1, OF _ g] by simp
  have "sa_family (ch_myaddr ?ch) = AF_INET \<or> sa_family (ch_myaddr ?ch) = AF_INET6" by (simp add: zero_addr_def)
  from child_privileges [OF t refl config_start_ok this] show ?thesis by simp
qed

text \<open>
  A datagram with any other opcode still takes one of the five slots of the monitor, which
  stays marked as running when the child exits.
\<close>

lemma bogus_request_keeps_slot:
  assumes "child_ready cf env" and "woo_init (e_woo env) (xwoo x0) (xshm x0) = (0, w, m)"
    and "pick_port_bind (e_bind env) (e_rand env) (portrange_from cf) (portrange_to cf) (ch_myaddr ch) = Some (0, my)"
    and "shm_inv m" and "woo_inv w m" and "length (e_peer_ip env) < 46" and "enable w \<noteq> 0"
    and "get16 (buf_write (xbuf x0) 0 (ch_data ch)) 0 \<notin> {RRQ, WRQ}"
  shows "\<exists>m'. child_main regexec ntop opn E cs cf pw env ch x0 cr0 =
      \<lparr>res_out = Ch_exit 0, res_cred = child_cred cf pw cr0, res_addr = my, res_shm = m',
       res_so = pmtu_discovery_off (e_socket env) (\<lambda>_. new_sockopts)\<rparr> \<and> woo_inv w m'"
proof -
  let ?m1 = "upd_slot w (op_ip_update (\<lambda>_. e_peer_ip env)) m"
  let ?m2 = "snd (woo_set_port w ?m1 (uint (e_peer_port env)))"
  have ip: "woo_set_ip w m (e_peer_ip env) = Inr (None, ?m1)" using assms(6, 7) by (simp add: woo_set_ip_def)
  have "woo_inv w ?m1" using set_ip.call_woo_inv [OF assms(4, 5), of w "e_peer_ip env"] ip by (simp add: done_or_def)
  moreover have "shm_inv ?m1" using set_ip.call_shm_inv [OF assms(4), of w "e_peer_ip env"] ip by (simp add: done_or_def)
  ultimately have "woo_inv w ?m2" by (intro set_port.call_woo_inv)
  moreover have "child_request regexec ntop opn E cs cf env ch w m x0 = (Ch_exit 0, ?m2)"
    using assms(7, 8) ip by (simp add: child_request_def woo_set_ip_port_from_socket_id_def child_xfer_def Let_def)
  ultimately show ?thesis using child_main_ready [OF assms(1, 2, 3)] by auto
qed

end
