(* ===== verification/Program.thy ===== *)
theory Program
  imports Child
begin

text \<open>
  The whole server program: \<open>main\<close> from the command line to the loop, the signals that reach
  the loop, and the life of a request from the datagram to the end of the transfer in the
  child. The components are those of the other theories; this theory composes them the way
  \<open>main\<close> does.
\<close>

subsection \<open>From the command line to the loop\<close>

text \<open>What the loop starts with; \<open>r_umask\<close> is the file mode mask in force.\<close>

record ('rx, 'f) running =
  r_boot :: "'f boot"
  r_pw :: "int \<times> int"
  r_state :: "'rx server_state"
  r_sigs :: sigtab
  r_umask :: u32

definition start_state :: "int \<Rightarrow> 'rx rule list \<Rightarrow> int \<Rightarrow> 'rx server_state" where
  "start_state fd rules n =
     \<lparr>caught_sighup = False, exit_signal = 0, rewrite_rules = rules, rule_count = n, from_addr = zero_addr 0,
      sock_opts = pmtu_discovery_off fd (\<lambda>_. new_sockopts)\<rparr>"

definition main_boot ::
  "(string \<Rightarrow> bool \<Rightarrow> 'rx option) \<Rightarrow> start_env \<Rightarrow> listen_env \<Rightarrow> 'f daemon_fun \<Rightarrow> string list \<Rightarrow> 'f proc \<Rightarrow> sigtab \<Rightarrow> u32 \<Rightarrow>
     (stop + ('rx, 'f) running) option" where
  "main_boot regcomp senv env dm argv p tab um =
     map_option (\<lambda>r.
       bind_sum r (\<lambda>cf.
       bind_sum (main_start regcomp senv cf) (\<lambda>(cf1, pw, rules, n).
       bind_sum (main_listen env dm cf1 p tab) (\<lambda>b.
       bind_sum (main_settle env (b_cfg b) (b_sigs b) um) (\<lambda>(sigs, um1).
         Inr \<lparr>r_boot = b, r_pw = pw, r_state = start_state (if standalone cf1 then - 1 else 0) rules n, r_sigs = sigs, r_umask = um1\<rparr>)))))
       (main_options argv)"

text \<open>
  A signal that reaches the process while it waits: \<open>None\<close> is the end of the process, the
  default action of the signals the server deals with except \<open>SIGCHLD\<close>.
\<close>

definition deliver_signal :: "sigtab \<Rightarrow> int \<Rightarrow> 'rx server_state \<Rightarrow> 'rx server_state option" where
  "deliver_signal sigs sig st =
     (case sa_handler (sigs sig) of
        SIG_DFL \<Rightarrow> if sig = SIGCHLD then Some st else None
      | SIG_IGN \<Rightarrow> Some st
      | Handle_exit \<Rightarrow> Some (handle_exit sig st)
      | Handle_sighup \<Rightarrow> Some (handle_sighup st))"

subsection \<open>The contract of \<open>daemon\<close>\<close>

text \<open>
  In a process that has its standard descriptors, a \<open>daemon\<close> that returns without an error
  leaves the other descriptors alone. Both the replacement and one built on the \<open>dup2\<close> of
  POSIX keep it.
\<close>

locale daemon_call =
  fixes dm :: "'f daemon_fun"
  assumes dm_keeps: "dm nochdir False p = Returns r p' \<Longrightarrow> 0 \<le> r \<Longrightarrow> \<forall>k < 3. fd_open (p_fds p) (int k) \<Longrightarrow> 3 \<le> k \<Longrightarrow>
    p_fds p' ! k = p_fds p ! k"
begin

lemma main_detach_keeps:
  assumes "main_detach env dm cf s p tab = Inr b" and "\<forall>k < 3. fd_open (p_fds p) (int k)" and "3 \<le> k"
  shows "p_fds (b_proc b) ! k = p_fds p ! k"
proof -
  obtain r where r: "0 \<le> r" "(if nodaemon cf then Returns 0 p else dm (secure (c_access cf)) False p) = Returns r (b_proc b)"
    using main_detach_Inr(5) [OF assms(1)] by blast
  then show ?thesis using dm_keeps [OF _ r(1) assms(2, 3), of "secure (c_access cf)" "b_proc b"] by (auto split: if_splits)
qed

end

interpretation lib_daemon: daemon_call "daemon dup2 env" for env
  by unfold_locales (drule (2) lib_dup.daemon_returns; auto)

interpretation posix_daemon: daemon_call "daemon posix_dup2 env" for env
  by unfold_locales (drule (2) posix_dup.daemon_returns; auto)

subsection \<open>The server is ready\<close>

lemma config_ok_pidfile [simp]: "config_ok (cf\<lparr>pidfile := pf\<rparr>) = config_ok cf"
  by (simp add: config_ok_def)

lemma main_start_Inr:
  assumes "main_start regcomp senv cf = Inr (cf1, pw, rules, n)"
  shows "(\<exists>pf. cf1 = cf\<lparr>pidfile := pf\<rparr>) \<and> getpwnam senv (user cf) = Some pw \<and> (rewrite_file cf = None \<longrightarrow> rules = [])"
proof -
  have "\<exists>pf. cf = cf\<lparr>pidfile := pf\<rparr>" by (rule exI [of _ "pidfile cf"]) simp
  then show ?thesis using assms by (auto simp: main_start_def split: option.splits sum.splits if_splits)
qed

lemma main_listen_Inr:
  assumes "main_listen env dm cf p tab = Inr b"
  shows "(\<exists>pf. b_cfg b = cf\<lparr>pidfile := pf\<rparr>)"
proof -
  have "\<exists>pf. cf = cf\<lparr>pidfile := pf\<rparr>" by (rule exI [of _ "pidfile cf"]) simp
  then show ?thesis using assms main_detach_Inr(3)
    by (auto simp: main_listen_def bind_sum_Inr main_inetd_def Let_def split: if_splits option.splits)
qed

lemma main_settle_Inr:
  "main_settle env cf tab um = Inr (sigs, um1) \<Longrightarrow>
     sigs = tab(SIGCHLD := \<lparr>sa_handler = SIG_IGN, sa_mask = {}, sa_flags = {SA_NOCLDSTOP, SA_NOCLDWAIT}\<rparr>,
                SIGHUP := \<lparr>sa_handler = Handle_sighup, sa_mask = {}, sa_flags = {}\<rparr>) \<and>
     um1 = (if spec_umask cf \<or> \<not> unixperms (c_access cf) then my_umask cf else um)"
  by (auto simp: main_settle_def set_signal_def bind_sum_Inr split: if_splits)

lemma main_boot_Inr:
  assumes "main_boot regcomp senv env dm argv p tab um = Some (Inr r)"
  obtains cf cf1 n where "main_options argv = Some (Inr cf)" and "main_start regcomp senv cf = Inr (cf1, r_pw r, rewrite_rules (r_state r), n)"
    and "main_listen env dm cf1 p tab = Inr (r_boot r)"
    and "main_settle env (b_cfg (r_boot r)) (b_sigs (r_boot r)) um = Inr (r_sigs r, r_umask r)"
    and "r_state r = start_state (if standalone cf1 then - 1 else 0) (rewrite_rules (r_state r)) n"
proof -
  obtain opt where "main_options argv = Some opt" and "bind_sum opt (\<lambda>cf.
       bind_sum (main_start regcomp senv cf) (\<lambda>(cf1, pw, rules, n).
       bind_sum (main_listen env dm cf1 p tab) (\<lambda>b.
       bind_sum (main_settle env (b_cfg b) (b_sigs b) um) (\<lambda>(sigs, um1).
         Inr \<lparr>r_boot = b, r_pw = pw, r_state = start_state (if standalone cf1 then - 1 else 0) rules n, r_sigs = sigs, r_umask = um1\<rparr>)))) = Inr r"
    using assms by (auto simp: main_boot_def)
  then show ?thesis by (auto simp: bind_sum_Inr start_state_def intro: that)
qed

text \<open>The configuration of a running server: it satisfies the bounds of the command line.\<close>

lemma main_boot_config:
  assumes "main_boot regcomp senv env dm argv p tab um = Some (Inr r)"
  shows "config_ok (b_cfg (r_boot r)) \<and> exit_signal (r_state r) = 0 \<and>
    getpwnam senv (user (b_cfg (r_boot r))) = Some (r_pw r) \<and>
    (rewrite_file (b_cfg (r_boot r)) = None \<longrightarrow> rewrite_rules (r_state r) = [])"
  using assms
proof (rule main_boot_Inr)
  fix cf cf1 n
  assume o: "main_options argv = Some (Inr cf)" and s: "main_start regcomp senv cf = Inr (cf1, r_pw r, rewrite_rules (r_state r), n)"
    and l: "main_listen env dm cf1 p tab = Inr (r_boot r)" and st: "r_state r = start_state (if standalone cf1 then - 1 else 0) (rewrite_rules (r_state r)) n"
  obtain pf pf' where "cf1 = cf\<lparr>pidfile := pf\<rparr>" "b_cfg (r_boot r) = cf1\<lparr>pidfile := pf'\<rparr>"
    using main_start_Inr [OF s] main_listen_Inr [OF l] by blast
  moreover have "exit_signal (r_state r) = 0" by (subst st) (simp add: start_state_def)
  ultimately show ?thesis using main_options_ok [OF o] main_start_Inr [OF s] by simp
qed

text \<open>
  Path MTU discovery is turned off on descriptor 0 under \<open>inetd\<close>; a standalone server calls
  \<open>pmtu_discovery_off\<close> with the descriptor -1 and leaves its listening sockets as they are.
\<close>

lemma main_boot_pmtu:
  assumes "main_boot regcomp senv env dm argv p tab um = Some (Inr r)"
  shows "so_pmtu_off (sock_opts (r_state r) fd) \<longleftrightarrow> \<not> standalone (b_cfg (r_boot r)) \<and> fd = 0"
  using assms
proof (rule main_boot_Inr)
  fix cf cf1 n
  assume l: "main_listen env dm cf1 p tab = Inr (r_boot r)"
    and st: "r_state r = start_state (if standalone cf1 then - 1 else 0) (rewrite_rules (r_state r)) n"
  obtain pf where "b_cfg (r_boot r) = cf1\<lparr>pidfile := pf\<rparr>" using main_listen_Inr [OF l] by blast
  then show ?thesis by (subst st) (simp add: start_state_def pmtu_discovery_off_def)
qed

text \<open>
  C6. The program gets ready or says why not. On every command line \<open>main\<close> comes to an end of
  its set-up, with an exit code or with a server in the loop. In the standalone case, with
  a resolver and a \<open>daemon\<close> that keep their contracts and standard descriptors that were open
  at the start, the loop begins with sane settings; at least one socket is open, bound and
  non-blocking, and every descriptor from 3 on refers to what it did before the process went into
  the background; \<open>SIGTERM\<close> and \<open>SIGINT\<close> will end the loop, \<open>SIGHUP\<close> will reload the rules, and the end
  of a child is ignored; and no exit is pending.
\<close>

theorem main_boot_ready:
  assumes "argv \<noteq> []" and "resolver (resolve env)" and "daemon_call dm" and "\<forall>k < 3. fd_open (p_fds p) (int k)"
  shows "\<exists>res. main_boot regcomp senv env dm argv p tab um = Some res \<and>
    (\<forall>r. res = Inr r \<longrightarrow> standalone (b_cfg (r_boot r)) \<longrightarrow>
      config_ok (b_cfg (r_boot r)) \<and> sockets_bound env (b_cfg (r_boot r)) (b_socks (r_boot r)) \<and>
      (\<forall>k. 3 \<le> k \<longrightarrow> p_fds (b_proc (r_boot r)) ! k = p_fds p ! k) \<and> exit_signal (r_state r) = 0 \<and>
      (\<forall>st. deliver_signal (r_sigs r) SIGTERM st = Some (handle_exit SIGTERM st) \<and>
            deliver_signal (r_sigs r) SIGINT st = Some (handle_exit SIGINT st) \<and>
            deliver_signal (r_sigs r) SIGHUP st = Some (handle_sighup st) \<and>
            deliver_signal (r_sigs r) SIGCHLD st = Some st))"
proof -
  obtain res where res: "main_boot regcomp senv env dm argv p tab um = Some res"
    using main_options_returns [OF assms(1)] by (auto simp: main_boot_def)
  have "config_ok (b_cfg (r_boot r)) \<and> sockets_bound env (b_cfg (r_boot r)) (b_socks (r_boot r)) \<and>
      (\<forall>k. 3 \<le> k \<longrightarrow> p_fds (b_proc (r_boot r)) ! k = p_fds p ! k) \<and> exit_signal (r_state r) = 0 \<and>
      (\<forall>st. deliver_signal (r_sigs r) SIGTERM st = Some (handle_exit SIGTERM st) \<and>
            deliver_signal (r_sigs r) SIGINT st = Some (handle_exit SIGINT st) \<and>
            deliver_signal (r_sigs r) SIGHUP st = Some (handle_sighup st) \<and>
            deliver_signal (r_sigs r) SIGCHLD st = Some st)"
    if r: "res = Inr r" and sa: "standalone (b_cfg (r_boot r))" for r
  proof -
    have boot: "main_boot regcomp senv env dm argv p tab um = Some (Inr r)" using res r by simp
    then obtain cf cf1 n where l: "main_listen env dm cf1 p tab = Inr (r_boot r)"
      and se: "main_settle env (b_cfg (r_boot r)) (b_sigs (r_boot r)) um = Inr (r_sigs r, r_umask r)"
      by (rule main_boot_Inr)
    obtain pf where b: "b_cfg (r_boot r) = cf1\<lparr>pidfile := pf\<rparr>" using main_listen_Inr [OF l] by blast
    obtain s where s: "main_sockets env cf1 = Inr s" and d: "main_detach env dm cf1 s p tab = Inr (r_boot r)"
      using l sa by (auto simp: main_listen_def bind_sum_Inr b)
    have "sockets_bound env (b_cfg (r_boot r)) (b_socks (r_boot r))"
      using main_sockets_bound [OF assms(2) s] by (simp add: b main_detach_Inr(1) [OF d] sockets_bound_def)
    moreover have "\<forall>k. 3 \<le> k \<longrightarrow> p_fds (b_proc (r_boot r)) ! k = p_fds p ! k"
      using daemon_call.main_detach_keeps [OF assms(3) d assms(4)] by blast
    moreover have "r_sigs r = (b_sigs (r_boot r))(SIGCHLD := \<lparr>sa_handler = SIG_IGN, sa_mask = {}, sa_flags = {SA_NOCLDSTOP, SA_NOCLDWAIT}\<rparr>,
                SIGHUP := \<lparr>sa_handler = Handle_sighup, sa_mask = {}, sa_flags = {}\<rparr>)"
      using main_settle_Inr [OF se] by simp
    ultimately show ?thesis using main_boot_config [OF boot]
      by (simp add: deliver_signal_def main_detach_Inr(4) [OF d])
  qed
  then show ?thesis using res by blast
qed

text \<open>A server started with \<open>-l\<close> and one directory.\<close>

definition ex_start_env :: start_env where
  "ex_start_env = \<lparr>chdir_ok = \<lambda>_. True, map_text = \<lambda>_. None, getpwnam = \<lambda>_. Some (65534, 65534)\<rparr>"

abbreviation ex_config :: config where
  "ex_config \<equiv> config_start\<lparr>standalone := True, c_access := ex_cfg\<rparr>"

lemma ex_options: "main_options [''tftpd'', ''-l'', ''/tftpboot''] = Some (Inr ex_config)"
proof -
  let ?its = "[Cluster ''l'']"
  have ev: "concat (map (item_events long_options) ?its) = [(schar (CHR ''l''), None)]" by simp
  have v: "list_all (item_valid short_options long_options) ?its"
    by (simp add: letter_def find_short_def short_options_def schar_def)
  have i: "ignores_optarg main_option (concat (map (item_events long_options) ?its))"
    unfolding ev by (simp add: ignores_optarg_def main_option_def schar_inj)
  have "no_option [''/tftpboot'']" by (simp add: no_option_def)
  from getopt_reads [OF v i this, of "''tftpd''" config_start] obtain st where
    st: "optind st = 2" "getopt_fold main_option [''tftpd'', ''-l'', ''/tftpboot''] short_options long_options getopt_start config_start =
      Some (Inr (config_start\<lparr>standalone := True\<rparr>, st))"
    by (auto simp: main_option_def schar_inj numeral_2_eq_2)
  then show ?thesis by (simp add: main_options_def config_start_def ex_cfg_def)
qed

abbreviation ex_boot :: "(stop + (unit, string) running) option" where
  "ex_boot \<equiv> main_boot (\<lambda>_ _. None) ex_start_env ex_listen (daemon dup2 ex_daemon_env) [''tftpd'', ''-l'', ''/tftpboot''] ex_proc ex_sigs 18"

lemma ex_boot_runs:
  "\<exists>r. ex_boot = Some (Inr r) \<and> b_cfg (r_boot r) = ex_config \<and> fd4 (b_socks (r_boot r)) = 3 \<and> r_pw r = (65534, 65534)"
proof -
  obtain s where s: "main_sockets ex_listen ex_config = Inr s" "fd4 s = 3" using ex_sockets [of ex_config] by (auto simp: config_start_def)
  obtain p' where "daemon dup2 ex_daemon_env (secure (c_access ex_config)) False ex_proc = Returns 41 p'" using ex_daemon by blast
  then obtain b where b: "main_listen ex_listen (daemon dup2 ex_daemon_env) ex_config ex_proc ex_sigs = Inr b" "b_socks b = s" "b_cfg b = ex_config"
    using s by (simp add: main_listen_def main_detach_def set_signal_def ex_listen_def Let_def config_start_def)
  moreover have "main_start (\<lambda>_ _. None) ex_start_env ex_config = Inr (ex_config, (65534, 65534), [] :: unit rule list, 0)"
    by (simp add: main_start_def check_secure_def ex_start_env_def ex_cfg_def config_start_def)
  moreover have "\<exists>x. main_settle ex_listen ex_config (b_sigs b) 18 = Inr x"
    by (simp add: main_settle_def set_signal_def ex_listen_def)
  ultimately show ?thesis using s(2) by (auto simp: main_boot_def ex_options)
qed

lemma ex_contracts: "resolver (resolve ex_listen)" "daemon_call (daemon dup2 ex_daemon_env)"
  by (simp_all add: ex_listen_def lib_resolver.resolver_axioms lib_daemon.daemon_call_axioms)

theorem main_boot_ready_witness:
  "\<exists>r. ex_boot = Some (Inr r) \<and> standalone (b_cfg (r_boot r)) \<and> p_fds (b_proc (r_boot r)) ! 3 = Some ''socket'' \<and>
     deliver_signal (r_sigs r) SIGTERM (r_state r) = Some (handle_exit SIGTERM (r_state r))"
proof -
  obtain r where r: "ex_boot = Some (Inr r)" "b_cfg (r_boot r) = ex_config" using ex_boot_runs by blast
  from main_boot_ready [of "[''tftpd'', ''-l'', ''/tftpboot'']", OF _ ex_contracts ex_proc_open, of "\<lambda>_ _. None :: unit option" ex_start_env ex_sigs 18] r
  have "p_fds (b_proc (r_boot r)) ! 3 = p_fds ex_proc ! 3" "deliver_signal (r_sigs r) SIGTERM (r_state r) = Some (handle_exit SIGTERM (r_state r))"
    by auto
  with r show ?thesis by (auto simp: ex_proc_def)
qed

subsection \<open>The life of a request\<close>

lemma serve_append:
  "serve regcomp cf s its st = (chs, None, st1) \<Longrightarrow>
     serve regcomp cf s (its @ its') st = (case serve regcomp cf s its' st1 of (chs', r) \<Rightarrow> (chs @ chs', r))"
proof (induction its arbitrary: st chs)
  case (Cons it its)
  then show ?case by (cases "main_iter regcomp cf s it st") (auto split: prod.splits)
qed simp

text \<open>After any quiet history of a booted server, the next datagram is handed to a child.\<close>

lemma program_hands_over:
  assumes boot: "main_boot regcomp senv lenv dm argv p tab um = Some (Inr r)" and cf: "cf = b_cfg (r_boot r)"
    and sa: "standalone cf" and nf: "rewrite_file cf = None" and "\<forall>i \<in> set its. calm regcomp cf s i"
    and "list_all2 (event_of s) its evs" and "calm regcomp cf s it" and "event_of s it (Some (data, from))"
  shows "\<exists>chs ch st'. serve regcomp cf s (its @ [it]) (r_state r) = (chs @ [ch], None, st') \<and>
    length chs = length (filter (\<lambda>e. e \<noteq> None) evs) \<and> ch_data ch = data \<and> ch_from ch = from \<and> ch_rules ch = []"
proof -
  note b = main_boot_config [OF boot, folded cf]
  obtain chs st1 where h: "serve regcomp cf s its (r_state r) = (chs, None, st1)"
    "map (\<lambda>ch. (ch_data ch, ch_from ch)) chs = map the (filter (\<lambda>e. e \<noteq> None) evs)"
    "exit_signal st1 = 0" "rewrite_rules st1 = []"
    using serve_calm [OF sa assms(5, 6), of "r_state r"] b nf by auto
  obtain st' ch where "main_iter regcomp cf s it st1 = Forked st' ch" "ch_data ch = data" "ch_from ch = from" "ch_rules ch = []"
    using main_iter_calm [OF sa assms(7, 8) h(3)] nf h(4) by auto
  then have "serve regcomp cf s (its @ [it]) (r_state r) = (chs @ [ch], None, st')"
    using serve_append [OF h(1), of "[it]"] by simp
  moreover have "length chs = length (filter (\<lambda>e. e \<noteq> None) evs)" using arg_cong [OF h(2), of length] by simp
  ultimately show ?thesis using \<open>ch_data ch = data\<close> \<open>ch_from ch = from\<close> \<open>ch_rules ch = []\<close> by blast
qed

text \<open>The child of a well-formed request runs \<open>tftp\<close> on it, without rules, as the configured user.\<close>

lemma child_runs_request:
  assumes "child_ready cf env" and "\<forall>a. e_bind env a = None" and d: "ch_data ch = encode_request op filename mode ps"
    and op: "op = RRQ \<or> op = WRQ" and rules: "ch_rules ch = []"
    and "woo_init (e_woo env) (xwoo x0) (xshm x0) = (c, w, m)"
    and "woo_set_ip_port_from_socket_id w m (e_peer_ip env) (e_peer_port env) = Inr (c', m1)"
  shows "\<exists>my rw. child_main regexec ntop opn E cs cf pw env ch x0 cr =
      \<lparr>res_out = Ch_tftp (tftp (c_table cf) E rw (validate_access (c_access cf) opn) cs (length (ch_data ch)) (child_xfer cf ch w m1 x0)),
       res_cred = child_cred cf pw cr, res_addr = my, res_shm = m1,
       res_so = pmtu_discovery_off (e_socket env) (\<lambda>_. new_sockopts)\<rparr> \<and>
    (\<forall>b. rw filename b = Some (Rw_ok filename)) \<and>
    buf_read (xbuf (child_xfer cf ch w m1 x0)) 0 (length (ch_data ch)) = encode_request op filename mode ps"
proof -
  let ?x = "child_xfer cf ch w m1 x0"
  let ?rw = "rewrite_access regexec (rewrite_macros (client_of (ch_from ch)) (ntop (ch_from ch))) None"
  obtain my where pick: "pick_port_bind (e_bind env) (e_rand env) (portrange_from cf) (portrange_to cf) (ch_myaddr ch) = Some (0, my)"
    using pick_port_bind_free assms(2) by blast
  have buf: "buf_read (xbuf ?x) 0 (length (ch_data ch)) = encode_request op filename mode ps" by (simp add: child_xfer_def d)
  then have "get16 (xbuf ?x) 0 = op"
    using get16_holds [of "xbuf ?x" op] by (metis encode_request_def holds_def length_buf_read)
  then have "get16 (buf_write (xbuf x0) 0 (ch_data ch)) 0 = RRQ \<or> get16 (buf_write (xbuf x0) 0 (ch_data ch)) 0 = WRQ"
    using op by (simp add: child_xfer_def)
  note r = child_main_runs_tftp [OF assms(1, 6) pick _ assms(7) this]
  have "\<forall>b. ?rw filename b = Some (Rw_ok filename)" by (simp add: rewrite_access_def)
  then show ?thesis using r buf by (intro exI [of _ my] exI [of _ ?rw]) (simp add: run_tftp_def rules)
qed

text \<open>Both together: a request that reaches a booted server is run by a child of its own.\<close>

lemma program_request:
  assumes boot: "main_boot regcomp senv lenv dm argv p tab um = Some (Inr r)" and cf: "cf = b_cfg (r_boot r)"
    and "standalone cf" and "rewrite_file cf = None" and "\<forall>i \<in> set its. calm regcomp cf s i"
    and "list_all2 (event_of s) its evs" and "calm regcomp cf s it"
    and "event_of s it (Some (encode_request op filename mode ps, from))" and op: "op = RRQ \<or> op = WRQ"
    and "child_ready cf env" and "\<forall>a. e_bind env a = None"
    and "woo_init (e_woo env) (xwoo x0) (xshm x0) = (c, w, m)"
    and "woo_set_ip_port_from_socket_id w m (e_peer_ip env) (e_peer_port env) = Inr (c', m1)"
  obtains chs ch st' my rw where "serve regcomp cf s (its @ [it]) (r_state r) = (chs @ [ch], None, st')"
    and "length chs = length (filter (\<lambda>e. e \<noteq> None) evs)" and "ch_from ch = from"
    and "child_main regexec ntop opn E cs cf (r_pw r) env ch x0 cr =
      \<lparr>res_out = Ch_tftp (tftp (c_table cf) E rw (validate_access (c_access cf) opn) cs (length (encode_request op filename mode ps))
                           (child_xfer cf ch w m1 x0)),
       res_cred = child_cred cf (r_pw r) cr, res_addr = my, res_shm = m1,
       res_so = pmtu_discovery_off (e_socket env) (\<lambda>_. new_sockopts)\<rparr>"
    and "\<forall>b. rw filename b = Some (Rw_ok filename)"
    and "buf_read (xbuf (child_xfer cf ch w m1 x0)) 0 (length (encode_request op filename mode ps)) = encode_request op filename mode ps"
proof -
  obtain chs ch st' where srv: "serve regcomp cf s (its @ [it]) (r_state r) = (chs @ [ch], None, st')"
    "length chs = length (filter (\<lambda>e. e \<noteq> None) evs)" "ch_from ch = from"
    and ch: "ch_data ch = encode_request op filename mode ps" "ch_rules ch = []"
    using program_hands_over [OF boot cf assms(3-8)] by blast
  from child_runs_request [OF assms(10, 11) ch(1) op ch(2) assms(12, 13)] srv that show ?thesis unfolding ch(1) by blast
qed

text \<open>The negotiated block size is usable.\<close>

lemma negotiated_segsize:
  assumes "config_ok cf" and "validate_access acf opn rrq convert filename w m (c_opts cf) = Inr (Acc_ok f, m2, g)"
    and "run_opts (c_table cf) ps a0 g = Inr (a, g')"
  shows "0 < nat (segsize g') \<and> nat (segsize g') \<le> MAX_SEGSIZE \<and> segsize g' = int (nat (segsize g'))"
proof -
  have "opts_inv g" using validate_access_opts [OF assms(2)] assms(1) by (simp add: config_ok_def)
  then have "opts_inv g'" using run_opts_inv [OF assms(3)] assms(1) by (simp add: config_ok_def)
  then have o: "8 \<le> segsize g'" "segsize g' \<le> int (unat (max_blksize g'))" "unat (max_blksize g') \<le> MAX_SEGSIZE"
    by (simp_all only: opts_inv_def)
  then have "nat (segsize g') \<le> MAX_SEGSIZE" by (meson le_trans nat_le_iff)
  then show ?thesis using o(1) by simp
qed

subsection \<open>A concrete run\<close>

definition ex_peer :: sock_addr where
  "ex_peer = (zero_addr AF_INET)\<lparr>sa_port := 5000\<rparr>"

definition ex_recv :: "char list \<Rightarrow> iteration" where
  "ex_recv data = ex_iter\<lparr>i_recv := \<lambda>_. Inr \<lparr>d_from = ex_peer, d_data = data, d_cmsgs = [], d_ctrunc = False\<rparr>\<rparr>"

lemma ex_recv_event: "0 \<le> fd4 s \<Longrightarrow> event_of s (ex_recv data) (Some (data, ex_peer))"
  by (auto simp: event_of_def ex_recv_def ex_iter_def ex_peer_def zero_addr_def)

lemma ex_recv_calm: "calm (\<lambda>_ _. None :: unit option) ex_config s (ex_recv data)"
  by (simp add: calm_def ex_recv_def ex_iter_def config_start_def)

abbreviation ex_child_woo :: woo_data where
  "ex_child_woo \<equiv> ex_woo\<lparr>semaphore := False, mapped := False, enable := 0\<rparr>"

lemma ex_child_start:
  "child_ready ex_config ex_child_env" "\<forall>a. e_bind ex_child_env a = None"
  "woo_init (e_woo ex_child_env) (xwoo (ex_xfer writing)) (xshm (ex_xfer writing)) = (20, ex_child_woo, ex_shm)"
  "woo_set_ip_port_from_socket_id ex_child_woo ex_shm (e_peer_ip ex_child_env) (e_peer_port ex_child_env) = Inr (10, ex_shm)"
  using woo_init_absent
  by (simp_all add: child_ready_def ex_child_env_def ex_xfer_def woo_set_ip_port_from_socket_id_def)

lemma ex_name_ok: "name_check ex_cfg ''/tftpboot/abc'' = None"
  by (simp add: name_check_def ex_cfg_def reverse_path_def forbidden_dir_def upt_conv_Cons)

text \<open>A file that may be written to.\<close>

definition ex_open_write :: sys_open where
  "ex_open_write name rrq create =
     Inr \<lparr>o_file = writing, st_mode = 33206, st_size = 0, o_fstat = True, o_lock = True, o_trunc = True, o_fdopen = True\<rparr>"

lemma ex_write_granted:
  "\<exists>m'. validate_access ex_cfg ex_open_write False False ''/tftpboot/abc'' w m init_opts
     = Inr (Acc_ok (writing\<lparr>fdata := [], fpos := 0\<rparr>), m', init_opts\<lparr>tsize := 0, tsize_ok := True\<rparr>)"
  using ex_name_ok
  by (simp add: validate_access_def Let_def woo_set_filename_def ex_open_write_def check_opened_def lock_file_def
      ex_cfg_def S_IWOTH_def)

lemma ex_timeout_option:
  "\<exists>a g'. run_opts (c_table ex_config) [(''timeout'', ''3'')] (oack_start (ex_xfer writing)) (init_opts\<lparr>tsize := 3, tsize_ok := True\<rparr>)
     = Inr (a, g') \<and> segsize g' = 512 \<and> rollover_val g' = 0"
  by (simp add: do_opt_def Let_def strtoumax_def isspace_def isdigit_def options_def strcaseeq_def
      tolower_def set_timeout_def init_opts_def utoa.simps word_less_nat_alt config_start_def)

end
