(* ===== verification/WooGui.thy ===== *)
theory WooGui
  imports WooData
begin

text \<open>
  The monitor (\<open>woo-tftpd-gui\<close>): creation and destruction of the shared segment
  (\<open>data.cxx\<close>), the periodic visit of the operation slots (\<open>application.cxx\<close>), and the
  interleaving of monitor and server processes as a step relation. A visit of one slot is
  one step; \<open>time_t\<close> is an integer.
\<close>

unbundle bit_operations_syntax

subsection \<open>The segment's life\<close>

text \<open>The names in the kernel, and the monitor's pointers (non-null or not).\<close>

record kernel =
  sem_name :: bool
  shm_name :: bool

record gui_data =
  m_force_boot :: bool
  m_semaphore :: bool
  m_smdata :: bool

definition new_data :: gui_data where
  "new_data = \<lparr>m_force_boot = False, m_semaphore = False, m_smdata = False\<rparr>"

definition set_force_boot :: "bool \<Rightarrow> gui_data \<Rightarrow> gui_data" where
  "set_force_boot b d = d\<lparr>m_force_boot := b\<rparr>"

record gui_env =
  genv_sem :: bool
  genv_shm :: bool
  genv_trunc :: bool
  genv_mmap :: bool
  genv_pid :: int

definition gui_reset :: "int \<Rightarrow> wootftpd_shared_data \<Rightarrow> wootftpd_shared_data" where
  "gui_reset pid m =
     m\<lparr>client_pid := pid, nb_operation := 0,
       operations := map (\<lambda>p. p\<lparr>oflags := WOOTFTPD_RESET\<rparr>) (operations m)\<rparr>"

text \<open>\<open>SEM_FAILED\<close> is the null pointer, \<open>MAP_FAILED\<close> is not.\<close>

definition gui_initialize ::
  "gui_env \<Rightarrow> gui_data \<Rightarrow> kernel \<Rightarrow> wootftpd_shared_data \<Rightarrow> int \<times> gui_data \<times> kernel \<times> wootftpd_shared_data" where
  "gui_initialize env d k0 m =
     (let k = (if m_force_boot d then k0\<lparr>sem_name := False, shm_name := False\<rparr> else k0)
      in if sem_name k then (10, d\<lparr>m_semaphore := True\<rparr>, k, m)
      else if \<not> genv_sem env then (20, d\<lparr>m_semaphore := False\<rparr>, k, m)
      else let d1 = d\<lparr>m_semaphore := True\<rparr>; k1 = k\<lparr>sem_name := True\<rparr>
      in if \<not> genv_shm env then (30, d1, k1, m)
      else let k2 = k1\<lparr>shm_name := True\<rparr>
      in if \<not> genv_trunc env then (40, d1, k2, m)
      else let d2 = d1\<lparr>m_smdata := True\<rparr>
      in if \<not> genv_mmap env then (50, d2, k2, m)
      else (0, d2, k2, gui_reset (genv_pid env) m))"

definition gui_destroy :: "gui_data \<Rightarrow> kernel \<Rightarrow> kernel" where
  "gui_destroy d k =
     (let k1 = (if m_semaphore d then k\<lparr>sem_name := False\<rparr> else k)
      in if m_smdata d then k1\<lparr>shm_name := False\<rparr> else k1)"

subsection \<open>Watching the slots\<close>

record gui =
  end_array :: "int list"
  timeout_array :: "(u32 \<times> int) list"

definition gui_start :: gui where
  "gui_start = \<lparr>end_array = replicate WOOTFTPD_MAX_NBOP 0, timeout_array = replicate WOOTFTPD_MAX_NBOP (0, 0)\<rparr>"

abbreviation has_end :: "wootftpd_operation \<Rightarrow> bool" where
  "has_end p \<equiv> WOOTFTPD_CHECK_FLAG (oflags p) WOOTFTPD_END"

definition watched :: "wootftpd_operation \<Rightarrow> bool" where
  "watched p = (WOOTFTPD_CHECK_FLAG (oflags p) WOOTFTPD_ENABLE \<and> \<not> has_end p \<and>
                \<not> WOOTFTPD_CHECK_FLAG (oflags p) WOOTFTPD_TIMEOUT)"

text \<open>Whether the visit at time \<open>now\<close> declares the operation timed out.\<close>

definition times_out :: "int \<Rightarrow> nat \<Rightarrow> gui \<Rightarrow> wootftpd_shared_data \<Rightarrow> bool" where
  "times_out now x g m =
     (let p = operations m ! x; (blk, t) = timeout_array g ! x
      in watched p \<and> blk = op_block p \<and> t \<le> now \<and> 3 < now - t)"

definition watch_progress :: "int \<Rightarrow> nat \<Rightarrow> gui \<Rightarrow> wootftpd_shared_data \<Rightarrow> gui \<times> wootftpd_shared_data" where
  "watch_progress now x g m =
     (let p = operations m ! x; (blk, t) = timeout_array g ! x
      in if \<not> watched p then (g, m)
         else if blk = op_block p then
           (if t \<le> now then
              (if 3 < now - t
               then (g, m\<lparr>operations := (operations m)[x := p\<lparr>oflags := (oflags p OR WOOTFTPD_END) OR WOOTFTPD_TIMEOUT\<rparr>]\<rparr>)
               else (g, m))
            else (g\<lparr>timeout_array := (timeout_array g)[x := (blk, now)]\<rparr>, m))
         else (g\<lparr>timeout_array := (timeout_array g)[x := (op_block p, now)]\<rparr>, m))"

definition watch_end :: "int \<Rightarrow> int \<Rightarrow> nat \<Rightarrow> gui \<Rightarrow> wootftpd_shared_data \<Rightarrow> gui" where
  "watch_end now end_time x g m =
     (if has_end (operations m ! x) \<and> end_array g ! x = 0
      then g\<lparr>end_array := (end_array g)[x := now + end_time]\<rparr> else g)"

definition expire :: "int \<Rightarrow> nat \<Rightarrow> gui \<Rightarrow> wootftpd_shared_data \<Rightarrow> gui \<times> wootftpd_shared_data" where
  "expire now x g m =
     (if end_array g ! x \<noteq> 0 \<and> end_array g ! x < now
      then (g\<lparr>end_array := (end_array g)[x := 0]\<rparr>,
            m\<lparr>nb_operation := nb_operation m - 1,
              operations := (operations m)[x := (operations m ! x)\<lparr>oflags := WOOTFTPD_RESET\<rparr>]\<rparr>)
      else (g, m))"

definition monitor_slot :: "int \<Rightarrow> int \<Rightarrow> nat \<Rightarrow> gui \<times> wootftpd_shared_data \<Rightarrow> gui \<times> wootftpd_shared_data" where
  "monitor_slot now end_time x gm =
     (case watch_progress now x (fst gm) (snd gm) of
        (g1, m1) \<Rightarrow> expire now x (watch_end now end_time x g1 m1) m1)"

definition monitor_operations :: "int \<Rightarrow> int \<Rightarrow> gui \<times> wootftpd_shared_data \<Rightarrow> gui \<times> wootftpd_shared_data" where
  "monitor_operations now end_time gm = fold (monitor_slot now end_time) [0 ..< WOOTFTPD_MAX_NBOP] gm"

text \<open>\<open>work\<close>: with no operation the monitor sleeps until the next signal.\<close>

definition work :: "int \<Rightarrow> int \<Rightarrow> gui \<times> wootftpd_shared_data \<Rightarrow> gui \<times> wootftpd_shared_data" where
  "work now end_time gm =
     (if nb_operation (snd gm) = 0 then gm else monitor_operations now end_time gm)"

text \<open>A visit of one slot leaves the others alone.\<close>

lemma monitor_slot_other:
  assumes "monitor_slot now et y (g, m) = (g', m')"
  shows "x \<noteq> y \<Longrightarrow> operations m' ! x = operations m ! x \<and> timeout_array g' ! x = timeout_array g ! x \<and>
      end_array g' ! x = end_array g ! x"
    and "length (operations m') = length (operations m)" and "length (end_array g') = length (end_array g)"
  using assms by (auto simp: monitor_slot_def watch_progress_def watch_end_def expire_def Let_def split: prod.splits if_splits)

subsection \<open>Monitor and servers together\<close>

record sys =
  s_shm :: wootftpd_shared_data
  s_gui :: gui
  procs :: "woo_data list"

text \<open>
  A server process takes a slot, works on it, and ends by marking it or just exits (a
  time-out of the transfer, an aborted write request). The monitor may visit a slot at any
  time; \<open>live_kill\<close> says that the visit times out the operation of a running process.
\<close>

definition live_kill :: "int \<Rightarrow> nat \<Rightarrow> sys \<Rightarrow> bool" where
  "live_kill now x s = (times_out now x (s_gui s) (s_shm s) \<and> (\<exists>w \<in> set (procs s). nat (opid w) = x))"

inductive sys_step :: "int \<Rightarrow> sys \<Rightarrow> sys \<Rightarrow> bool" for end_time where
  start: "enable w \<noteq> 0 \<Longrightarrow> woo_alloc_operation w (s_shm s) = (0, w', m') \<Longrightarrow>
    sys_step end_time s (s\<lparr>s_shm := m', procs := w' # procs s\<rparr>)"
| upload: "w \<in> set (procs s) \<Longrightarrow>
    sys_step end_time s (s\<lparr>s_shm := snd (woo_set_flag_upload w (s_shm s))\<rparr>)"
| download: "w \<in> set (procs s) \<Longrightarrow>
    sys_step end_time s (s\<lparr>s_shm := snd (woo_set_flag_download w (s_shm s))\<rparr>)"
| progress: "w \<in> set (procs s) \<Longrightarrow>
    sys_step end_time s (s\<lparr>s_shm := snd (woo_increment_block w (s_shm s) v)\<rparr>)"
| total: "w \<in> set (procs s) \<Longrightarrow>
    sys_step end_time s (s\<lparr>s_shm := snd (woo_set_total_block w (s_shm s) nb)\<rparr>)"
| port: "w \<in> set (procs s) \<Longrightarrow>
    sys_step end_time s (s\<lparr>s_shm := snd (woo_set_port w (s_shm s) pt)\<rparr>)"
| ip: "w \<in> set (procs s) \<Longrightarrow> woo_set_ip w (s_shm s) addr = Inr (r, m') \<Longrightarrow>
    sys_step end_time s (s\<lparr>s_shm := m'\<rparr>)"
| fname: "w \<in> set (procs s) \<Longrightarrow> woo_set_filename w (s_shm s) fn = Inr (r, m') \<Longrightarrow>
    sys_step end_time s (s\<lparr>s_shm := m'\<rparr>)"
| finish: "w \<in> set (procs s) \<Longrightarrow>
    sys_step end_time s (s\<lparr>s_shm := snd (woo_end_operation w (s_shm s)), procs := remove1 w (procs s)\<rparr>)"
| die: "w \<in> set (procs s) \<Longrightarrow>
    sys_step end_time s (s\<lparr>procs := remove1 w (procs s)\<rparr>)"
| visit: "x < WOOTFTPD_MAX_NBOP \<Longrightarrow> \<not> live_kill now x s \<Longrightarrow>
    monitor_slot now end_time x (s_gui s, s_shm s) = (g', m') \<Longrightarrow>
    sys_step end_time s (s\<lparr>s_gui := g', s_shm := m'\<rparr>)"


subsection \<open>The count of operations\<close>

definition flags_at :: "wootftpd_shared_data \<Rightarrow> nat \<Rightarrow> u8" where
  "flags_at m x = oflags (operations m ! x)"

text \<open>
  A running process owns an enabled slot that is not marked as ended, no two own the same; a
  slot marked as ended is enabled; the monitor has a removal date only for ended slots.
\<close>

definition owns :: "woo_data \<Rightarrow> wootftpd_shared_data \<Rightarrow> bool" where
  "owns w m = (enable w \<noteq> 0 \<and> 0 \<le> opid w \<and> opid w < int WOOTFTPD_MAX_NBOP \<and>
     bit (flags_at m (nat (opid w))) 0 \<and> \<not> bit (flags_at m (nat (opid w))) 1)"

definition slots_ok :: "gui \<Rightarrow> wootftpd_shared_data \<Rightarrow> bool" where
  "slots_ok g m = (length (end_array g) = WOOTFTPD_MAX_NBOP \<and> length (timeout_array g) = WOOTFTPD_MAX_NBOP \<and>
     (\<forall>x < WOOTFTPD_MAX_NBOP. (bit (flags_at m x) 1 \<longrightarrow> bit (flags_at m x) 0) \<and>
        (end_array g ! x \<noteq> 0 \<longrightarrow> bit (flags_at m x) 1)))"

definition sys_inv :: "sys \<Rightarrow> bool" where
  "sys_inv s = (shm_inv (s_shm s) \<and> slots_ok (s_gui s) (s_shm s) \<and> distinct (map opid (procs s)) \<and>
     (\<forall>w \<in> set (procs s). owns w (s_shm s)))"

lemma owns_distinct:
  "distinct (map opid ws) \<Longrightarrow> v \<in> set ws \<Longrightarrow> w \<in> set ws \<Longrightarrow> owns v m \<Longrightarrow> owns w m \<Longrightarrow>
     nat (opid v) = nat (opid w) \<Longrightarrow> v = w"
  by (auto simp: owns_def distinct_map inj_on_def)

lemma flags_at_upd:
  assumes "shm_inv m" and "owns w m"
  shows "flags_at (upd_slot w h m) x = (if x = nat (opid w) then oflags (h (my_slot w m)) else flags_at m x)"
proof -
  have "nat (opid w) < length (operations m)" using assms by (auto simp: shm_inv_def owns_def)
  then show ?thesis by (simp add: flags_at_def upd_slot_def nth_list_update)
qed

text \<open>Calls that leave the two flags of the slot alone.\<close>

lemma upd_keeps_sys_inv:
  assumes inv: "sys_inv s" and w: "w \<in> set (procs s)"
    and h: "\<And>p k. k < 2 \<Longrightarrow> bit (oflags (h p)) k = bit (oflags p) k"
  shows "sys_inv (s\<lparr>s_shm := upd_slot w h (s_shm s)\<rparr>)"
proof -
  let ?m = "s_shm s"
  have sm: "shm_inv ?m" and ow: "owns w ?m" using inv w by (auto simp: sys_inv_def)
  have fl: "bit (flags_at (upd_slot w h ?m) x) k = bit (flags_at ?m x) k" if "k < 2" for x k
    using flags_at_upd [OF sm ow, of h x] h [OF that] by (auto simp: flags_at_def my_slot_def)
  have en: "slot_enabled (h p) = slot_enabled p" for p using h [of 0 p] by (simp add: slot_enabled_bit)
  have "enable w \<noteq> 0" using ow by (simp add: owns_def)
  then have "shm_inv (upd_slot w h ?m)"
    using slot_call.call_shm_inv [OF upd_slot_call [of h, OF en] sm, of w] by simp
  then show ?thesis using inv fl by (simp add: sys_inv_def slots_ok_def owns_def)
qed

lemma start_keeps_sys_inv:
  assumes inv: "sys_inv s" and en: "enable w \<noteq> 0"
    and r: "woo_alloc_operation w (s_shm s) = (0, w', m')"
  shows "sys_inv (s\<lparr>s_shm := m', procs := w' # procs s\<rparr>)"
proof -
  let ?m = "s_shm s"
  have sm: "shm_inv ?m" and so: "slots_ok (s_gui s) ?m" using inv by (simp_all add: sys_inv_def)
  obtain x where x: "free_slot (operations ?m) = Some x" and w': "w' = w\<lparr>opid := int x\<rparr>"
    and m': "m' = ?m\<lparr>nb_operation := nb_operation ?m + 1,
        operations := (operations ?m)[x := reset_slot (operations ?m ! x)]\<rparr>" and sm': "shm_inv m'"
    using woo_alloc_operation_split [OF sm en r] by auto
  have xl: "x < WOOTFTPD_MAX_NBOP" "\<not> bit (flags_at ?m x) 0" "x < length (operations ?m)"
    using free_slot_Some [OF x] sm by (simp_all add: flags_at_def slot_enabled_bit shm_inv_def)
  have fl: "flags_at m' y = (if y = x then WOOTFTPD_ENABLE else flags_at ?m y)" for y
    using xl(3) by (simp add: m' flags_at_def reset_slot_def nth_list_update woo_flag_defs)
  have xo: "nat (opid v) \<noteq> x" if "v \<in> set (procs s)" for v
    using that inv xl(2) by (auto simp: sys_inv_def owns_def)
  then have "int x \<notin> opid ` set (procs s)" by (metis imageE nat_int)
  moreover have "end_array (s_gui s) ! x = 0" using so xl by (auto simp: slots_ok_def)
  moreover have b: "bit WOOTFTPD_ENABLE 0" "\<not> bit WOOTFTPD_ENABLE 1" by (simp_all add: woo_flag_defs)
  ultimately show ?thesis using inv sm' so en xo fl xl(1)
    by (auto simp: sys_inv_def slots_ok_def owns_def w')
qed

lemma finish_keeps_sys_inv:
  assumes inv: "sys_inv s" and w: "w \<in> set (procs s)"
  shows "sys_inv (s\<lparr>s_shm := snd (woo_end_operation w (s_shm s)), procs := remove1 w (procs s)\<rparr>)"
proof -
  let ?m = "s_shm s"
  have sm: "shm_inv ?m" and so: "slots_ok (s_gui s) ?m" and ow: "owns w ?m" and d: "distinct (map opid (procs s))"
    using inv w by (auto simp: sys_inv_def)
  have "snd (woo_end_operation w ?m) = upd_slot w end_slot ?m" using ow by (simp add: woo_end_operation_def owns_def)
  moreover have "shm_inv (snd (woo_end_operation w ?m))" using end_op.call_shm_inv [OF sm] .
  moreover have fl: "flags_at (upd_slot w end_slot ?m) x =
      (if x = nat (opid w) then flags_at ?m x OR WOOTFTPD_END else flags_at ?m x)" for x
    using flags_at_upd [OF sm ow, of end_slot x] by (auto simp: flags_at_def my_slot_def end_slot_def Let_def)
  moreover have "owns v (upd_slot w end_slot ?m)" if "v \<in> set (remove1 w (procs s))" for v
  proof -
    have dp: "distinct (procs s)" using d by (simp add: distinct_map)
    then have "v \<in> set (procs s)" "v \<noteq> w" using that by simp_all
    then have "nat (opid v) \<noteq> nat (opid w)" "owns v ?m"
      using owns_distinct [OF d _ w _ ow] inv by (auto simp: sys_inv_def)
    then show ?thesis using fl by (simp add: owns_def)
  qed
  moreover have "slots_ok (s_gui s) (upd_slot w end_slot ?m)"
    using so ow fl by (auto simp: slots_ok_def owns_def bit_or_iff flag_bit_tests)
  moreover have "distinct (map opid (remove1 w (procs s)))" using d by (simp add: distinct_map distinct_remove1 inj_on_diff set_remove1_eq)
  ultimately show ?thesis by (simp add: sys_inv_def)
qed

lemma die_keeps_sys_inv: "sys_inv s \<Longrightarrow> sys_inv (s\<lparr>procs := remove1 w (procs s)\<rparr>)"
  by (auto simp: sys_inv_def distinct_map distinct_remove1 inj_on_def dest: notin_set_remove1
           simp del: set_remove1_eq)

text \<open>
  Visits. \<open>visit_ok\<close> is the part of the invariant that concerns the monitor and the slots;
  \<open>spare\<close> are the slots that running processes own.
\<close>

definition visit_ok :: "nat set \<Rightarrow> gui \<Rightarrow> wootftpd_shared_data \<Rightarrow> bool" where
  "visit_ok spare g m = (shm_inv m \<and> slots_ok g m \<and>
     (\<forall>x \<in> spare. x < WOOTFTPD_MAX_NBOP \<and> bit (flags_at m x) 0 \<and> \<not> bit (flags_at m x) 1))"

lemma flags_at_set:
  "x < length (operations m) \<Longrightarrow>
     flags_at (m\<lparr>operations := (operations m)[x := (operations m ! x)\<lparr>oflags := fl\<rparr>]\<rparr>) y =
       (if y = x then fl else flags_at m y)"
  "x < length (operations m) \<Longrightarrow>
     flags_at (m\<lparr>nb_operation := n, operations := (operations m)[x := (operations m ! x)\<lparr>oflags := fl\<rparr>]\<rparr>) y =
       (if y = x then fl else flags_at m y)"
  by (simp_all add: flags_at_def nth_list_update)

lemma watch_progress_ok:
  assumes ok: "visit_ok spare g m" and x: "x < WOOTFTPD_MAX_NBOP" and nk: "\<not> (times_out now x g m \<and> x \<in> spare)"
    and r: "watch_progress now x g m = (g', m')"
  shows "visit_ok spare g' m'"
proof (cases "times_out now x g m")
  case True
  let ?p = "operations m ! x"
  let ?fl = "(oflags ?p OR WOOTFTPD_END) OR WOOTFTPD_TIMEOUT"
  have len: "x < length (operations m)" using ok x by (simp add: visit_ok_def shm_inv_def)
  have e: "g' = g" "m' = m\<lparr>operations := (operations m)[x := ?p\<lparr>oflags := ?fl\<rparr>]\<rparr>"
    using r True by (auto simp: watch_progress_def times_out_def Let_def split: prod.splits)
  have on: "bit (oflags ?p) 0" using True by (simp add: times_out_def watched_def Let_def split: prod.splits)
  have "nb_enabled (operations m') = nb_enabled (operations m)"
    using nb_enabled_update [OF len, of "?p\<lparr>oflags := ?fl\<rparr>"] on by (simp add: e slot_enabled_bit bit_or_iff)
  then have "shm_inv m'" using ok by (simp add: visit_ok_def shm_inv_def e)
  moreover have "bit ?fl 0" "bit ?fl 1" using on by (simp_all add: bit_or_iff woo_flag_defs)
  ultimately show ?thesis using ok nk True len flags_at_set(1) [OF len, of ?fl]
    by (auto simp: visit_ok_def slots_ok_def e)
next
  case False
  then have "m' = m \<and> end_array g' = end_array g \<and> length (timeout_array g') = length (timeout_array g)"
    using r by (auto simp: watch_progress_def times_out_def Let_def split: prod.splits if_splits)
  then show ?thesis using ok by (simp add: visit_ok_def slots_ok_def)
qed

lemma watch_end_ok:
  "visit_ok spare g m \<Longrightarrow> x < WOOTFTPD_MAX_NBOP \<Longrightarrow> visit_ok spare (watch_end now et x g m) m"
  by (auto simp: watch_end_def visit_ok_def slots_ok_def flags_at_def nth_list_update)

lemma expire_ok:
  assumes ok: "visit_ok spare g m" and x: "x < WOOTFTPD_MAX_NBOP" and r: "expire now x g m = (g', m')"
  shows "visit_ok spare g' m'"
proof (cases "end_array g ! x \<noteq> 0 \<and> end_array g ! x < now")
  case True
  let ?p = "operations m ! x"
  have sm: "shm_inv m" and so: "slots_ok g m" using ok by (simp_all add: visit_ok_def)
  have len: "x < length (operations m)" using sm x by (simp add: shm_inv_def)
  have e: "g' = g\<lparr>end_array := (end_array g)[x := 0]\<rparr>"
    "m' = m\<lparr>nb_operation := nb_operation m - 1, operations := (operations m)[x := ?p\<lparr>oflags := WOOTFTPD_RESET\<rparr>]\<rparr>"
    using r True by (auto simp: expire_def)
  have on: "bit (flags_at m x) 1" "bit (flags_at m x) 0" using so x True by (auto simp: slots_ok_def)
  then have sp: "x \<notin> spare" using ok by (auto simp: visit_ok_def)
  have n: "nb_enabled (operations m') + 1 = nb_enabled (operations m)"
    using nb_enabled_update [OF len, of "?p\<lparr>oflags := WOOTFTPD_RESET\<rparr>"] on
    by (simp add: e slot_enabled_bit flags_at_def flag_bit_tests)
  then have "0 < unat (nb_operation m)" using sm by (simp add: shm_inv_def)
  then have "1 \<le> nb_operation m" by (simp add: word_le_nat_alt)
  then have "unat (nb_operation m - 1) = unat (nb_operation m) - 1" by (simp add: unat_sub)
  then have "shm_inv m'" using n sm by (simp add: shm_inv_def e)
  then show ?thesis using ok sp so len flags_at_set(2) [OF len, where n = "nb_operation m - 1" and fl = WOOTFTPD_RESET]
    by (auto simp: visit_ok_def slots_ok_def e nth_list_update flag_bit_tests)
next
  case False
  then show ?thesis using ok r by (auto simp: expire_def)
qed

lemma visit_keeps_sys_inv:
  assumes inv: "sys_inv s" and x: "x < WOOTFTPD_MAX_NBOP" and nk: "\<not> live_kill now x s"
    and r: "monitor_slot now et x (s_gui s, s_shm s) = (g', m')"
  shows "sys_inv (s\<lparr>s_gui := g', s_shm := m'\<rparr>)"
proof -
  define spare where "spare = (\<lambda>w. nat (opid w)) ` set (procs s)"
  have ok: "visit_ok spare (s_gui s) (s_shm s)"
    using inv by (auto simp: visit_ok_def sys_inv_def owns_def spare_def)
  obtain g1 m1 where p: "watch_progress now x (s_gui s) (s_shm s) = (g1, m1)" by force
  have "visit_ok spare g1 m1"
    using watch_progress_ok [OF ok x _ p] nk by (auto simp: live_kill_def spare_def)
  then have "visit_ok spare g' m'"
    using expire_ok [OF watch_end_ok [OF _ x] x] r p by (simp add: monitor_slot_def)
  then show ?thesis using inv by (auto simp: sys_inv_def visit_ok_def owns_def spare_def)
qed

lemma slot_flag_calls:
  "k < 2 \<Longrightarrow> bit (fl OR WOOTFTPD_UPLOAD) k = bit fl k"
  "k < 2 \<Longrightarrow> bit (fl OR WOOTFTPD_DOWNLOAD) k = bit fl k"
  by (auto simp: bit_or_iff woo_flag_defs less_2_cases_iff)

text \<open>A step is one of five things; the setters of a process are all alike.\<close>

lemma sys_step_kinds:
  assumes "sys_step et s s'" and inv: "sys_inv s"
  obtains (start) w w' m' where "enable w \<noteq> 0" "woo_alloc_operation w (s_shm s) = (0, w', m')" "s' = s\<lparr>s_shm := m', procs := w' # procs s\<rparr>"
  | (quiet) w h where "w \<in> set (procs s)" "\<And>p k. k < 2 \<Longrightarrow> bit (oflags (h p)) k = bit (oflags p) k"
      "s' = s\<lparr>s_shm := upd_slot w h (s_shm s)\<rparr>"
  | (finish) w where "w \<in> set (procs s)" "s' = s\<lparr>s_shm := snd (woo_end_operation w (s_shm s)), procs := remove1 w (procs s)\<rparr>"
  | (die) w where "w \<in> set (procs s)" "s' = s\<lparr>procs := remove1 w (procs s)\<rparr>"
  | (visit) x now g' m' where "x < WOOTFTPD_MAX_NBOP" "\<not> live_kill now x s"
      "monitor_slot now et x (s_gui s, s_shm s) = (g', m')" "s' = s\<lparr>s_gui := g', s_shm := m'\<rparr>"
proof -
  have en: "enable w \<noteq> 0" if "w \<in> set (procs s)" for w using inv that by (auto simp: sys_inv_def owns_def)
  show thesis using assms(1)
  proof (cases rule: sys_step.cases)
    case (upload w)
    then show thesis using quiet [of w "oflags_update (\<lambda>fl. fl OR WOOTFTPD_UPLOAD)"] en [of w]
      by (simp add: woo_set_flag_upload_def slot_flag_calls)
  next
    case (download w)
    then show thesis using quiet [of w "oflags_update (\<lambda>fl. fl OR WOOTFTPD_DOWNLOAD)"] en [of w]
      by (simp add: woo_set_flag_download_def slot_flag_calls)
  next
    case (progress w v)
    then show thesis using quiet [of w "op_block_update (\<lambda>b. b + word_of_int v)"] en [of w] by (simp add: woo_increment_block_def)
  next
    case (total w nb)
    then show thesis using quiet [of w "op_total_block_update (\<lambda>_. word_of_int nb)"] en [of w] by (simp add: woo_set_total_block_def)
  next
    case (port w pt)
    then show thesis using quiet [of w "op_port_update (\<lambda>_. pt)"] en [of w] by (simp add: woo_set_port_def)
  next
    case (ip w addr r m')
    then show thesis using quiet [of w "op_ip_update (\<lambda>_. addr)"] en [of w] by (auto simp: woo_set_ip_def split: if_splits)
  next
    case (fname w fn r m')
    then show thesis using quiet [of w "op_filename_update (\<lambda>_. fn)"] en [of w] by (auto simp: woo_set_filename_def split: if_splits)
  qed (use start finish die visit in blast)+
qed

lemma sys_step_inv: "sys_step et s s' \<Longrightarrow> sys_inv s \<Longrightarrow> sys_inv s'"
  by (erule (1) sys_step_kinds)
    (use start_keeps_sys_inv upd_keeps_sys_inv finish_keeps_sys_inv die_keeps_sys_inv visit_keeps_sys_inv in blast)+

definition sys_start :: "int \<Rightarrow> wootftpd_shared_data \<Rightarrow> sys" where
  "sys_start pid m = \<lparr>s_shm = gui_reset pid m, s_gui = gui_start, procs = []\<rparr>"

lemma sys_start_inv: "length (operations m) = WOOTFTPD_MAX_NBOP \<Longrightarrow> sys_inv (sys_start pid m)"
proof -
  assume len: "length (operations m) = WOOTFTPD_MAX_NBOP"
  have "nb_enabled (operations (gui_reset pid m)) = 0"
    by (simp add: nb_enabled_def gui_reset_def filter_empty_conv slot_enabled_bit flag_bit_tests)
  moreover have "\<not> bit (flags_at (gui_reset pid m) x) k" if "x < WOOTFTPD_MAX_NBOP" for x k
    using that len by (simp add: flags_at_def gui_reset_def flag_bit_tests)
  ultimately show ?thesis using len
    by (simp add: sys_inv_def sys_start_def shm_inv_def slots_ok_def gui_start_def)
      (simp add: gui_reset_def)
qed

text \<open>
  C32. The monitor's count is right. Start from a segment the monitor has just initialised and
  let any number of server processes and the monitor interleave in any order, as long as
  the monitor does not time out the operation of a process that still runs. In every
  reachable state the counter is the number of enabled slots (at most five), and the running
  processes own different slots, which are enabled and not marked as ended.
\<close>

theorem monitor_count_invariant:
  assumes "length (operations m) = WOOTFTPD_MAX_NBOP" and "(sys_step end_time)\<^sup>*\<^sup>* (sys_start pid m) s"
  shows "unat (nb_operation (s_shm s)) = nb_enabled (operations (s_shm s)) \<and>
    nb_enabled (operations (s_shm s)) \<le> WOOTFTPD_MAX_NBOP \<and> distinct (map opid (procs s)) \<and>
    (\<forall>w \<in> set (procs s). 0 \<le> opid w \<and> opid w < int WOOTFTPD_MAX_NBOP \<and>
       slot_enabled (my_slot w (s_shm s)) \<and> \<not> has_end (my_slot w (s_shm s)))"
proof -
  have "sys_inv s" using assms(2)
    by (induction rule: rtranclp_induct) (use sys_start_inv [OF assms(1)] sys_step_inv in blast)+
  then show ?thesis using nb_enabled_le [of "operations (s_shm s)"]
    by (auto simp: sys_inv_def shm_inv_def owns_def flags_at_def my_slot_def slot_enabled_bit)
qed

text \<open>A process takes a slot of the segment just initialised.\<close>

theorem monitor_count_invariant_witness:
  "\<exists>s w. (sys_step 10)\<^sup>*\<^sup>* (sys_start 42 ex_shm) s \<and> procs s = [w] \<and> slot_enabled (my_slot w (s_shm s)) \<and>
     unat (nb_operation (s_shm s)) = nb_enabled (operations (s_shm s))"
proof -
  obtain w m' where "woo_alloc_operation ex_woo (s_shm (sys_start 42 ex_shm)) = (0, w, m')"
  proof -
    have "fst (woo_alloc_operation ex_woo (s_shm (sys_start 42 ex_shm))) = 0" by code_simp
    then show thesis using that by (metis prod.collapse)
  qed
  then have "sys_step 10 (sys_start 42 ex_shm) ((sys_start 42 ex_shm)\<lparr>s_shm := m', procs := [w]\<rparr>)"
    using sys_step.start [of ex_woo "sys_start 42 ex_shm" w m' 10] by (simp add: ex_woo_def sys_start_def)
  then have r: "(sys_step 10)\<^sup>*\<^sup>* (sys_start 42 ex_shm) ((sys_start 42 ex_shm)\<lparr>s_shm := m', procs := [w]\<rparr>)"
    by (rule r_into_rtranclp)
  have "length (operations ex_shm) = WOOTFTPD_MAX_NBOP" by (simp add: ex_shm_def)
  from monitor_count_invariant [OF this r] r show ?thesis by auto
qed

subsection \<open>Operations that are timed out too early\<close>

text \<open>
  The monitor does not reset its record of a slot when the slot is taken again: a freshly
  started operation, with no block transferred yet, is declared timed out and ended at the
  first visit, if the last block count the monitor recorded for the slot is 0 and that was
  more than three seconds ago. This holds for the first operation in every slot after
  the monitor has started, since the record starts out as block 0 at time 0.
\<close>

lemma fresh_operation_timed_out:
  assumes "shm_inv m" and "enable w \<noteq> 0" and "woo_alloc_operation w m = (0, w', m')"
    and "x = nat (opid w')" and "timeout_array g ! x = (0, t)" and "t + 3 < now"
    and "end_array g ! x = 0" and "x < length (end_array g)" and "0 \<le> end_time"
  shows "has_end (operations (snd (monitor_slot now end_time x (g, m'))) ! x) \<and>
    WOOTFTPD_CHECK_FLAG (oflags (operations (snd (monitor_slot now end_time x (g, m'))) ! x)) WOOTFTPD_TIMEOUT"
proof -
  obtain y where y: "free_slot (operations m) = Some y" "w' = w\<lparr>opid := int y\<rparr>"
    "m' = m\<lparr>nb_operation := nb_operation m + 1, operations := (operations m)[y := reset_slot (operations m ! y)]\<rparr>"
    using woo_alloc_operation_split [OF assms(1-3)] by auto
  have x: "x = y" using assms(4) y(2) by simp
  have "x < length (operations m)" using free_slot_Some [OF y(1)] assms(1) by (simp add: x shm_inv_def)
  then have slot: "operations m' ! x = reset_slot (operations m ! x)" and len: "x < length (operations m')"
    by (simp_all add: y(3) x)
  let ?p = "reset_slot (operations m ! x)"
  have w: "watched ?p" "op_block ?p = 0"
    by (simp_all add: watched_def reset_slot_def WOOTFTPD_CHECK_FLAG_def woo_flag_defs)
  let ?fl = "(oflags ?p OR WOOTFTPD_END) OR WOOTFTPD_TIMEOUT"
  have p: "watch_progress now x g m' = (g, m'\<lparr>operations := (operations m')[x := ?p\<lparr>oflags := ?fl\<rparr>]\<rparr>)"
    using w assms(5,6) by (simp add: watch_progress_def Let_def slot)
  have b: "bit ?fl 1" "bit ?fl 4" by (simp_all add: bit_or_iff woo_flag_defs)
  then show ?thesis using assms(7-9) len
    by (auto simp: monitor_slot_def p watch_end_def expire_def)
qed

text \<open>
  A run of the system: processes A and B take slots 0 and 1. A is still waiting for its
  client when the monitor first looks, so it is timed out at 100 and its slot removed at 111
  while it runs on; then both finish.
\<close>

definition lost_run :: "gui \<times> wootftpd_shared_data" where
  "lost_run =
     (let w = ex_woo\<lparr>enable := 1\<rparr>;
          m0 = gui_reset 42 ex_shm;
          (_, a, m1) = woo_alloc_operation w m0;
          (_, b, m2) = woo_alloc_operation w m1;
          m3 = snd (woo_increment_block b m2 512);
          (g4, m4) = work 100 10 (gui_start, m3);
          m5 = snd (woo_increment_block b m4 512);
          (g6, m6) = work 111 10 (g4, m5);
          m7 = snd (woo_end_operation a m6);
          m8 = snd (woo_end_operation b m7);
          (g9, m9) = work 112 10 (g6, m8)
      in work 123 10 (g9, m9))"

lemma lost_run_refuses:
  "nb_operation (snd lost_run) = 255 \<and> nb_enabled (operations (snd lost_run)) = 0 \<and>
   (\<forall>w. woo_alloc_operation (w\<lparr>enable := 1\<rparr>) (snd lost_run) = (20, w\<lparr>enable := 1\<rparr>, snd lost_run))"
proof -
  have n: "nb_operation (snd lost_run) = 255" by code_simp
  moreover have "nb_enabled (operations (snd lost_run)) = 0" by code_simp
  ultimately show ?thesis by (simp add: woo_alloc_operation_def)
qed

text \<open>
  The general case. What counts of a slot: whether it is enabled and marked as ended, and the
  monitor's removal date; \<open>drift\<close> is how far the counter is off.
\<close>

definition drift :: "wootftpd_shared_data \<Rightarrow> u8" where
  "drift m = nb_operation m - of_nat (nb_enabled (operations m))"

definition slot_state :: "nat \<Rightarrow> gui \<times> wootftpd_shared_data \<Rightarrow> bool \<Rightarrow> bool \<Rightarrow> int \<Rightarrow> u8 \<Rightarrow> bool" where
  "slot_state x gm en fin date dr = (x < length (operations (snd gm)) \<and> x < length (end_array (fst gm)) \<and>
     bit (flags_at (snd gm) x) 0 = en \<and> bit (flags_at (snd gm) x) 1 = fin \<and> end_array (fst gm) ! x = date \<and>
     drift (snd gm) = dr)"

text \<open>
  What everybody else, and the setters of the process itself, may do in the meantime: anything
  that leaves the two flags and the removal date of the slot alone and keeps the counter right
  with respect to the other slots.
\<close>

definition keeps_slot :: "nat \<Rightarrow> gui \<times> wootftpd_shared_data \<Rightarrow> gui \<times> wootftpd_shared_data \<Rightarrow> bool" where
  "keeps_slot x gm gm' = (length (operations (snd gm')) = length (operations (snd gm)) \<and>
     length (end_array (fst gm')) = length (end_array (fst gm)) \<and>
     (\<forall>k < 2. bit (flags_at (snd gm') x) k = bit (flags_at (snd gm) x) k) \<and>
     end_array (fst gm') ! x = end_array (fst gm) ! x \<and> drift (snd gm') = drift (snd gm))"

lemma keeps_slot_refl: "keeps_slot x gm gm"
  by (simp add: keeps_slot_def)

lemma slot_state_keeps: "slot_state x gm en fin date dr \<Longrightarrow> keeps_slot x gm gm' \<Longrightarrow> slot_state x gm' en fin date dr"
  by (auto simp: slot_state_def keeps_slot_def)

lemma drift_update:
  assumes "x < length (operations m)"
  shows "drift (m\<lparr>nb_operation := n, operations := (operations m)[x := p]\<rparr>) =
    n - nb_operation m + drift m + of_bool (slot_enabled (operations m ! x)) - of_bool (slot_enabled p)"
proof -
  have "(of_nat (nb_enabled ((operations m)[x := p]) + of_bool (slot_enabled (operations m ! x))) :: u8)
      = of_nat (nb_enabled (operations m) + of_bool (slot_enabled p))"
    using nb_enabled_update [OF assms, of p] by simp
  then show ?thesis by (simp add: drift_def algebra_simps)
qed

text \<open>A visit of another slot is such an action, if that slot is enabled when it is removed.\<close>

lemma watch_progress_drift:
  "y < length (operations m) \<Longrightarrow> watch_progress now y g m = (g', m') \<Longrightarrow>
     drift m' = drift m \<and> length (operations m') = length (operations m) \<and>
     bit (flags_at m' y) 0 = bit (flags_at m y) 0 \<and> (bit (flags_at m' y) 1 \<longrightarrow> bit (flags_at m y) 1 \<or> bit (flags_at m y) 0) \<and>
     end_array g' = end_array g"
  using drift_update [of y m, where n = "nb_operation m" and p = "(operations m ! y)\<lparr>oflags := (oflags (operations m ! y) OR WOOTFTPD_END) OR WOOTFTPD_TIMEOUT\<rparr>"]
  by (auto simp: watch_progress_def watched_def flags_at_def slot_enabled_bit bit_or_iff flag_bit_tests Let_def
      split: prod.splits if_splits)

lemma visit_other_keeps_slot:
  assumes x: "x \<noteq> y" "y < length (operations m)" and y: "bit (flags_at m y) 1 \<or> end_array g ! y \<noteq> 0 \<longrightarrow> bit (flags_at m y) 0"
  shows "keeps_slot x (g, m) (monitor_slot now et y (g, m))"
proof -
  obtain g1 m1 where p: "watch_progress now y g m = (g1, m1)" by force
  note d = watch_progress_drift [OF x(2) p]
  obtain g' m' where v: "monitor_slot now et y (g, m) = (g', m')" by force
  then have e: "expire now y (watch_end now et y g1 m1) m1 = (g', m')" by (simp add: monitor_slot_def p)
  have "drift m' = drift m1"
  proof (cases "m' = m1")
    case False
    then have r: "m' = m1\<lparr>nb_operation := nb_operation m1 - 1,
        operations := (operations m1)[y := (operations m1 ! y)\<lparr>oflags := WOOTFTPD_RESET\<rparr>]\<rparr>"
      and "bit (flags_at m1 y) 1 \<or> end_array g1 ! y \<noteq> 0"
      using e by (auto simp: expire_def watch_end_def flags_at_def split: if_splits)
    then have "slot_enabled (operations m1 ! y)" using y d by (auto simp: slot_enabled_bit flags_at_def)
    then show ?thesis using x(2) d
      by (simp add: r drift_update slot_enabled_bit flag_bit_tests)
  qed simp
  then show ?thesis using monitor_slot_other(1) [OF v x(1)] monitor_slot_other(2,3) [OF v] d by (simp add: keeps_slot_def v flags_at_def)
qed

lemma visit_live:
  assumes st: "slot_state x gm True False 0 dr" and t: "times_out now x (fst gm) (snd gm)" "0 < now" "0 \<le> et"
  shows "slot_state x (monitor_slot now et x gm) True True (now + et) dr"
proof -
  obtain g m where gm: "gm = (g, m)" by force
  let ?p = "operations m ! x" let ?fl = "(oflags ?p OR WOOTFTPD_END) OR WOOTFTPD_TIMEOUT"
  let ?m = "m\<lparr>operations := (operations m)[x := ?p\<lparr>oflags := ?fl\<rparr>]\<rparr>"
  have x: "x < length (operations m)" "x < length (end_array g)" "end_array g ! x = 0" "bit (oflags ?p) 0"
    using st by (simp_all add: slot_state_def gm flags_at_def)
  have b: "bit ?fl 0" "bit ?fl 1" using x(4) by (simp_all add: bit_or_iff flag_bit_tests del: One_nat_def)
  have p: "watch_progress now x g m = (g, ?m)"
    using t(1) by (auto simp: gm watch_progress_def times_out_def Let_def split: prod.splits)
  have "has_end (operations ?m ! x)" using b x(1) by simp
  then have "monitor_slot now et x gm = (g\<lparr>end_array := (end_array g)[x := now + et]\<rparr>, ?m)"
    using x t(2,3) by (simp add: monitor_slot_def gm p watch_end_def expire_def)
  then show ?thesis using x b st drift_update [OF x(1), where n = "nb_operation m" and p = "?p\<lparr>oflags := ?fl\<rparr>"]
    by (simp add: slot_state_def gm flags_at_def slot_enabled_bit)
qed

text \<open>The removal takes one off the counter whether or not the slot was enabled.\<close>

lemma visit_remove:
  assumes st: "slot_state x gm en True date dr" and d: "date \<noteq> 0" "date < now"
  shows "slot_state x (monitor_slot now et x gm) False False 0 (dr - of_bool (\<not> en))"
proof -
  obtain g m where gm: "gm = (g, m)" by force
  let ?p = "operations m ! x"
  have x: "x < length (operations m)" "x < length (end_array g)" "end_array g ! x = date" "bit (oflags ?p) 1"
    "bit (oflags ?p) 0 = en" using st by (simp_all add: slot_state_def gm flags_at_def)
  then have "watch_progress now x g m = (g, m)" by (simp add: watch_progress_def watched_def Let_def split: prod.splits)
  then have "monitor_slot now et x gm = (g\<lparr>end_array := (end_array g)[x := 0]\<rparr>,
      m\<lparr>nb_operation := nb_operation m - 1, operations := (operations m)[x := ?p\<lparr>oflags := WOOTFTPD_RESET\<rparr>]\<rparr>)"
    using x d by (simp add: monitor_slot_def gm watch_end_def expire_def)
  then show ?thesis using x st drift_update [OF x(1), where n = "nb_operation m - 1" and p = "?p\<lparr>oflags := WOOTFTPD_RESET\<rparr>"]
    by (simp add: slot_state_def gm flags_at_def slot_enabled_bit flag_bit_tests del: One_nat_def)
qed

lemma visit_date:
  assumes st: "slot_state x gm False True 0 dr" and t: "0 < now" "0 \<le> et"
  shows "slot_state x (monitor_slot now et x gm) False True (now + et) dr"
proof -
  obtain g m where gm: "gm = (g, m)" by force
  have x: "x < length (operations m)" "x < length (end_array g)" "end_array g ! x = 0" "bit (oflags (operations m ! x)) 1"
    using st by (simp_all add: slot_state_def gm flags_at_def)
  then have "watch_progress now x g m = (g, m)" by (simp add: watch_progress_def watched_def Let_def split: prod.splits)
  then have "monitor_slot now et x gm = (g\<lparr>end_array := (end_array g)[x := now + et]\<rparr>, m)"
    using x t by (simp add: monitor_slot_def gm watch_end_def expire_def)
  then show ?thesis using x st by (simp add: slot_state_def gm)
qed

lemma end_removed:
  assumes st: "slot_state x gm False False 0 dr" and w: "enable w \<noteq> 0" "nat (opid w) = x"
  shows "slot_state x (fst gm, snd (woo_end_operation w (snd gm))) False True 0 dr"
proof -
  let ?p = "operations (snd gm) ! x"
  have x: "x < length (operations (snd gm))" using st by (simp add: slot_state_def)
  have e: "snd (woo_end_operation w (snd gm)) = (snd gm)\<lparr>operations := (operations (snd gm))[x := end_slot ?p]\<rparr>"
    using w by (simp add: woo_end_operation_def upd_slot_def my_slot_def)
  have "bit (oflags (end_slot ?p)) 0 = bit (oflags ?p) 0" "bit (oflags (end_slot ?p)) 1"
    by (simp_all add: end_slot_def Let_def bit_or_iff flag_bit_tests del: One_nat_def)
  then show ?thesis using st x drift_update [OF x, where n = "nb_operation (snd gm)" and p = "end_slot ?p"]
    by (simp add: slot_state_def e flags_at_def slot_enabled_bit)
qed


text \<open>Two processes; the one in slot 0 is timed out at the monitor's first visit.\<close>

definition ex_two :: sys where
  "ex_two =
     (let m0 = gui_reset 42 ex_shm; (_, b, m1) = woo_alloc_operation ex_woo m0; (_, a, m2) = woo_alloc_operation ex_woo m1
      in \<lparr>s_shm = m2, s_gui = gui_start, procs = [a, b]\<rparr>)"

lemma ex_two_inv: "sys_inv ex_two"
proof -
  let ?s0 = "sys_start 42 ex_shm"
  obtain r1 b m1 where b: "woo_alloc_operation ex_woo (gui_reset 42 ex_shm) = (r1, b, m1)" by (metis prod_cases3)
  obtain r2 a m2 where a: "woo_alloc_operation ex_woo m1 = (r2, a, m2)" by (metis prod_cases3)
  have "fst (woo_alloc_operation ex_woo (gui_reset 42 ex_shm)) = 0"
    "fst (woo_alloc_operation ex_woo (snd (snd (woo_alloc_operation ex_woo (gui_reset 42 ex_shm))))) = 0"
    by code_simp+
  then have r: "r1 = 0" "r2 = 0" using a b by simp_all
  have en: "enable ex_woo \<noteq> 0" by (simp add: ex_woo_def)
  have i0: "sys_inv ?s0" by (rule sys_start_inv) (simp add: ex_shm_def)
  have i1: "sys_inv (?s0\<lparr>s_shm := m1, procs := b # procs ?s0\<rparr>)"
    by (rule start_keeps_sys_inv [OF i0 en]) (use b r in \<open>simp add: sys_start_def\<close>)
  have "sys_inv (?s0\<lparr>s_shm := m2, procs := [a, b]\<rparr>)"
    using start_keeps_sys_inv [OF i1 en, of a m2] a r by (simp add: sys_start_def)
  then show ?thesis by (simp add: ex_two_def a b sys_start_def Let_def)
qed

definition ex_drift :: "gui \<times> wootftpd_shared_data" where
  "ex_drift =
     (let gm1 = monitor_slot 100 10 1 (s_gui ex_two, s_shm ex_two); gm2 = monitor_slot 111 10 1 gm1;
          gm3 = (fst gm2, snd (woo_end_operation (hd (procs ex_two)) (snd gm2))); gm4 = monitor_slot 112 10 1 gm3
      in monitor_slot 123 10 1 gm4)"

lemma ex_two_facts:
  "hd (procs ex_two) \<in> set (procs ex_two)" "1 = nat (opid (hd (procs ex_two)))"
  "times_out 100 1 (s_gui ex_two) (s_shm ex_two)" "nb_enabled (operations (snd ex_drift)) = 1"
  by code_simp+


text \<open>
  Starting a second monitor damages the first: it finds the semaphore of the running one,
  gives up with status 10, and its destructor unlinks that semaphore, after which no server
  process can attach (\<open>woo_init\<close> returns 20).
\<close>

lemma second_monitor_unlinks_semaphore:
  assumes "sem_name k" and "\<not> m_force_boot d" and "gui_initialize env d k m = (status, d', k', m')"
    and "env_sem_open senv = sem_name (gui_destroy d' k')"
  shows "status = 10 \<and> m' = m \<and> \<not> sem_name (gui_destroy d' k') \<and> fst (woo_init senv w m) = 20"
  using assms by (auto simp: gui_initialize_def gui_destroy_def woo_init_def Let_def split: if_splits)

end
