(* ===== verification/GuiView.thy ===== *)
theory GuiView
  imports WooGui
begin

text \<open>
  What the monitor displays (\<open>widget.cxx\<close>, \<open>operation_view.cxx\<close>): one item per enabled slot,
  created and deleted as slots are taken and released, and its contents. Layout, style sheets
  and painting are Qt's and are left out; an item is the texts, the progress indicator and
  the icon last handed to it. One update reads one state of the shared segment.
\<close>

subsection \<open>One operation\<close>

datatype image_id = Upload | Download | Success | Failure

text \<open>\<open>m_progessbar\<close> holds the upper end of the range and the value set, as \<open>int\<close>.\<close>

record operation_view =
  m_text_remote_ip :: string
  m_text_filename :: string
  m_progesslab :: "string option"
  m_progessbar :: "(int \<times> int) option"
  m_icon :: "image_id option"

definition qnumber :: "int \<Rightarrow> string" where
  "qnumber n = (if n < 0 then CHR ''-'' # utoa (nat (- n)) else utoa (nat n))"

abbreviation has_upload :: "wootftpd_operation \<Rightarrow> bool" where
  "has_upload p \<equiv> WOOTFTPD_CHECK_FLAG (oflags p) WOOTFTPD_UPLOAD"

abbreviation has_timeout :: "wootftpd_operation \<Rightarrow> bool" where
  "has_timeout p \<equiv> WOOTFTPD_CHECK_FLAG (oflags p) WOOTFTPD_TIMEOUT"

definition update_progress :: "wootftpd_operation \<Rightarrow> operation_view \<Rightarrow> operation_view" where
  "update_progress p v =
     (if has_upload p then
        (let v1 = (case m_progessbar v of
                     Some _ \<Rightarrow> v
                   | None \<Rightarrow> v\<lparr>m_progesslab := None, m_progessbar := Some (0, 0)\<rparr>)
         in v1\<lparr>m_progessbar := Some (sint (op_total_block p), sint (op_block p))\<rparr>)
      else
        (let v1 = (case m_progesslab v of
                     Some _ \<Rightarrow> v
                   | None \<Rightarrow> v\<lparr>m_progessbar := None, m_progesslab := Some []\<rparr>)
         in v1\<lparr>m_progesslab := Some (qnumber (uint (op_block p)) @ '' octets'')\<rparr>))"

definition icon_of :: "wootftpd_operation \<Rightarrow> image_id" where
  "icon_of p =
     (if has_end p then (if has_timeout p then Failure else Success)
      else (if has_upload p then Upload else Download))"

text \<open>
  The images are loaded when the first item is made, and an icon is read from them by its number.
  A load is the name of the resource.
\<close>

fun image_nr :: "image_id \<Rightarrow> nat" where
  "image_nr Upload = 0" | "image_nr Download = 1" | "image_nr Success = 2" | "image_nr Failure = 3"

definition initialize_images :: "string list" where
  "initialize_images =
     (replicate 4 [])[image_nr Upload := '':/upload'', image_nr Download := '':/download'',
                      image_nr Success := '':/success'', image_nr Failure := '':/failure'']"

definition images_for_item :: "string list \<Rightarrow> string list" where
  "images_for_item images = (if images = [] then initialize_images else images)"

lemma images_loaded:
  assumes "imgs = (images_for_item ^^ Suc n) []"
  shows "image_nr i < length imgs" and "imgs ! image_nr i \<noteq> []" and "imgs ! image_nr i = imgs ! image_nr j \<longleftrightarrow> i = j"
proof -
  have "(images_for_item ^^ k) initialize_images = initialize_images" for k
    by (induction k) (simp_all add: images_for_item_def initialize_images_def)
  then have "imgs = initialize_images" using assms by (simp add: funpow_Suc_right images_for_item_def del: funpow.simps)
  then show "image_nr i < length imgs" "imgs ! image_nr i \<noteq> []" "imgs ! image_nr i = imgs ! image_nr j \<longleftrightarrow> i = j"
    by (cases i; cases j; simp add: initialize_images_def eval_nat_numeral)+
qed

definition update_item :: "wootftpd_operation \<Rightarrow> operation_view \<Rightarrow> operation_view" where
  "update_item p v =
     (let v1 = v\<lparr>m_text_remote_ip := op_ip p @ '':'' @ qnumber (op_port p), m_text_filename := op_filename p\<rparr>
      in (update_progress p v1)\<lparr>m_icon := Some (icon_of p)\<rparr>)"

definition new_item :: "wootftpd_operation \<Rightarrow> operation_view" where
  "new_item p =
     update_item p \<lparr>m_text_remote_ip = [], m_text_filename = [], m_progesslab = None, m_progessbar = None, m_icon = None\<rparr>"

subsection \<open>The window\<close>

record widget =
  m_items :: "operation_view option list"
  m_nb_enables_items :: int
  w_height :: int

definition adjust_geometry :: "widget \<Rightarrow> widget" where
  "adjust_geometry w = w\<lparr>w_height := m_nb_enables_items w * 64\<rparr>"

definition create_item :: "wootftpd_shared_data \<Rightarrow> nat \<Rightarrow> widget \<Rightarrow> widget" where
  "create_item m x w =
     adjust_geometry (w\<lparr>m_items := (m_items w)[x := Some (new_item (operations m ! x))],
                        m_nb_enables_items := m_nb_enables_items w + 1\<rparr>)"

definition delete_item :: "nat \<Rightarrow> widget \<Rightarrow> widget" where
  "delete_item x w =
     adjust_geometry (w\<lparr>m_items := (m_items w)[x := None], m_nb_enables_items := m_nb_enables_items w - 1\<rparr>)"

definition update_slot_item :: "wootftpd_shared_data \<Rightarrow> nat \<Rightarrow> widget \<Rightarrow> widget" where
  "update_slot_item m x w =
     (let en = slot_enabled (operations m ! x);
          w1 = (if en \<and> m_items w ! x = None then create_item m x w else w)
      in if \<not> en \<and> m_items w1 ! x \<noteq> None then delete_item x w1 else w1)"

definition update_items :: "wootftpd_shared_data \<Rightarrow> widget \<Rightarrow> widget" where
  "update_items m w = fold (update_slot_item m) [0 ..< WOOTFTPD_MAX_NBOP] w"

definition update_view :: "wootftpd_shared_data \<Rightarrow> widget \<Rightarrow> widget" where
  "update_view m w =
     (let w1 = update_items m w
      in w1\<lparr>m_items := map (\<lambda>(x, it). map_option (update_item (operations m ! x)) it)
                          (zip [0 ..< length (m_items w1)] (m_items w1))\<rparr>)"

definition widget_start :: widget where
  "widget_start = \<lparr>m_items = replicate WOOTFTPD_MAX_NBOP None, m_nb_enables_items = 0, w_height = 0\<rparr>"

subsection \<open>What is shown\<close>

text \<open>An item has at most one progress indicator.\<close>

definition item_ok :: "operation_view \<Rightarrow> bool" where
  "item_ok v = (m_progesslab v = None \<or> m_progessbar v = None)"

definition widget_inv :: "widget \<Rightarrow> bool" where
  "widget_inv w = (length (m_items w) = WOOTFTPD_MAX_NBOP \<and>
     m_nb_enables_items w = int (length (filter (\<lambda>it. it \<noteq> None) (m_items w))) \<and>
     (\<forall>it \<in> set (m_items w). \<forall>v. it = Some v \<longrightarrow> item_ok v))"

text \<open>The display of a slot as a function of the slot alone.\<close>

definition shown :: "wootftpd_operation \<Rightarrow> operation_view" where
  "shown p =
     \<lparr>m_text_remote_ip = op_ip p @ '':'' @ qnumber (op_port p), m_text_filename = op_filename p,
      m_progesslab = (if has_upload p then None else Some (qnumber (uint (op_block p)) @ '' octets'')),
      m_progessbar = (if has_upload p then Some (sint (op_total_block p), sint (op_block p)) else None),
      m_icon = Some (if \<not> bit (oflags p) 1 then (if bit (oflags p) 2 then Upload else Download)
                     else if bit (oflags p) 4 then Failure else Success)\<rparr>"

lemma update_item_shown: "item_ok v \<Longrightarrow> update_item p v = shown p"
  by (cases v) (auto simp: update_item_def update_progress_def icon_of_def shown_def item_ok_def Let_def split: option.splits)

lemma new_item_ok: "item_ok (new_item p)"
  by (simp add: new_item_def update_item_shown item_ok_def) (simp add: shown_def item_ok_def)

lemma shown_ok: "item_ok (shown p)"
  by (simp add: shown_def item_ok_def)

lemma filter_count_map: "length (filter P xs) = length (filter id (map P xs))"
  by (induction xs) auto

lemma update_slot_item_cases:
  "update_slot_item m x w =
     (if slot_enabled (operations m ! x) then (if m_items w ! x = None then create_item m x w else w)
      else if m_items w ! x \<noteq> None then delete_item x w else w)"
  by (simp add: update_slot_item_def Let_def)

lemma update_slot_item_inv:
  assumes "widget_inv w" and "x < WOOTFTPD_MAX_NBOP"
  shows "widget_inv (update_slot_item m x w)"
    and "m_items (update_slot_item m x w) ! y \<noteq> None \<longleftrightarrow>
      (if y = x then slot_enabled (operations m ! x) else m_items w ! y \<noteq> None)"
proof -
  let ?none = "\<lambda>it :: operation_view option. it \<noteq> None"
  have x: "x < length (m_items w)" using assms by (simp add: widget_inv_def)
  have upd: "\<forall>it \<in> set ((m_items w)[x := j]). \<forall>v. it = Some v \<longrightarrow> item_ok v"
    if "\<forall>v. j = Some v \<longrightarrow> item_ok v" for j
    using assms(1) that set_update_subset_insert [of "m_items w" x j] by (auto simp: widget_inv_def)
  have c: "widget_inv (create_item m x w)" if "m_items w ! x = None"
  proof -
    have "\<forall>it \<in> set ((m_items w)[x := Some (new_item (operations m ! x))]). \<forall>v. it = Some v \<longrightarrow> item_ok v"
      using upd new_item_ok by blast
    moreover note filter_update_count [OF x, of ?none "Some (new_item (operations m ! x))"]
    ultimately show ?thesis using assms(1) that
      unfolding create_item_def adjust_geometry_def widget_inv_def by simp
  qed
  have d: "widget_inv (delete_item x w)" if "m_items w ! x \<noteq> None"
  proof -
    have "\<forall>it \<in> set ((m_items w)[x := None]). \<forall>v. it = Some v \<longrightarrow> item_ok v" using upd by blast
    moreover note filter_update_count [OF x, of ?none None]
    ultimately show ?thesis using assms(1) that
      unfolding delete_item_def adjust_geometry_def widget_inv_def by simp
  qed
  show "widget_inv (update_slot_item m x w)" unfolding update_slot_item_cases using c d assms(1) by simp
  show "m_items (update_slot_item m x w) ! y \<noteq> None \<longleftrightarrow>
      (if y = x then slot_enabled (operations m ! x) else m_items w ! y \<noteq> None)"
    unfolding update_slot_item_cases using x
    by (simp add: create_item_def delete_item_def adjust_geometry_def nth_list_update)
qed

lemma fold_slot_items:
  assumes "widget_inv w" and "n \<le> WOOTFTPD_MAX_NBOP"
  shows "widget_inv (fold (update_slot_item m) [0 ..< n] w)" and
    "y < n \<Longrightarrow> m_items (fold (update_slot_item m) [0 ..< n] w) ! y \<noteq> None \<longleftrightarrow> slot_enabled (operations m ! y)"
  using assms(2)
proof (induction n)
  case (Suc n)
  have i: "widget_inv (fold (update_slot_item m) [0 ..< n] w)" if "Suc n \<le> WOOTFTPD_MAX_NBOP" using Suc that by simp
  { case 1 then show ?case using update_slot_item_inv(1) [OF i] by simp
  next case 2 then show ?case using update_slot_item_inv(2) [OF i, of n m y] Suc.IH(2) by (auto simp: less_Suc_eq) }
qed (simp_all add: assms(1))

lemma update_view_items:
  assumes "widget_inv w"
  shows "length (m_items (update_view m w)) = WOOTFTPD_MAX_NBOP \<and>
    (\<forall>x < WOOTFTPD_MAX_NBOP. m_items (update_view m w) ! x =
       (if slot_enabled (operations m ! x) then Some (shown (operations m ! x)) else None))"
proof -
  let ?w = "update_items m w"
  have inv: "widget_inv ?w" unfolding update_items_def using fold_slot_items(1) [OF assms le_refl] .
  then have len: "length (m_items ?w) = WOOTFTPD_MAX_NBOP" by (simp add: widget_inv_def)
  have "m_items (update_view m w) ! x =
       (if slot_enabled (operations m ! x) then Some (shown (operations m ! x)) else None)"
    if x: "x < WOOTFTPD_MAX_NBOP" for x
  proof -
    have en: "m_items ?w ! x \<noteq> None \<longleftrightarrow> slot_enabled (operations m ! x)"
      unfolding update_items_def using fold_slot_items(2) [OF assms le_refl x] .
    have ok: "item_ok v" if "m_items ?w ! x = Some v" for v
      using inv that x len nth_mem [of x "m_items ?w"] unfolding widget_inv_def by metis
    have "m_items (update_view m w) ! x = map_option (update_item (operations m ! x)) (m_items ?w ! x)"
      using x len by (simp add: update_view_def Let_def)
    then show ?thesis using en ok by (cases "m_items ?w ! x") (auto simp: update_item_shown)
  qed
  then show ?thesis using len by (simp add: update_view_def Let_def)
qed

lemma count_shown:
  assumes "length its = length ops"
    and "\<forall>x < length ops. its ! x = (if P (ops ! x) then Some (f (ops ! x)) else None)"
  shows "length (filter (\<lambda>it. it \<noteq> None) its) = length (filter P ops)"
proof -
  have "its = map (\<lambda>p. if P p then Some (f p) else None) ops"
    using assms by (intro nth_equalityI) simp_all
  then show ?thesis by (simp add: filter_map comp_def)
qed

lemma update_view_keeps_inv:
  assumes "widget_inv w"
  shows "widget_inv (update_view m w)"
proof -
  let ?w = "update_items m w"
  have inv: "widget_inv ?w" unfolding update_items_def using fold_slot_items(1) [OF assms le_refl] .
  have len: "length (m_items ?w) = WOOTFTPD_MAX_NBOP" using inv by (simp add: widget_inv_def)
  have "map (\<lambda>it. it \<noteq> None) (m_items (update_view m w)) = map (\<lambda>it. it \<noteq> None) (m_items ?w)"
    using len by (intro nth_equalityI) (simp_all add: update_view_def Let_def)
  then have "length (filter (\<lambda>it. it \<noteq> None) (m_items (update_view m w))) = length (filter (\<lambda>it. it \<noteq> None) (m_items ?w))"
    by (simp only: filter_count_map [of "\<lambda>it. it \<noteq> None"])
  moreover have "item_ok v" if "it \<in> set (m_items (update_view m w))" "it = Some v" for it v
  proof -
    from that obtain x where "x < WOOTFTPD_MAX_NBOP" "m_items (update_view m w) ! x = Some v"
      using update_view_items [OF assms, of m] by (auto simp: in_set_conv_nth)
    then show ?thesis using update_view_items [OF assms, of m] shown_ok by (metis option.distinct(1) option.inject)
  qed
  moreover have "m_nb_enables_items (update_view m w) = m_nb_enables_items ?w" by (simp add: update_view_def Let_def)
  moreover note update_view_items [OF assms, of m, THEN conjunct1]
  ultimately show ?thesis using inv unfolding widget_inv_def by metis
qed

lemma update_slot_item_height:
  "w_height w = 64 * m_nb_enables_items w \<Longrightarrow>
     w_height (update_slot_item m x w) = 64 * m_nb_enables_items (update_slot_item m x w)"
  by (simp add: update_slot_item_cases create_item_def delete_item_def adjust_geometry_def)

lemma update_view_height:
  assumes "w_height w = 64 * m_nb_enables_items w"
  shows "w_height (update_view m w) = 64 * m_nb_enables_items (update_view m w)"
proof -
  have "w_height (fold (update_slot_item m) xs w) = 64 * m_nb_enables_items (fold (update_slot_item m) xs w)" for xs
    by (induction xs rule: rev_induct) (simp_all add: assms update_slot_item_height)
  then show ?thesis by (simp add: update_view_def update_items_def Let_def del: upt_Suc upt_rec_numeral)
qed

text \<open>
  C34. The window shows the segment. Whatever sequence of states of the segment the monitor
  has displayed before, after an update there is an item exactly for the enabled slots, and
  it shows the contents of the slot as it is now (a progress bar for uploads and a byte count
  for downloads, never both; the icon of the end or failure of the operation); the window is
  64 pixels high per item, and if the operation count of the segment is right then it is the
  number of items.
\<close>

theorem update_view_shows:
  assumes "shm_inv m" and "w = fold update_view ms widget_start"
  shows "(\<forall>x < WOOTFTPD_MAX_NBOP. m_items (update_view m w) ! x =
       (if slot_enabled (operations m ! x) then Some (shown (operations m ! x)) else None)) \<and>
    m_nb_enables_items (update_view m w) = int (unat (nb_operation m)) \<and>
    w_height (update_view m w) = 64 * int (unat (nb_operation m))"
proof -
  have "widget_inv widget_start \<and> w_height widget_start = 64 * m_nb_enables_items widget_start"
    by (simp add: widget_inv_def widget_start_def)
  then have w: "widget_inv w \<and> w_height w = 64 * m_nb_enables_items w"
    unfolding assms(2) by (induction ms rule: rev_induct) (simp_all add: update_view_keeps_inv update_view_height)
  then have inv: "widget_inv (update_view m w)" and h: "w_height (update_view m w) = 64 * m_nb_enables_items (update_view m w)"
    by (simp_all add: update_view_keeps_inv update_view_height)
  have its: "length (m_items (update_view m w)) = length (operations m)"
    "\<forall>x < length (operations m). m_items (update_view m w) ! x =
       (if slot_enabled (operations m ! x) then Some (shown (operations m ! x)) else None)"
    using update_view_items [of w m] w assms(1) by (simp_all add: shm_inv_def)
  have "m_nb_enables_items (update_view m w) = int (nb_enabled (operations m))"
    using inv count_shown [OF its] by (simp add: widget_inv_def nb_enabled_def)
  then show ?thesis using h its assms(1) by (simp add: shm_inv_def)
qed

theorem update_view_shows_witness:
  "m_nb_enables_items (update_view ex_shm (fold update_view [] widget_start)) = 1"
  using update_view_shows [OF ex_shm_inv refl, of "[]"] by (simp add: ex_shm_def)

end
