(* ===== verification/GuiMain.thy ===== *)
theory GuiMain
  imports GuiView Process
begin

text \<open>
  The monitor as a program: its two forks (\<open>main.cxx\<close>), start-up (\<open>application::start\<close>), the
  settings, and its sleep while there is nothing to show. The sleep and the signals of the
  server processes are a step relation over the same shared segment as the rest. Qt's option parser,
  settings file and screen geometry are arguments.
\<close>

subsection \<open>Settings\<close>

text \<open>The values of the settings file as Qt converts them; a missing value is 0.\<close>

record settings =
  m_widget_screen :: int
  m_widget_position :: "int \<times> int"
  m_end_time_s :: int

record qsettings =
  q_int :: "string \<Rightarrow> int option"
  q_point :: "string \<Rightarrow> (int \<times> int) option"

definition load_settings :: "qsettings \<Rightarrow> int \<times> settings" where
  "load_settings q =
     (0, \<lparr>m_widget_screen = (case q_int q ''widget/screen'' of None \<Rightarrow> 0 | Some n \<Rightarrow> n),
          m_widget_position = (case q_point q ''widget/position'' of None \<Rightarrow> (0, 0) | Some pt \<Rightarrow> pt),
          m_end_time_s = (case q_int q ''operation/end_time'' of None \<Rightarrow> 0 | Some n \<Rightarrow> n)\<rparr>)"

text \<open>\<open>widget::setup\<close>: where the window goes, given the top left corners of the screens.\<close>

definition setup_position :: "(int \<times> int) list \<Rightarrow> settings \<Rightarrow> int \<times> int" where
  "setup_position screens st =
     (let pos = m_widget_position st; screen = m_widget_screen st
      in if 0 \<le> screen \<and> screen < int (length screens)
         then (fst pos + fst (screens ! nat screen), snd pos + snd (screens ! nat screen)) else pos)"

subsection \<open>Start\<close>

datatype phase = Awake | Asleep

text \<open>
  The running monitor: its watch, its settings, the window and whether it is visible, whether \<open>SIGUSR1\<close>
  is blocked and pending, and whether it waits for the signal.
\<close>

record monitor =
  mon_gui :: gui
  mon_settings :: settings
  mon_widget :: widget
  mon_position :: "int \<times> int"
  mon_blocked :: bool
  mon_pending :: bool
  mon_phase :: phase
  mon_visible :: bool

text \<open>The constructor: nothing is shown, nothing blocked.\<close>

definition new_application :: monitor where
  "new_application = \<lparr>mon_gui = \<lparr>end_array = replicate WOOTFTPD_MAX_NBOP 0, timeout_array = replicate WOOTFTPD_MAX_NBOP (0, 0)\<rparr>,
     mon_settings = \<lparr>m_widget_screen = 0, m_widget_position = (0, 0), m_end_time_s = 0\<rparr>, mon_widget = widget_start,
     mon_position = (0, 0), mon_blocked = False, mon_pending = False, mon_phase = Awake, mon_visible = False\<rparr>"

text \<open>
  \<open>start\<close> up to the event loop: the status (0 when the loop is entered) and the state. The
  parser answers whether the force option is given, or ends the program. \<open>initialize\<close> loads the
  settings after the forced removal of old names and before it opens the semaphore.
\<close>

definition app_start ::
  "(string list \<Rightarrow> bool option) \<Rightarrow> qsettings \<Rightarrow> (int \<times> int) list \<Rightarrow> gui_env \<Rightarrow> string list \<Rightarrow> monitor \<Rightarrow> kernel \<Rightarrow> wootftpd_shared_data
     \<Rightarrow> (int \<times> monitor \<times> gui_data \<times> kernel \<times> wootftpd_shared_data) option" where
  "app_start parser q screens env argv mon k m =
     (let mon1 = mon\<lparr>mon_blocked := True, mon_gui := gui_start\<rparr>
      in case parser argv of
           None \<Rightarrow> None
         | Some force \<Rightarrow>
             (let d = set_force_boot force new_data;
                  st = snd (load_settings q);
                  mon2 = mon1\<lparr>mon_settings := st, mon_position := setup_position screens st\<rparr>
              in case gui_initialize env d k m of
                   (status, d1, k1, m1) \<Rightarrow>
                     Some (status, (if status = 0 then mon2\<lparr>mon_visible := True\<rparr> else mon2), d1, k1, m1)))"

text \<open>
  \<open>run_application\<close>: the status, and the kernel after the destructor if \<open>start\<close> returned
  without entering the event loop.
\<close>

definition run_application ::
  "(string list \<Rightarrow> bool option) \<Rightarrow> qsettings \<Rightarrow> (int \<times> int) list \<Rightarrow> gui_env \<Rightarrow> string list \<Rightarrow> kernel \<Rightarrow> wootftpd_shared_data
     \<Rightarrow> (int \<times> monitor option \<times> kernel \<times> wootftpd_shared_data) option" where
  "run_application parser q screens env argv k m =
     (case app_start parser q screens env argv new_application k m of
        None \<Rightarrow> None
      | Some (status, mon, d, k1, m1) \<Rightarrow>
          Some (if status = 0 then (status, Some mon, k1, m1) else (status, None, gui_destroy d k1, m1)))"

text \<open>
  \<open>main\<close>: only the grandchild runs the application; a failing \<open>fork\<close> is taken for the
  parent's side of a fork.
\<close>

definition gui_main :: "fork_result \<Rightarrow> fork_result \<Rightarrow> 'a \<Rightarrow> int + 'a" where
  "gui_main pid_0 pid_1 run =
     (case pid_0 of
        In_child _ \<Rightarrow> (case pid_1 of In_child _ \<Rightarrow> Inr run | _ \<Rightarrow> Inl 0)
      | _ \<Rightarrow> Inl 0)"

subsection \<open>Sleeping and waking\<close>

text \<open>\<open>hide_and_sleep\<close> up to \<open>sigwait\<close>, and after it: a pending signal is taken.\<close>

definition hide_and_sleep :: "monitor \<Rightarrow> monitor" where
  "hide_and_sleep mon = mon\<lparr>mon_visible := False, mon_phase := Asleep\<rparr>"

definition wake_up :: "monitor \<Rightarrow> monitor" where
  "wake_up mon = mon\<lparr>mon_pending := False, mon_visible := True, mon_phase := Awake\<rparr>"

text \<open>
  The timer runs \<open>work\<close> and then \<open>update_view\<close>; if \<open>work\<close> goes to sleep, the rest of this
  happens when it wakes.
\<close>

definition timer_tick :: "int \<Rightarrow> monitor \<Rightarrow> wootftpd_shared_data \<Rightarrow> monitor \<times> wootftpd_shared_data" where
  "timer_tick now mon m =
     (if nb_operation m = 0 then (hide_and_sleep mon, m)
      else case monitor_operations now (m_end_time_s (mon_settings mon)) (mon_gui mon, m) of
             (g, m1) \<Rightarrow> (mon\<lparr>mon_gui := g, mon_widget := update_view m1 (mon_widget mon)\<rparr>, m1))"

definition timer_wake :: "monitor \<Rightarrow> wootftpd_shared_data \<Rightarrow> monitor" where
  "timer_wake mon m = (let mon1 = wake_up mon in mon1\<lparr>mon_widget := update_view m (mon_widget mon1)\<rparr>)"

text \<open>
  \<open>SIGUSR1\<close> arrives: blocked, it becomes pending; otherwise the empty handler swallows it. The mask is
  that of the thread that waits; threads which Qt may have started before it was set, and which
  could take the signal, are not modelled.
\<close>

definition usr1 :: "monitor \<Rightarrow> monitor" where
  "usr1 mon = (if mon_blocked mon then mon\<lparr>mon_pending := True\<rparr> else mon)"

text \<open>
  Monitor and servers: \<open>starting\<close> are the processes that have a slot and have not signalled yet.
  A step is labelled with whether it times out the operation of a running process, which only the
  timer can do.
\<close>

record wsys =
  w_mon :: monitor
  w_pid :: int
  w_shm :: wootftpd_shared_data
  starting :: "woo_data list"
  started :: "woo_data list"

definition live_tick :: "int \<Rightarrow> wsys \<Rightarrow> bool" where
  "live_tick now s = (nb_operation (w_shm s) \<noteq> 0 \<and>
     (\<exists>w \<in> set (starting s @ started s). times_out now (nat (opid w)) (mon_gui (w_mon s)) (w_shm s)))"

inductive wake_step :: "bool \<Rightarrow> wsys \<Rightarrow> wsys \<Rightarrow> bool" where
  alloc: "enable w \<noteq> 0 \<Longrightarrow> woo_alloc_operation w (w_shm s) = (0, w', m') \<Longrightarrow>
    wake_step False s (s\<lparr>w_shm := m', starting := w' # starting s\<rparr>)"
| notify: "w \<in> set (starting s) \<Longrightarrow> woo_wake_up_gui w (w_shm s) = (0, w') \<Longrightarrow>
    wake_step False s (s\<lparr>starting := remove1 w (starting s), started := w' # started s,
      w_mon := (if last (signals w') = w_pid s then usr1 (w_mon s) else w_mon s)\<rparr>)"
| transfer: "w \<in> set (started s) \<Longrightarrow> (\<And>p k. k < 2 \<Longrightarrow> bit (oflags (h p)) k = bit (oflags p) k) \<Longrightarrow>
    wake_step False s (s\<lparr>w_shm := upd_slot w h (w_shm s)\<rparr>)"
| finish: "w \<in> set (started s) \<Longrightarrow>
    wake_step False s (s\<lparr>w_shm := snd (woo_end_operation w (w_shm s)), started := remove1 w (started s)\<rparr>)"
| leave: "w \<in> set (started s) \<Longrightarrow> wake_step False s (s\<lparr>started := remove1 w (started s)\<rparr>)"
| tick: "mon_phase (w_mon s) = Awake \<Longrightarrow> timer_tick now (w_mon s) (w_shm s) = (mon', m') \<Longrightarrow>
    wake_step (live_tick now s) s (s\<lparr>w_mon := mon', w_shm := m'\<rparr>)"
| wake: "mon_phase (w_mon s) = Asleep \<Longrightarrow> mon_pending (w_mon s) \<Longrightarrow>
    wake_step False s (s\<lparr>w_mon := timer_wake (w_mon s) (w_shm s)\<rparr>)"

definition any_step :: "wsys \<Rightarrow> wsys \<Rightarrow> bool" where
  "any_step s s' = (\<exists>live. wake_step live s s')"

definition wake_inv :: "wsys \<Rightarrow> bool" where
  "wake_inv s = (mon_blocked (w_mon s) \<and> client_pid (w_shm s) = w_pid s \<and>
     (\<forall>w \<in> set (starting s). enable w \<noteq> 0) \<and>
     (mon_visible (w_mon s) \<longleftrightarrow> mon_phase (w_mon s) = Awake) \<and> widget_inv (mon_widget (w_mon s)) \<and>
     (mon_phase (w_mon s) = Asleep \<longrightarrow> nb_operation (w_shm s) \<noteq> 0 \<longrightarrow> mon_pending (w_mon s) \<or> starting s \<noteq> []))"

lemma watch_progress_pid: "watch_progress now x g m = (g', m') \<Longrightarrow> client_pid m' = client_pid m"
  by (auto simp: watch_progress_def Let_def split: prod.splits if_splits)

lemma expire_pid: "client_pid (snd (expire now x g m)) = client_pid m"
  by (simp add: expire_def)

lemma monitor_slot_pid: "client_pid (snd (monitor_slot now et x gm)) = client_pid (snd gm)"
  by (auto simp: monitor_slot_def expire_pid dest: watch_progress_pid split: prod.splits)

lemma monitor_operations_pid: "client_pid (snd (monitor_operations now et gm)) = client_pid (snd gm)"
proof -
  have "client_pid (snd (fold (monitor_slot now et) xs gm)) = client_pid (snd gm)" for xs
    by (induction xs arbitrary: gm) (simp_all add: monitor_slot_pid)
  then show ?thesis by (simp add: monitor_operations_def del: upt_Suc upt_rec_numeral)
qed

lemma wake_step_inv:
  assumes "wake_step live s s'" and "wake_inv s"
  shows "wake_inv s'"
  using assms
proof (induction rule: wake_step.induct)
  case (alloc w s w' m')
  then have "enable w' \<noteq> 0 \<and> client_pid m' = client_pid (w_shm s)"
    by (auto simp: woo_alloc_operation_def split: if_splits option.splits)
  then show ?case using alloc by (simp add: wake_inv_def)
next
  case (notify w s w')
  then have "signals w' = signals w @ [client_pid (w_shm s)]" by (auto simp: woo_wake_up_gui_def split: if_splits)
  then have "last (signals w') = w_pid s" using notify by (simp add: wake_inv_def)
  then show ?case using notify notin_set_remove1 by (fastforce simp: wake_inv_def usr1_def)
next
  case (transfer w s h)
  then show ?case by (simp add: wake_inv_def upd_slot_def)
next
  case (finish w s)
  then show ?case by (simp add: wake_inv_def woo_end_operation_def upd_slot_def)
next
  case (leave w s)
  then show ?case by (simp add: wake_inv_def)
next
  case (tick s now mon' m')
  show ?case
  proof (cases "nb_operation (w_shm s) = 0")
    case True
    then show ?thesis using tick by (auto simp: timer_tick_def wake_inv_def hide_and_sleep_def)
  next
    case False
    then show ?thesis using tick monitor_operations_pid [of now "m_end_time_s (mon_settings (w_mon s))" "(mon_gui (w_mon s), w_shm s)"]
      by (auto simp: timer_tick_def wake_inv_def update_view_keeps_inv split: prod.splits)
  qed
next
  case (wake s)
  then show ?case by (simp add: wake_inv_def timer_wake_def wake_up_def Let_def update_view_keeps_inv)
qed

lemma wake_reach_inv:
  assumes "any_step\<^sup>*\<^sup>* s0 s" and "wake_inv s0"
  shows "wake_inv s"
  using assms by (induction rule: rtranclp_induct) (auto simp: any_step_def intro: wake_step_inv)

text \<open>
  Without such time-outs the counter is right: the steps are steps of the system of
  \<open>WooGui\<close>, with the visits of all slots in one.
\<close>

definition as_sys :: "wsys \<Rightarrow> sys" where
  "as_sys s = \<lparr>s_shm = w_shm s, s_gui = mon_gui (w_mon s), procs = starting s @ started s\<rparr>"

lemma visits_keep_sys_inv:
  "sys_inv s \<Longrightarrow> distinct xs \<Longrightarrow> \<forall>x \<in> set xs. x < WOOTFTPD_MAX_NBOP \<and> \<not> live_kill now x s \<Longrightarrow>
   fold (monitor_slot now et) xs (s_gui s, s_shm s) = (g, m) \<Longrightarrow> sys_inv (s\<lparr>s_gui := g, s_shm := m\<rparr>)"
proof (induction xs arbitrary: s)
  case Nil
  then show ?case by (cases s) simp
next
  case (Cons x xs)
  obtain g1 m1 where v: "monitor_slot now et x (s_gui s, s_shm s) = (g1, m1)" by force
  let ?s = "s\<lparr>s_gui := g1, s_shm := m1\<rparr>"
  have i: "sys_inv ?s" by (rule visit_keeps_sys_inv [OF Cons.prems(1) _ _ v]) (use Cons.prems(3) in simp_all)
  have "\<not> live_kill now y ?s" if "y \<in> set xs" for y
  proof -
    have "y \<noteq> x" using that Cons.prems(2) by auto
    then have "live_kill now y ?s = live_kill now y s"
      using monitor_slot_other(1) [OF v] by (simp add: live_kill_def times_out_def)
    then show ?thesis using that Cons.prems(3) by simp
  qed
  then have "sys_inv (?s\<lparr>s_gui := g, s_shm := m\<rparr>)" using Cons.IH [OF i] Cons.prems(2-4) v by simp
  then show ?case by simp
qed

lemma tick_keeps_sys_inv:
  assumes inv: "sys_inv (as_sys s)" and t: "timer_tick now (w_mon s) (w_shm s) = (mon', m')" and l: "\<not> live_tick now s"
  shows "sys_inv (as_sys (s\<lparr>w_mon := mon', w_shm := m'\<rparr>))"
proof (cases "nb_operation (w_shm s) = 0")
  case True
  then show ?thesis using inv t by (auto simp: timer_tick_def hide_and_sleep_def as_sys_def)
next
  case False
  let ?et = "m_end_time_s (mon_settings (w_mon s))"
  obtain g m where f: "fold (monitor_slot now ?et) [0 ..< WOOTFTPD_MAX_NBOP] (mon_gui (w_mon s), w_shm s) = (g, m)" by force
  have "\<forall>x \<in> set [0 ..< WOOTFTPD_MAX_NBOP]. x < WOOTFTPD_MAX_NBOP \<and> \<not> live_kill now x (as_sys s)"
    using l False by (auto simp: live_tick_def live_kill_def as_sys_def simp del: upt_Suc upt_rec_numeral)
  with visits_keep_sys_inv [OF inv distinct_upt this, of ?et g m] f
  have "sys_inv ((as_sys s)\<lparr>s_gui := g, s_shm := m\<rparr>)" by (simp add: as_sys_def del: upt_Suc upt_rec_numeral)
  moreover have "as_sys (s\<lparr>w_mon := mon', w_shm := m'\<rparr>) = (as_sys s)\<lparr>s_gui := g, s_shm := m\<rparr>"
    using t f False by (auto simp: timer_tick_def monitor_operations_def as_sys_def simp del: upt_Suc upt_rec_numeral)
  ultimately show ?thesis by simp
qed

lemma notify_keeps_sys_inv:
  assumes inv: "sys_inv (as_sys s)" and w: "w \<in> set (starting s)" and w': "opid w' = opid w" "enable w' = enable w"
  shows "sys_inv (as_sys (s\<lparr>starting := remove1 w (starting s), started := w' # started s\<rparr>))"
proof -
  obtain a b where ab: "starting s = a @ w # b" "w \<notin> set a" using split_list_first [OF w] by blast
  then have "remove1 w (starting s) = a @ b" by (simp add: remove1_append)
  then show ?thesis using inv w' unfolding ab(1) sys_inv_def as_sys_def by (auto simp: owns_def ab(1))
qed

lemma remove_started:
  assumes "sys_inv (as_sys s)" and "w \<in> set (started s)"
  shows "remove1 w (starting s @ started s) = starting s @ remove1 w (started s)"
proof -
  have "distinct (map opid (starting s @ started s))" using assms(1) by (simp add: sys_inv_def as_sys_def)
  then have "w \<notin> set (starting s)" using assms(2) by (auto simp: image_iff)
  then show ?thesis by (simp add: remove1_append)
qed

lemma quiet_step_sys_inv:
  assumes "wake_step live s s'" and "\<not> live" and "sys_inv (as_sys s)"
  shows "sys_inv (as_sys s')"
  using assms
proof (induction rule: wake_step.induct)
  case (alloc w s w' m')
  from start_keeps_sys_inv [OF alloc(4,1), of w' m'] alloc(2) show ?case by (simp add: as_sys_def)
next
  case (notify w s w')
  then have "opid w' = opid w" "enable w' = enable w" by (auto simp: woo_wake_up_gui_def split: if_splits)
  from notify_keeps_sys_inv [OF notify(4,1) this] show ?case by (simp add: as_sys_def usr1_def)
next
  case (transfer w s h)
  then have "sys_inv ((as_sys s)\<lparr>s_shm := upd_slot w h (s_shm (as_sys s))\<rparr>)"
    by (intro upd_keeps_sys_inv) (simp_all add: as_sys_def)
  then show ?case by (simp add: as_sys_def)
next
  case (finish w s)
  from finish_keeps_sys_inv [OF finish(3), of w] remove_started [OF finish(3,1)] finish(1)
  show ?case by (simp add: as_sys_def)
next
  case (leave w s)
  from die_keeps_sys_inv [OF leave(3), of w] remove_started [OF leave(3,1)] show ?case by (simp add: as_sys_def)
next
  case (tick s now mon' m')
  then show ?case using tick_keeps_sys_inv by blast
next
  case (wake s)
  then show ?case by (simp add: as_sys_def timer_wake_def wake_up_def Let_def)
qed

lemma quiet_reach_sys_inv:
  assumes "(wake_step False)\<^sup>*\<^sup>* s0 s" and "sys_inv (as_sys s0)"
  shows "sys_inv (as_sys s)"
  using assms by (induction rule: rtranclp_induct) (auto intro: quiet_step_sys_inv)

lemma sys_inv_counts:
  assumes "sys_inv (as_sys s)" and "p \<in> set (operations (w_shm s))" and "slot_enabled p"
  shows "nb_operation (w_shm s) \<noteq> 0"
proof -
  have "unat (nb_operation (w_shm s)) = nb_enabled (operations (w_shm s))"
    using assms(1) by (simp add: sys_inv_def as_sys_def shm_inv_def)
  moreover have "p \<in> set (filter slot_enabled (operations (w_shm s)))" using assms(2,3) by simp
  then have "0 < nb_enabled (operations (w_shm s))" unfolding nb_enabled_def by (metis length_pos_if_in_set)
  ultimately show ?thesis by auto
qed

text \<open>The state in which the event loop begins.\<close>

definition loop_start :: "monitor \<Rightarrow> int \<Rightarrow> wootftpd_shared_data \<Rightarrow> wsys" where
  "loop_start mon pid m = \<lparr>w_mon = mon, w_pid = pid, w_shm = m, starting = [], started = []\<rparr>"

lemma gui_initialize_ok:
  "gui_initialize env d k m = (0, d1, k1, m1) \<Longrightarrow> m1 = gui_reset (genv_pid env) m"
  by (auto simp: gui_initialize_def Let_def split: if_splits)

lemma app_start_inv:
  assumes "app_start parser q screens env argv new_application k m = Some (0, mon, d, k1, m1)"
  shows "wake_inv (loop_start mon (genv_pid env) m1)"
proof -
  have "widget_inv widget_start" by (simp add: widget_inv_def widget_start_def)
  then show ?thesis using assms
    by (auto simp: app_start_def new_data_def set_force_boot_def Let_def wake_inv_def loop_start_def new_application_def gui_reset_def
        dest!: gui_initialize_ok split: option.splits prod.splits)
qed

lemma app_start_sys_inv:
  assumes "app_start parser q screens env argv new_application k m = Some (0, mon, d, k1, m1)"
    and "length (operations m) = WOOTFTPD_MAX_NBOP"
  shows "sys_inv (as_sys (loop_start mon (genv_pid env) m1))"
proof -
  have "m1 = gui_reset (genv_pid env) m \<and> mon_gui mon = gui_start"
    using assms(1) by (auto simp: app_start_def Let_def dest!: gui_initialize_ok split: option.splits prod.splits)
  then have "as_sys (loop_start mon (genv_pid env) m1) = sys_start (genv_pid env) m"
    by (simp add: as_sys_def loop_start_def sys_start_def)
  then show ?thesis using sys_start_inv [OF assms(2)] by simp
qed

text \<open>What is on the screen: a visible window with the contents of the segment.\<close>

definition on_screen :: "wsys \<Rightarrow> bool" where
  "on_screen s = (mon_visible (w_mon s) \<and> (\<forall>x < WOOTFTPD_MAX_NBOP. m_items (mon_widget (w_mon s)) ! x =
     (if slot_enabled (operations (w_shm s) ! x) then Some (shown (operations (w_shm s) ! x)) else None)))"

lemma wake_shows:
  assumes "wake_inv s" and "mon_phase (w_mon s) = Asleep" and "mon_pending (w_mon s)"
  shows "\<exists>s'. any_step s s' \<and> on_screen s'"
proof -
  let ?s = "s\<lparr>w_mon := timer_wake (w_mon s) (w_shm s)\<rparr>"
  have "widget_inv (mon_widget (w_mon s))" using assms(1) by (simp add: wake_inv_def)
  then have "on_screen ?s" using update_view_items by (simp add: on_screen_def timer_wake_def wake_up_def Let_def)
  then show ?thesis using wake_step.wake [OF assms(2, 3)] unfolding any_step_def by blast
qed

lemma notify_pends:
  assumes "wake_inv s" and "starting s \<noteq> []"
  shows "\<exists>s'. any_step s s' \<and> wake_inv s' \<and> mon_phase (w_mon s') = mon_phase (w_mon s) \<and> mon_pending (w_mon s')"
proof -
  obtain w where w: "w \<in> set (starting s)" using assms(2) by (cases "starting s") auto
  then have "woo_wake_up_gui w (w_shm s) = (0, w\<lparr>signals := signals w @ [client_pid (w_shm s)]\<rparr>)"
    using assms(1) by (simp add: wake_inv_def woo_wake_up_gui_def)
  note n = wake_step.notify [OF w this]
  show ?thesis using n wake_step_inv [OF n assms(1)] assms(1) unfolding any_step_def
    by (intro exI conjI) (assumption, assumption, simp_all add: wake_inv_def usr1_def)
qed

text \<open>
  C11. No wake-up is lost as long as the counter is right. However monitor and server processes
  interleave, from the moment the event loop begins: if the monitor sleeps and the counter of
  the segment is not 0, then the signal is pending or a process that took a slot is about to send
  it; and within two steps, that signal and the return from \<open>sigwait\<close>, the window is visible and
  shows the segment. If in addition no tick so far timed out the operation of a process that
  still runs, the same holds whenever some slot of the table is in use. (After such a time-out the
  counter can be 0 with an operation in the table, see \<open>counter_underflow\<close>, and then the monitor
  sleeps on.) A server process does not die between taking a slot and signalling, and the
  signal goes to the thread that waits for it.
\<close>

theorem monitor_wakes:
  assumes "app_start parser q screens env argv new_application k m = Some (0, mon, d, k1, m1)"
    and "length (operations m) = WOOTFTPD_MAX_NBOP" and "s0 = loop_start mon (genv_pid env) m1"
    and "any_step\<^sup>*\<^sup>* s0 s" and "mon_phase (w_mon s) = Asleep"
    and "nb_operation (w_shm s) \<noteq> 0 \<or>
         (wake_step False)\<^sup>*\<^sup>* s0 s \<and> (\<exists>p \<in> set (operations (w_shm s)). slot_enabled p)"
  shows "(mon_pending (w_mon s) \<or> starting s \<noteq> []) \<and>
    (\<exists>s1 s2. (s1 = s \<or> any_step s s1) \<and> any_step s1 s2 \<and> on_screen s2)"
proof -
  have inv: "wake_inv s" using wake_reach_inv [OF assms(4)] app_start_inv [OF assms(1)] assms(3) by simp
  have "nb_operation (w_shm s) \<noteq> 0"
    using assms(3,6) quiet_reach_sys_inv [OF _ app_start_sys_inv [OF assms(1,2)]] sys_inv_counts by blast
  then have p: "mon_pending (w_mon s) \<or> starting s \<noteq> []" using inv assms(5) by (simp add: wake_inv_def)
  show ?thesis
  proof (cases "mon_pending (w_mon s)")
    case True
    then show ?thesis using wake_shows [OF inv assms(5)] by blast
  next
    case False
    then obtain s1 where s1: "any_step s s1" "wake_inv s1" "mon_phase (w_mon s1) = Asleep" "mon_pending (w_mon s1)"
      using p notify_pends [OF inv] assms(5) by auto
    then show ?thesis using p wake_shows [OF s1(2-4)] by blast
  qed
qed

definition ex_gui_env :: gui_env where
  "ex_gui_env = \<lparr>genv_sem = True, genv_shm = True, genv_trunc = True, genv_mmap = True, genv_pid = 77\<rparr>"

lemma ex_app_start:
  "\<exists>mon d k1. app_start (\<lambda>_. Some False) \<lparr>q_int = \<lambda>_. None, q_point = \<lambda>_. None\<rparr> [] ex_gui_env [] new_application
     \<lparr>sem_name = False, shm_name = False\<rparr> ex_shm = Some (0, mon, d, k1, gui_reset 77 ex_shm) \<and> mon_phase mon = Awake"
  by (simp add: app_start_def new_data_def set_force_boot_def gui_initialize_def ex_gui_env_def Let_def new_application_def)

lemma ex_first_alloc:
  "\<exists>w' m'. woo_alloc_operation ex_woo (gui_reset 77 ex_shm) = (0, w', m') \<and> (\<exists>p \<in> set (operations m'). slot_enabled p)"
proof -
  have "fst (woo_alloc_operation ex_woo (gui_reset 77 ex_shm)) = 0"
    "list_ex slot_enabled (operations (snd (snd (woo_alloc_operation ex_woo (gui_reset 77 ex_shm)))))"
    by code_simp+
  then show ?thesis by (metis list_ex_iff prod.collapse)
qed

theorem monitor_wakes_witness:
  "\<exists>s s1 s2. mon_phase (w_mon s) = Asleep \<and> (\<exists>p \<in> set (operations (w_shm s)). slot_enabled p) \<and>
     (s1 = s \<or> any_step s s1) \<and> any_step s1 s2 \<and> on_screen s2"
proof -
  let ?m = "gui_reset 77 ex_shm"
  obtain mon d k1 where st: "app_start (\<lambda>_. Some False) \<lparr>q_int = \<lambda>_. None, q_point = \<lambda>_. None\<rparr> [] ex_gui_env [] new_application
     \<lparr>sem_name = False, shm_name = False\<rparr> ex_shm = Some (0, mon, d, k1, ?m)" "mon_phase mon = Awake" using ex_app_start by blast
  obtain w' m' where al: "woo_alloc_operation ex_woo ?m = (0, w', m')" "\<exists>p \<in> set (operations m'). slot_enabled p"
    using ex_first_alloc by blast
  let ?s0 = "loop_start mon (genv_pid ex_gui_env) ?m"
  let ?s1 = "?s0\<lparr>w_mon := hide_and_sleep mon, w_shm := ?m\<rparr>"
  let ?s2 = "?s1\<lparr>w_shm := m', starting := w' # starting ?s1\<rparr>"
  have "timer_tick 0 (w_mon ?s0) (w_shm ?s0) = (hide_and_sleep mon, ?m)" and l: "live_tick 0 ?s0 = False"
    by (simp_all add: timer_tick_def live_tick_def loop_start_def gui_reset_def)
  then have a: "wake_step False ?s0 ?s1"
    using wake_step.tick [of ?s0 0 "hide_and_sleep mon" ?m] st(2) unfolding l by (simp add: loop_start_def)
  have b: "wake_step False ?s1 ?s2" by (rule wake_step.alloc) (use al in \<open>simp_all add: loop_start_def ex_woo_def\<close>)
  have r: "(wake_step False)\<^sup>*\<^sup>* ?s0 ?s2"
    by (rule rtranclp.rtrancl_into_rtrancl [OF r_into_rtranclp [of "wake_step False", OF a] b])
  have ab: "any_step ?s0 ?s1" "any_step ?s1 ?s2" unfolding any_step_def using a b by blast+
  have any: "any_step\<^sup>*\<^sup>* ?s0 ?s2"
    by (rule rtranclp.rtrancl_into_rtrancl [OF r_into_rtranclp [of any_step, OF ab(1)] ab(2)])
  have ph: "mon_phase (w_mon ?s2) = Asleep" "\<exists>p \<in> set (operations (w_shm ?s2)). slot_enabled p"
    using al(2) by (simp_all add: hide_and_sleep_def)
  have len: "length (operations ex_shm) = WOOTFTPD_MAX_NBOP" by (simp add: ex_shm_def)
  from monitor_wakes [OF st(1) len refl any ph(1)] r ph show ?thesis by blast
qed

text \<open>A fork that fails ends the program with status 0 and without a monitor.\<close>

lemma gui_main_fork_fails: "gui_main Fork_fails pid_1 run = Inl 0" "gui_main (In_child n) Fork_fails run = Inl 0"
  by (simp_all add: gui_main_def)

end
