(* ===== verification/Table.thy ===== *)
theory Table
  imports WooGui
begin

text \<open>
  What server processes and monitor do to the shared segment, without its representation: a table of
  slots that are free, running or ended, and the slots that running processes own. Every
  operation is one step. \<open>table_impl\<close> is the contract of a system that refines the table; the
  interleaving of \<open>WooGui\<close>, in which a call is one step, keeps it, and so does the one of \<open>Lock\<close>, in which
  every memory access is.
\<close>

subsection \<open>The table\<close>

datatype slot_state = Free | Running | Ended

record table =
  tb_slot :: "nat \<Rightarrow> slot_state"
  tb_owned :: "nat set"

inductive table_step :: "table \<Rightarrow> table \<Rightarrow> bool" where
  take: "x < WOOTFTPD_MAX_NBOP \<Longrightarrow> tb_slot t x = Free \<Longrightarrow> \<forall>y < x. tb_slot t y \<noteq> Free \<Longrightarrow>
    table_step t \<lparr>tb_slot = (tb_slot t)(x := Running), tb_owned = insert x (tb_owned t)\<rparr>"
| finish: "x \<in> tb_owned t \<Longrightarrow> table_step t \<lparr>tb_slot = (tb_slot t)(x := Ended), tb_owned = tb_owned t - {x}\<rparr>"
| die: "x \<in> tb_owned t \<Longrightarrow> table_step t \<lparr>tb_slot = tb_slot t, tb_owned = tb_owned t - {x}\<rparr>"
| time_out: "x \<notin> tb_owned t \<Longrightarrow> tb_slot t x = Running \<Longrightarrow> table_step t \<lparr>tb_slot = (tb_slot t)(x := Ended), tb_owned = tb_owned t\<rparr>"
| remove: "x \<notin> tb_owned t \<Longrightarrow> tb_slot t x = Ended \<Longrightarrow> table_step t \<lparr>tb_slot = (tb_slot t)(x := Free), tb_owned = tb_owned t\<rparr>"

definition empty_table :: table where
  "empty_table = \<lparr>tb_slot = \<lambda>_. Free, tb_owned = {}\<rparr>"

text \<open>A slot that is owned is running and there are five slots; every step keeps this.\<close>

definition table_ok :: "table \<Rightarrow> bool" where
  "table_ok t = ((\<forall>x \<in> tb_owned t. tb_slot t x = Running) \<and> (\<forall>x \<ge> WOOTFTPD_MAX_NBOP. tb_slot t x = Free))"

lemma table_step_ok: "table_step t u \<Longrightarrow> table_ok t \<Longrightarrow> table_ok u"
  by (cases rule: table_step.cases) (auto simp: table_ok_def, metis slot_state.simps)

lemma table_run_ok: "table_step\<^sup>*\<^sup>* t u \<Longrightarrow> table_ok t \<Longrightarrow> table_ok u"
  by (induction rule: rtranclp_induct) (auto intro: table_step_ok)

text \<open>At most five operations run at the same time.\<close>

lemma table_ok_owned: "table_ok t \<Longrightarrow> tb_owned t \<subseteq> {..< WOOTFTPD_MAX_NBOP}"
  by (force simp: table_ok_def simp flip: not_le)

lemma table_ok_card: "table_ok t \<Longrightarrow> card (tb_owned t) \<le> WOOTFTPD_MAX_NBOP"
  using card_mono [OF finite_lessThan table_ok_owned] by simp

text \<open>An owned slot is left alone by everybody else: it is running until its owner gives it up.\<close>

lemma table_owner_keeps:
  assumes "table_step\<^sup>*\<^sup>* t u" and "table_ok t" and "x \<in> tb_owned t" and "x \<in> tb_owned u"
  shows "tb_slot u x = Running"
  using table_run_ok [OF assms(1, 2)] assms(4) by (simp add: table_ok_def)

subsection \<open>The contract\<close>

locale table_impl =
  fixes step :: "'s \<Rightarrow> 's \<Rightarrow> bool" and inv :: "'s \<Rightarrow> bool" and tab :: "'s \<Rightarrow> table"
  assumes inv_step: "inv s \<Longrightarrow> step s t \<Longrightarrow> inv t"
    and inv_tab: "inv s \<Longrightarrow> table_ok (tab s)"
    and simulates: "inv s \<Longrightarrow> step s t \<Longrightarrow> table_step\<^sup>*\<^sup>* (tab s) (tab t)"
begin

lemma run_inv: "step\<^sup>*\<^sup>* s t \<Longrightarrow> inv s \<Longrightarrow> inv t"
  by (induction rule: rtranclp_induct) (auto intro: inv_step)

lemma run_simulates: "step\<^sup>*\<^sup>* s t \<Longrightarrow> inv s \<Longrightarrow> table_step\<^sup>*\<^sup>* (tab s) (tab t)"
proof (induction rule: rtranclp_induct)
  case (step t u)
  then show ?case using simulates [OF run_inv [OF step.hyps(1)]] by (auto intro: rtranclp_trans)
qed simp

lemma at_most_five: "step\<^sup>*\<^sup>* s t \<Longrightarrow> inv s \<Longrightarrow> card (tb_owned (tab t)) \<le> WOOTFTPD_MAX_NBOP"
  by (rule table_ok_card [OF inv_tab [OF run_inv]])

end

subsection \<open>Calls as steps\<close>

text \<open>What the flags of a slot mean.\<close>

definition slot_state :: "u8 \<Rightarrow> slot_state" where
  "slot_state fl = (if \<not> bit fl 0 then Free else if bit fl 1 then Ended else Running)"

lemma slot_state_iff:
  "slot_state fl = Free \<longleftrightarrow> \<not> bit fl 0" "slot_state fl = Running \<longleftrightarrow> bit fl 0 \<and> \<not> bit fl 1"
  "slot_state fl = Ended \<longleftrightarrow> bit fl 0 \<and> bit fl 1"
  by (simp_all add: slot_state_def)

definition slots_of :: "(nat \<Rightarrow> u8) \<Rightarrow> nat \<Rightarrow> slot_state" where
  "slots_of fl x = (if x < WOOTFTPD_MAX_NBOP then slot_state (fl x) else Free)"

lemma slots_of_cong: "(\<And>x k. x < WOOTFTPD_MAX_NBOP \<Longrightarrow> k < 2 \<Longrightarrow> bit (fl' x) k = bit (fl x) k) \<Longrightarrow> slots_of fl' = slots_of fl"
  by (auto simp: slots_of_def slot_state_def fun_eq_iff)

lemma slots_of_change:
  assumes "x < WOOTFTPD_MAX_NBOP" and "\<And>y. y \<noteq> x \<Longrightarrow> y < WOOTFTPD_MAX_NBOP \<Longrightarrow> fl' y = fl y"
  shows "slots_of fl' = (slots_of fl)(x := slot_state (fl' x))"
  using assms by (auto simp: slots_of_def fun_eq_iff)

definition sys_table :: "sys \<Rightarrow> table" where
  "sys_table s = \<lparr>tb_slot = slots_of (flags_at (s_shm s)), tb_owned = (\<lambda>w. nat (opid w)) ` set (procs s)\<rparr>"

lemma sys_table_start: "length (operations m) = WOOTFTPD_MAX_NBOP \<Longrightarrow> sys_table (sys_start pid m) = empty_table"
  by (auto simp: sys_table_def sys_start_def empty_table_def gui_reset_def slots_of_def slot_state_iff flags_at_def
    WOOTFTPD_RESET_def fun_eq_iff)

lemma sys_table_ok: "sys_inv s \<Longrightarrow> table_ok (sys_table s)"
  by (auto simp: table_ok_def sys_table_def slots_of_def slot_state_iff sys_inv_def owns_def split: if_splits)

lemma owned_remove:
  assumes "sys_inv s" and "w \<in> set (procs s)"
  shows "(\<lambda>v. nat (opid v)) ` set (remove1 w (procs s)) = (\<lambda>v. nat (opid v)) ` set (procs s) - {nat (opid w)}"
proof -
  have "distinct (procs s)" "inj_on (\<lambda>v. nat (opid v)) (set (procs s))"
    using assms(1) by (auto simp: sys_inv_def distinct_map inj_on_def owns_def eq_nat_nat_iff)
  then show ?thesis using assms(2) by (auto simp: inj_on_def)
qed

lemma start_simulates:
  assumes inv: "sys_inv s" and en: "enable w \<noteq> 0" and r: "woo_alloc_operation w (s_shm s) = (0, w', m')"
  shows "table_step (sys_table s) (sys_table (s\<lparr>s_shm := m', procs := w' # procs s\<rparr>))"
proof -
  let ?m = "s_shm s"
  have sm: "shm_inv ?m" using inv by (simp add: sys_inv_def)
  obtain x where x: "free_slot (operations ?m) = Some x" and w': "w' = w\<lparr>opid := int x\<rparr>"
    and m': "m' = ?m\<lparr>nb_operation := nb_operation ?m + 1, operations := (operations ?m)[x := reset_slot (operations ?m ! x)]\<rparr>"
    using woo_alloc_operation_split [OF sm en r] by auto
  have xl: "x < WOOTFTPD_MAX_NBOP" "\<not> bit (flags_at ?m x) 0" "\<forall>y < x. bit (flags_at ?m y) 0"
    using free_slot_Some [OF x] by (simp_all add: flags_at_def slot_enabled_bit)
  have fl: "flags_at m' y = (if y = x then WOOTFTPD_ENABLE else flags_at ?m y)" if "y < WOOTFTPD_MAX_NBOP" for y
    using that xl(1) sm by (simp add: m' flags_at_def reset_slot_def nth_list_update shm_inv_def woo_flag_defs)
  have "slot_state WOOTFTPD_ENABLE = Running" by (simp add: slot_state_iff woo_flag_defs)
  then have "slots_of (flags_at m') = (slots_of (flags_at ?m))(x := Running)"
    using slots_of_change [OF xl(1), of "flags_at m'" "flags_at ?m"] fl xl(1) by simp
  moreover have "tb_slot (sys_table s) x = Free" "\<forall>y < x. tb_slot (sys_table s) y \<noteq> Free"
    using xl by (auto simp: sys_table_def slots_of_def slot_state_iff)
  ultimately show ?thesis using table_step.take [OF xl(1), of "sys_table s"] by (simp add: sys_table_def w')
qed

lemma quiet_simulates:
  assumes "sys_inv s" and "w \<in> set (procs s)" and h: "\<And>p k. k < 2 \<Longrightarrow> bit (oflags (h p)) k = bit (oflags p) k"
  shows "sys_table (s\<lparr>s_shm := upd_slot w h (s_shm s)\<rparr>) = sys_table s"
proof -
  have ok: "shm_inv (s_shm s)" "owns w (s_shm s)" using assms by (auto simp: sys_inv_def)
  have "slots_of (flags_at (upd_slot w h (s_shm s))) = slots_of (flags_at (s_shm s))"
    using h unfolding flags_at_upd [OF ok] by (intro slots_of_cong) (auto simp: flags_at_upd [OF ok] flags_at_def [of _ "nat _"] my_slot_def)
  then show ?thesis by (simp add: sys_table_def)
qed

lemma finish_simulates:
  assumes inv: "sys_inv s" and w: "w \<in> set (procs s)"
  shows "table_step (sys_table s) (sys_table (s\<lparr>s_shm := snd (woo_end_operation w (s_shm s)), procs := remove1 w (procs s)\<rparr>))"
proof -
  let ?m = "s_shm s" and ?x = "nat (opid w)"
  have sm: "shm_inv ?m" and ow: "owns w ?m" using inv w by (auto simp: sys_inv_def)
  have m': "snd (woo_end_operation w ?m) = upd_slot w end_slot ?m" using ow by (simp add: woo_end_operation_def owns_def)
  have fl: "flags_at (upd_slot w end_slot ?m) y = (if y = ?x then flags_at ?m y OR WOOTFTPD_END else flags_at ?m y)" for y
    using flags_at_upd [OF sm ow, of end_slot y] by (auto simp: flags_at_def my_slot_def end_slot_def Let_def)
  have x: "?x < WOOTFTPD_MAX_NBOP" "slot_state (flags_at ?m ?x OR WOOTFTPD_END) = Ended"
    using ow by (auto simp: owns_def slot_state_iff bit_or_iff flag_bit_tests simp del: One_nat_def)
  then have "slots_of (flags_at (upd_slot w end_slot ?m)) = (slots_of (flags_at ?m))(?x := Ended)"
    using slots_of_change [OF x(1), of "flags_at (upd_slot w end_slot ?m)" "flags_at ?m"] fl by simp
  then show ?thesis using table_step.finish [of ?x "sys_table s"] w owned_remove [OF inv w] by (simp add: sys_table_def m')
qed

lemma die_simulates:
  "sys_inv s \<Longrightarrow> w \<in> set (procs s) \<Longrightarrow> table_step (sys_table s) (sys_table (s\<lparr>procs := remove1 w (procs s)\<rparr>))"
  using table_step.die [of "nat (opid w)" "sys_table s"] owned_remove [of s w] by (simp add: sys_table_def)

text \<open>
  A visit of the monitor: it may declare a slot timed out and, at another time or, with a negative
  display time, in the same visit, remove it.
\<close>

definition watch_table :: "nat set \<Rightarrow> wootftpd_shared_data \<Rightarrow> table" where
  "watch_table spare m = \<lparr>tb_slot = slots_of (flags_at m), tb_owned = spare\<rparr>"

lemma watch_progress_simulates:
  assumes ok: "visit_ok spare g m" and x: "x < WOOTFTPD_MAX_NBOP" and nk: "\<not> (times_out now x g m \<and> x \<in> spare)"
    and r: "watch_progress now x g m = (g', m')"
  shows "table_step\<^sup>*\<^sup>* (watch_table spare m) (watch_table spare m')"
proof (cases "times_out now x g m")
  case True
  let ?p = "operations m ! x"
  let ?fl = "(oflags ?p OR WOOTFTPD_END) OR WOOTFTPD_TIMEOUT"
  have len: "x < length (operations m)" using ok x by (simp add: visit_ok_def shm_inv_def)
  have m': "m' = m\<lparr>operations := (operations m)[x := ?p\<lparr>oflags := ?fl\<rparr>]\<rparr>"
    using r True by (auto simp: watch_progress_def times_out_def Let_def split: prod.splits)
  have on: "bit (oflags ?p) 0" "\<not> bit (oflags ?p) 1"
    using True by (auto simp: times_out_def watched_def Let_def simp del: One_nat_def split: prod.splits)
  then have "slot_state ?fl = Ended" by (simp add: slot_state_iff bit_or_iff flag_bit_tests del: One_nat_def)
  then have "slots_of (flags_at m') = (slots_of (flags_at m))(x := Ended)"
    using slots_of_change [OF x, of "flags_at m'" "flags_at m"] flags_at_set(1) [OF len, of ?fl] by (simp add: m')
  moreover have "slots_of (flags_at m) x = Running" using on x by (simp add: slots_of_def slot_state_iff flags_at_def)
  ultimately show ?thesis using table_step.time_out [of x "watch_table spare m"] nk True by (auto simp: watch_table_def)
next
  case False
  then have "m' = m" using r by (auto simp: watch_progress_def times_out_def Let_def split: prod.splits if_splits)
  then show ?thesis by simp
qed

lemma expire_simulates:
  assumes ok: "visit_ok spare g m" and x: "x < WOOTFTPD_MAX_NBOP" and r: "expire now x g m = (g', m')"
  shows "table_step\<^sup>*\<^sup>* (watch_table spare m) (watch_table spare m')"
proof (cases "end_array g ! x \<noteq> 0 \<and> end_array g ! x < now")
  case True
  have len: "x < length (operations m)" using ok x by (simp add: visit_ok_def shm_inv_def)
  have m': "m' = m\<lparr>nb_operation := nb_operation m - 1, operations := (operations m)[x := (operations m ! x)\<lparr>oflags := WOOTFTPD_RESET\<rparr>]\<rparr>"
    using r True by (auto simp: expire_def)
  have on: "bit (flags_at m x) 1" "bit (flags_at m x) 0" using ok x True by (auto simp: visit_ok_def slots_ok_def)
  have "slot_state WOOTFTPD_RESET = Free" by (simp add: slot_state_iff flag_bit_tests)
  then have "slots_of (flags_at m') = (slots_of (flags_at m))(x := Free)"
    using slots_of_change [OF x, of "flags_at m'" "flags_at m"] flags_at_set(2) [OF len, where n = "nb_operation m - 1" and fl = WOOTFTPD_RESET] by (simp add: m')
  moreover have "slots_of (flags_at m) x = Ended" using on x by (simp add: slots_of_def slot_state_iff)
  moreover have "x \<notin> spare" using ok on by (auto simp: visit_ok_def)
  ultimately show ?thesis using table_step.remove [of x "watch_table spare m"] by (auto simp: watch_table_def)
next
  case False
  then show ?thesis using r by (auto simp: expire_def)
qed

lemma visit_simulates:
  assumes inv: "sys_inv s" and x: "x < WOOTFTPD_MAX_NBOP" and nk: "\<not> live_kill now x s"
    and r: "monitor_slot now et x (s_gui s, s_shm s) = (g', m')"
  shows "table_step\<^sup>*\<^sup>* (sys_table s) (sys_table (s\<lparr>s_gui := g', s_shm := m'\<rparr>))"
proof -
  define spare where "spare = (\<lambda>w. nat (opid w)) ` set (procs s)"
  have ok: "visit_ok spare (s_gui s) (s_shm s)" using inv by (auto simp: visit_ok_def sys_inv_def owns_def spare_def)
  obtain g1 m1 where p: "watch_progress now x (s_gui s) (s_shm s) = (g1, m1)" by force
  have nk': "\<not> (times_out now x (s_gui s) (s_shm s) \<and> x \<in> spare)" using nk by (auto simp: live_kill_def spare_def)
  note ok1 = watch_end_ok [OF watch_progress_ok [OF ok x nk' p] x]
  have e: "expire now x (watch_end now et x g1 m1) m1 = (g', m')" using r p by (simp add: monitor_slot_def)
  have "table_step\<^sup>*\<^sup>* (watch_table spare (s_shm s)) (watch_table spare m')"
    using watch_progress_simulates [OF ok x nk' p] expire_simulates [OF ok1 x e] by (rule rtranclp_trans)
  then show ?thesis by (simp add: sys_table_def watch_table_def spare_def)
qed

interpretation calls: table_impl "sys_step et" sys_inv sys_table
proof
  fix s t
  assume inv: "sys_inv s" and st: "sys_step et s t"
  then show "sys_inv t" by (rule sys_step_inv [rotated])
  show "table_step\<^sup>*\<^sup>* (sys_table s) (sys_table t)"
    by (rule sys_step_kinds [OF st inv])
      (use inv start_simulates quiet_simulates finish_simulates die_simulates visit_simulates in \<open>simp_all add: r_into_rtranclp\<close>)
qed (rule sys_table_ok)

end
