(* ===== verification/Lock.thy ===== *)
theory Lock
  imports Table
begin

text \<open>
  The semaphore of the shared segment. Server processes take a slot and the monitor removes one
  between \<open>sem_wait\<close> and \<open>sem_post\<close>; elsewhere the slot allocation and the removal are single
  steps. Here they are sequences of memory accesses, every one a step, and any number of processes
  interleave. \<open>nb_operation++\<close>, \<open>nb_operation--\<close> and \<open>oflags |= ...\<close> are a read and a write. The
  fields of a slot other than its flags, which only its owner writes, are left out, except the block
  counter that allocation resets. Nobody looks at the result of \<open>sem_wait\<close>, so an interrupted call
  goes on without the lock; the monitor times out slots whether their owner is running or not; a
  process may die anywhere. These are events of the model, and the properties say which they exclude.
\<close>

unbundle bit_operations_syntax

subsection \<open>The accesses\<close>

record shmem =
  sem :: nat
  nb :: u8
  fl :: "u8 list"
  blk :: "u32 list"

text \<open>\<open>woo_alloc_operation\<close>: where a process is, with its local values, and its result at the end.\<close>

datatype apc = A_wait | A_test | A_scan nat | A_load nat | A_store nat u8 | A_reset nat | A_read nat
  | A_enable nat u8 | A_block nat | A_post int "nat option" | A_done int "nat option" | A_set nat u8 u8 | A_fin nat u8 | A_gone

abbreviation enabled :: "u8 \<Rightarrow> bool" where
  "enabled f \<equiv> WOOTFTPD_CHECK_FLAG f WOOTFTPD_ENABLE"

fun alloc_step :: "apc \<Rightarrow> shmem \<Rightarrow> (apc \<times> shmem) option" where
  "alloc_step A_wait s = (if sem s = 0 then None else Some (A_test, s\<lparr>sem := sem s - 1\<rparr>))"
| "alloc_step A_test s = Some (if of_nat WOOTFTPD_MAX_NBOP \<le> nb s then A_post 20 None else A_scan 0, s)"
| "alloc_step (A_scan x) s =
     Some (if x < WOOTFTPD_MAX_NBOP then (if \<not> enabled (fl s ! x) then A_load x else A_scan (Suc x)) else A_post 30 None, s)"
| "alloc_step (A_load x) s = Some (A_store x (nb s), s)"
| "alloc_step (A_store x v) s = Some (A_reset x, s\<lparr>nb := v + 1\<rparr>)"
| "alloc_step (A_reset x) s = Some (A_read x, s\<lparr>fl := (fl s)[x := WOOTFTPD_RESET]\<rparr>)"
| "alloc_step (A_read x) s = Some (A_enable x (fl s ! x), s)"
| "alloc_step (A_enable x v) s = Some (A_block x, s\<lparr>fl := (fl s)[x := v OR WOOTFTPD_ENABLE]\<rparr>)"
| "alloc_step (A_block x) s = Some (A_post 0 (Some x), s\<lparr>blk := (blk s)[x := 0]\<rparr>)"
| "alloc_step (A_post rv r) s = Some (A_done rv r, s\<lparr>sem := sem s + 1\<rparr>)"
| "alloc_step (A_done rv r) s = None"
| "alloc_step (A_set x f v) s = None"
| "alloc_step (A_fin x v) s = None"
| "alloc_step A_gone s = None"

text \<open>\<open>monitor_operations\<close>: slot \<open>x\<close> is removed, or timed out.\<close>

datatype rpc = R_idle | R_wait nat | R_reset nat | R_load nat | R_store nat u8 | R_post nat
  | R_mark nat | R_end nat u8 | R_again nat | R_tmo nat u8

fun remove_step :: "rpc \<Rightarrow> shmem \<Rightarrow> (rpc \<times> shmem) option" where
  "remove_step R_idle s = None"
| "remove_step (R_wait x) s = (if sem s = 0 then None else Some (R_reset x, s\<lparr>sem := sem s - 1\<rparr>))"
| "remove_step (R_reset x) s = Some (R_load x, s\<lparr>fl := (fl s)[x := WOOTFTPD_RESET]\<rparr>)"
| "remove_step (R_load x) s = Some (R_store x (nb s), s)"
| "remove_step (R_store x v) s = Some (R_post x, s\<lparr>nb := v - 1\<rparr>)"
| "remove_step (R_post x) s = Some (R_idle, s\<lparr>sem := sem s + 1\<rparr>)"
| "remove_step _ s = None"

fun mark_step :: "rpc \<Rightarrow> shmem \<Rightarrow> (rpc \<times> shmem) option" where
  "mark_step (R_mark x) s = Some (R_end x (fl s ! x), s)"
| "mark_step (R_end x v) s = Some (R_again x, s\<lparr>fl := (fl s)[x := v OR WOOTFTPD_END]\<rparr>)"
| "mark_step (R_again x) s = Some (R_tmo x (fl s ! x), s)"
| "mark_step (R_tmo x v) s = Some (R_idle, s\<lparr>fl := (fl s)[x := v OR WOOTFTPD_TIMEOUT]\<rparr>)"
| "mark_step _ s = None"

text \<open>
  The processes, the monitor and the memory. A process that has a slot sets flags in it, without
  the lock, marks it as ended and leaves. The monitor looks at a slot, times it out without the lock,
  notes when a slot that is marked as ended is to be removed (\<open>dated\<close>, its \<open>m_end_array\<close>; the entry is
  cleared during the removal), and removes it.
\<close>

fun taken :: "apc \<Rightarrow> nat option" where
  "taken (A_block x) = Some x" | "taken (A_post rv r) = r" | "taken (A_done rv r) = r"
| "taken (A_set x f v) = Some x" | "taken (A_fin x v) = Some x" | "taken _ = None"

text \<open>Between \<open>sem_wait\<close> and \<open>sem_post\<close>.\<close>

fun in_crit :: "apc \<Rightarrow> bool" where
  "in_crit A_wait = False" | "in_crit (A_done rv r) = False" | "in_crit (A_set x f v) = False"
| "in_crit (A_fin x v) = False" | "in_crit A_gone = False" | "in_crit _ = True"

fun in_remove :: "rpc \<Rightarrow> bool" where
  "in_remove (R_reset x) = True" | "in_remove (R_load x) = True" | "in_remove (R_store x v) = True"
| "in_remove (R_post x) = True" | "in_remove _ = False"

record lsys =
  mem :: shmem
  alloc_pc :: "nat \<Rightarrow> apc"
  remove_pc :: rpc
  dated :: "nat set"

text \<open>
  The events: a plain access; a \<open>sem_wait\<close> that is interrupted by a signal handler; the death of a
  process that has the lock; and an access that marks the slot of a running process as timed out.
\<close>

datatype lock_event = Plain | Interrupted | Crashed | Live_timeout

definition has_owner :: "lsys \<Rightarrow> nat \<Rightarrow> bool" where
  "has_owner s x = (\<exists>i. taken (alloc_pc s i) = Some x)"

definition mark_event :: "lsys \<Rightarrow> lock_event" where
  "mark_event s =
     (case remove_pc s of
        R_end x v \<Rightarrow> if has_owner s x then Live_timeout else Plain
      | R_tmo x v \<Rightarrow> if has_owner s x then Live_timeout else Plain
      | _ \<Rightarrow> Plain)"

definition cleared :: "rpc \<Rightarrow> nat set" where
  "cleared pc = (case pc of R_reset x \<Rightarrow> {x} | _ \<Rightarrow> {})"

inductive lock_step :: "lock_event \<Rightarrow> lsys \<Rightarrow> lsys \<Rightarrow> bool" where
  alloc: "alloc_step (alloc_pc s i) (mem s) = Some (pc, m) \<Longrightarrow>
    lock_step Plain s (s\<lparr>mem := m, alloc_pc := (alloc_pc s)(i := pc)\<rparr>)"
| alloc_interrupted: "alloc_pc s i = A_wait \<Longrightarrow> lock_step Interrupted s (s\<lparr>alloc_pc := (alloc_pc s)(i := A_test)\<rparr>)"
| flag_read: "alloc_pc s i = A_done rv (Some x) \<Longrightarrow> f = WOOTFTPD_UPLOAD \<or> f = WOOTFTPD_DOWNLOAD \<Longrightarrow>
    lock_step Plain s (s\<lparr>alloc_pc := (alloc_pc s)(i := A_set x f (fl (mem s) ! x))\<rparr>)"
| flag_write: "alloc_pc s i = A_set x f v \<Longrightarrow>
    lock_step Plain s (s\<lparr>mem := (mem s)\<lparr>fl := (fl (mem s))[x := v OR f]\<rparr>, alloc_pc := (alloc_pc s)(i := A_done 0 (Some x))\<rparr>)"
| end_read: "alloc_pc s i = A_done rv (Some x) \<Longrightarrow>
    lock_step Plain s (s\<lparr>alloc_pc := (alloc_pc s)(i := A_fin x (fl (mem s) ! x))\<rparr>)"
| end_write: "alloc_pc s i = A_fin x v \<Longrightarrow>
    lock_step Plain s (s\<lparr>mem := (mem s)\<lparr>fl := (fl (mem s))[x := v OR WOOTFTPD_END]\<rparr>, alloc_pc := (alloc_pc s)(i := A_gone)\<rparr>)"
| die: "\<not> in_crit (alloc_pc s i) \<Longrightarrow> lock_step Plain s (s\<lparr>alloc_pc := (alloc_pc s)(i := A_gone)\<rparr>)"
| crash: "in_crit (alloc_pc s i) \<Longrightarrow> lock_step Crashed s (s\<lparr>alloc_pc := (alloc_pc s)(i := A_gone)\<rparr>)"
| watch: "remove_pc s = R_idle \<Longrightarrow> x < WOOTFTPD_MAX_NBOP \<Longrightarrow> enabled (fl (mem s) ! x) \<Longrightarrow>
    \<not> WOOTFTPD_CHECK_FLAG (fl (mem s) ! x) WOOTFTPD_END \<Longrightarrow> \<not> WOOTFTPD_CHECK_FLAG (fl (mem s) ! x) WOOTFTPD_TIMEOUT \<Longrightarrow>
    lock_step Plain s (s\<lparr>remove_pc := R_mark x\<rparr>)"
| mark: "mark_step (remove_pc s) (mem s) = Some (pc, m) \<Longrightarrow> lock_step (mark_event s) s (s\<lparr>mem := m, remove_pc := pc\<rparr>)"
| date: "remove_pc s = R_idle \<Longrightarrow> x < WOOTFTPD_MAX_NBOP \<Longrightarrow> WOOTFTPD_CHECK_FLAG (fl (mem s) ! x) WOOTFTPD_END \<Longrightarrow>
    lock_step Plain s (s\<lparr>dated := insert x (dated s)\<rparr>)"
| expire: "remove_pc s = R_idle \<Longrightarrow> x \<in> dated s \<Longrightarrow> lock_step Plain s (s\<lparr>remove_pc := R_wait x\<rparr>)"
| remove: "remove_step (remove_pc s) (mem s) = Some (pc, m) \<Longrightarrow>
    lock_step Plain s (s\<lparr>mem := m, remove_pc := pc, dated := dated s - cleared (remove_pc s)\<rparr>)"
| remove_interrupted: "remove_pc s = R_wait x \<Longrightarrow> lock_step Interrupted s (s\<lparr>remove_pc := R_reset x\<rparr>)"

text \<open>The runs in which only certain events occur.\<close>

definition lock_run :: "lock_event set \<Rightarrow> lsys \<Rightarrow> lsys \<Rightarrow> bool" where
  "lock_run es = (\<lambda>s t. \<exists>e \<in> es. lock_step e s t)\<^sup>*\<^sup>*"

lemma lock_run_plain: "lock_run {Plain} = (lock_step Plain)\<^sup>*\<^sup>*"
  by (simp add: lock_run_def)

subsection \<open>The accesses in a row\<close>

text \<open>The part of the segment the accesses see, with the semaphore free.\<close>

definition shmem_of :: "wootftpd_shared_data \<Rightarrow> shmem" where
  "shmem_of m = \<lparr>sem = 1, nb = nb_operation m, fl = map oflags (operations m), blk = map op_block (operations m)\<rparr>"

fun alloc_run :: "nat \<Rightarrow> apc \<times> shmem \<Rightarrow> apc \<times> shmem" where
  "alloc_run 0 c = c"
| "alloc_run (Suc n) c = (case alloc_step (fst c) (snd c) of None \<Rightarrow> c | Some c1 \<Rightarrow> alloc_run n c1)"

fun remove_run :: "nat \<Rightarrow> rpc \<times> shmem \<Rightarrow> rpc \<times> shmem" where
  "remove_run 0 c = c"
| "remove_run (Suc n) c = (case remove_step (fst c) (snd c) of None \<Rightarrow> c | Some c1 \<Rightarrow> remove_run n c1)"

lemma alloc_run_add: "alloc_run (a + b) c = alloc_run b (alloc_run a c)"
proof (induction a arbitrary: c)
  case (Suc a)
  have "alloc_run b c = c" if "alloc_step (fst c) (snd c) = None" using that by (cases b) simp_all
  then show ?case using Suc by (auto split: option.splits)
qed simp

text \<open>The scan loop finds the first slot that is not enabled.\<close>

lemma alloc_scan:
  assumes "x + k \<le> WOOTFTPD_MAX_NBOP" and "\<forall>j. x \<le> j \<and> j < x + k \<longrightarrow> enabled (fl s ! j)"
  shows "alloc_run k (A_scan x, s) = (A_scan (x + k), s)"
  using assms
proof (induction k arbitrary: x)
  case (Suc k)
  then have "alloc_step (A_scan x) s = Some (A_scan (Suc x), s)" by simp
  then show ?case using Suc by simp
qed simp

lemma fl_shmem_of: "x < length (operations m) \<Longrightarrow> enabled (fl (shmem_of m) ! x) = slot_enabled (operations m ! x)"
  by (simp add: shmem_of_def slot_enabled_def)

text \<open>Accesses of one process in a row are steps of the system.\<close>

lemma alloc_run_steps:
  "alloc_run n (alloc_pc s i, mem s) = (pc, m) \<Longrightarrow> (lock_step Plain)\<^sup>*\<^sup>* s (s\<lparr>mem := m, alloc_pc := (alloc_pc s)(i := pc)\<rparr>)"
proof (induction n arbitrary: s)
  case (Suc n)
  show ?case
  proof (cases "alloc_step (alloc_pc s i) (mem s)")
    case None
    then have "pc = alloc_pc s i" "m = mem s" using Suc.prems by simp_all
    then show ?thesis by (simp add: fun_upd_triv del: fun_upd_apply)
  next
    case (Some c)
    obtain pc1 m1 where c: "c = (pc1, m1)" by force
    let ?s = "s\<lparr>mem := m1, alloc_pc := (alloc_pc s)(i := pc1)\<rparr>"
    have "alloc_run n (alloc_pc ?s i, mem ?s) = (pc, m)" using Suc.prems Some c by simp
    from converse_rtranclp_into_rtranclp [of "lock_step Plain", OF _ Suc.IH [OF this]] show ?thesis
      using lock_step.alloc [of s i pc1 m1] Some c by (simp del: fun_upd_apply)
  qed
qed (auto simp: fun_upd_idem)

text \<open>Undisturbed, the accesses do what the single steps of the other theories do.\<close>

lemma alloc_run_refines:
  assumes "length (operations m) = WOOTFTPD_MAX_NBOP" and "enable w \<noteq> 0" and "woo_alloc_operation w m = (rv, w', m')"
  shows "\<exists>n. alloc_run n (A_wait, shmem_of m) = (A_done rv (if rv = 0 then Some (nat (opid w')) else None), shmem_of m')"
proof -
  let ?init = "shmem_of m" let ?s = "?init\<lparr>sem := 0\<rparr>"
  have sem: "?s\<lparr>sem := Suc 0\<rparr> = ?init" by (simp add: shmem_of_def)
  have start: "alloc_run 2 (A_wait, ?init) = (if of_nat WOOTFTPD_MAX_NBOP \<le> nb_operation m then A_post 20 None else A_scan 0, ?s)"
    by (simp add: numeral_2_eq_2 shmem_of_def)
  consider (full) "of_nat WOOTFTPD_MAX_NBOP \<le> nb_operation m"
    | (none) "\<not> of_nat WOOTFTPD_MAX_NBOP \<le> nb_operation m" "free_slot (operations m) = None"
    | (free) x where "\<not> of_nat WOOTFTPD_MAX_NBOP \<le> nb_operation m" "free_slot (operations m) = Some x" by fastforce
  then show ?thesis
  proof cases
    case full
    then have "rv = 20" "m' = m" using assms(2, 3) by (simp_all add: woo_alloc_operation_def)
    then show ?thesis using full start sem alloc_run_add [of 2 1 "(A_wait, ?init)"] by (intro exI [of _ 3]) simp
  next
    case none
    then have r: "rv = 30" "m' = m" using assms(2, 3) by (simp_all add: woo_alloc_operation_def)
    have "\<forall>j. 0 \<le> j \<and> j < 0 + 5 \<longrightarrow> enabled (fl ?s ! j)"
      using none(2) assms(1) fl_shmem_of [of _ m] by (auto simp: free_slot_def find_None_iff shmem_of_def slot_enabled_def)
    from alloc_scan [OF _ this] have "alloc_run 5 (A_scan 0, ?s) = (A_scan 5, ?s)" by simp
    moreover have "alloc_run 2 (A_scan 5, ?s) = (A_done 30 None, ?init)" using sem by (simp add: numeral_2_eq_2)
    ultimately have "alloc_run (2 + (5 + 2)) (A_wait, ?init) = (A_done 30 None, ?init)"
      using start none(1) by (simp only: alloc_run_add if_False)
    then show ?thesis unfolding r by (intro exI [of _ "2 + (5 + 2)"]) simp
  next
    case (free x)
    then have r: "rv = 0" "w' = w\<lparr>opid := int x\<rparr>"
      "m' = m\<lparr>nb_operation := nb_operation m + 1, operations := (operations m)[x := reset_slot (operations m ! x)]\<rparr>"
      using assms(2, 3) by (simp_all add: woo_alloc_operation_def)
    have x: "x < WOOTFTPD_MAX_NBOP" "\<not> enabled (fl ?s ! x)" "\<forall>j. 0 \<le> j \<and> j < 0 + x \<longrightarrow> enabled (fl ?s ! j)"
      using free(2) assms(1) by (auto simp: free_slot_def find_Some_iff shmem_of_def slot_enabled_def)
    from alloc_scan [OF _ x(3)] x(1) have sc: "alloc_run x (A_scan 0, ?s) = (A_scan x, ?s)" by simp
    let ?f = "(fl ?s)[x := WOOTFTPD_RESET, x := WOOTFTPD_RESET OR WOOTFTPD_ENABLE]"
    have "shmem_of m' = ?s\<lparr>sem := 1, nb := nb ?s + 1, fl := ?f, blk := (blk ?s)[x := 0]\<rparr>"
      using assms(1) x(1) by (simp add: r(3) shmem_of_def map_update reset_slot_def)
    moreover have "alloc_run 8 (A_scan x, ?s) = (A_done 0 (Some x), ?s\<lparr>sem := 1, nb := nb ?s + 1, fl := ?f, blk := (blk ?s)[x := 0]\<rparr>)"
      using x assms(1) by (simp add: eval_nat_numeral shmem_of_def)
    ultimately have "alloc_run (2 + (x + 8)) (A_wait, ?init) = (A_done 0 (Some x), shmem_of m')"
      using start free(1) sc by (simp only: alloc_run_add if_False)
    then show ?thesis unfolding r(1, 2) by (intro exI [of _ "2 + (x + 8)"]) simp
  qed
qed

lemma remove_run_refines:
  assumes "x < length (operations m)"
    and "m' = m\<lparr>nb_operation := nb_operation m - 1, operations := (operations m)[x := (operations m ! x)\<lparr>oflags := WOOTFTPD_RESET\<rparr>]\<rparr>"
  shows "remove_run 5 (R_wait x, shmem_of m) = (R_idle, shmem_of m')"
proof -
  have "map op_block ((operations m)[x := (operations m ! x)\<lparr>oflags := WOOTFTPD_RESET\<rparr>]) = map op_block (operations m)"
    by (simp add: map_update) (metis list_update_id map_update)
  then show ?thesis by (simp add: eval_nat_numeral shmem_of_def assms(2) map_update)
qed

subsection \<open>The invariant\<close>

definition cnt :: "u8 list \<Rightarrow> nat" where
  "cnt f = length (filter enabled f)"

lemma cnt_update:
  "x < length f \<Longrightarrow> int (cnt (f[x := v])) = int (cnt f) - (if enabled (f ! x) then 1 else 0) + (if enabled v then 1 else 0)"
  unfolding cnt_def by (rule filter_update_count)

lemma cnt_le: "cnt f \<le> length f"
  by (simp add: cnt_def)

text \<open>A slot in use and not yet ended.\<close>

definition in_use :: "shmem \<Rightarrow> nat \<Rightarrow> bool" where
  "in_use m x = (x < WOOTFTPD_MAX_NBOP \<and> bit (fl m ! x) 0 \<and> \<not> bit (fl m ! x) 1)"

text \<open>What holds of the memory when a process is at a given access.\<close>

definition prior_used :: "shmem \<Rightarrow> nat \<Rightarrow> bool" where
  "prior_used m x = (\<forall>j < x. bit (fl m ! j) 0)"

lemma prior_used_same [simp]: "prior_used (m\<lparr>nb := n\<rparr>) x = prior_used m x" "prior_used (m\<lparr>fl := (fl m)[x := v]\<rparr>) x = prior_used m x"
  by (simp_all add: prior_used_def)

fun alloc_ok :: "shmem \<Rightarrow> apc \<Rightarrow> bool" where
  "alloc_ok m A_wait = True"
| "alloc_ok m A_test = (unat (nb m) = cnt (fl m))"
| "alloc_ok m (A_scan x) = (unat (nb m) = cnt (fl m) \<and> unat (nb m) < WOOTFTPD_MAX_NBOP \<and> x \<le> WOOTFTPD_MAX_NBOP \<and> prior_used m x)"
| "alloc_ok m (A_load x) = (unat (nb m) = cnt (fl m) \<and> unat (nb m) < WOOTFTPD_MAX_NBOP \<and> x < WOOTFTPD_MAX_NBOP \<and> \<not> bit (fl m ! x) 0 \<and> prior_used m x)"
| "alloc_ok m (A_store x v) =
     (v = nb m \<and> unat (nb m) = cnt (fl m) \<and> unat (nb m) < WOOTFTPD_MAX_NBOP \<and> x < WOOTFTPD_MAX_NBOP \<and> \<not> bit (fl m ! x) 0 \<and> prior_used m x)"
| "alloc_ok m (A_reset x) = (unat (nb m) = cnt (fl m) + 1 \<and> x < WOOTFTPD_MAX_NBOP \<and> \<not> bit (fl m ! x) 0 \<and> prior_used m x)"
| "alloc_ok m (A_read x) = (unat (nb m) = cnt (fl m) + 1 \<and> x < WOOTFTPD_MAX_NBOP \<and> fl m ! x = 0 \<and> prior_used m x)"
| "alloc_ok m (A_enable x v) = (unat (nb m) = cnt (fl m) + 1 \<and> x < WOOTFTPD_MAX_NBOP \<and> fl m ! x = 0 \<and> v = 0 \<and> prior_used m x)"
| "alloc_ok m (A_block x) = (unat (nb m) = cnt (fl m) \<and> in_use m x)"
| "alloc_ok m (A_post rv r) =
     (unat (nb m) = cnt (fl m) \<and> (case r of Some x \<Rightarrow> rv = 0 \<and> in_use m x | None \<Rightarrow> rv = 20))"
| "alloc_ok m (A_done rv r) = (case r of Some x \<Rightarrow> rv = 0 \<and> in_use m x | None \<Rightarrow> rv = 20)"
| "alloc_ok m (A_set x f v) = (in_use m x \<and> v = fl m ! x \<and> (f = WOOTFTPD_UPLOAD \<or> f = WOOTFTPD_DOWNLOAD))"
| "alloc_ok m (A_fin x v) = (in_use m x \<and> v = fl m ! x)"
| "alloc_ok m A_gone = True"

fun remove_ok :: "shmem \<Rightarrow> rpc \<Rightarrow> bool" where
  "remove_ok m R_idle = True"
| "remove_ok m (R_wait x) = (x < WOOTFTPD_MAX_NBOP \<and> bit (fl m ! x) 0 \<and> bit (fl m ! x) 1)"
| "remove_ok m (R_reset x) = (unat (nb m) = cnt (fl m) \<and> x < WOOTFTPD_MAX_NBOP \<and> bit (fl m ! x) 0 \<and> bit (fl m ! x) 1)"
| "remove_ok m (R_load x) = (unat (nb m) = cnt (fl m) + 1)"
| "remove_ok m (R_store x v) = (v = nb m \<and> unat (nb m) = cnt (fl m) + 1)"
| "remove_ok m (R_post x) = (unat (nb m) = cnt (fl m))"
| "remove_ok m (R_mark x) = (x < WOOTFTPD_MAX_NBOP \<and> bit (fl m ! x) 0)"
| "remove_ok m (R_end x v) = (x < WOOTFTPD_MAX_NBOP \<and> bit (fl m ! x) 0 \<and> bit v 0)"
| "remove_ok m (R_again x) = (x < WOOTFTPD_MAX_NBOP \<and> bit (fl m ! x) 0 \<and> bit (fl m ! x) 1)"
| "remove_ok m (R_tmo x v) = (x < WOOTFTPD_MAX_NBOP \<and> bit (fl m ! x) 0 \<and> bit (fl m ! x) 1 \<and> bit v 0 \<and> bit v 1)"

text \<open>
  The lock: \<open>h\<close> is the process that has it, \<open>Some None\<close> for the monitor. If \<open>c\<close>, the counter is right
  when nobody has it.
\<close>

definition held_by :: "bool \<Rightarrow> nat option option \<Rightarrow> lsys \<Rightarrow> bool" where
  "held_by c h s = ((\<forall>i. in_crit (alloc_pc s i) \<longleftrightarrow> h = Some (Some i)) \<and> (in_remove (remove_pc s) \<longleftrightarrow> h = Some None) \<and>
     sem (mem s) = (if h = None then 1 else 0) \<and> (c \<longrightarrow> h = None \<longrightarrow> unat (nb (mem s)) = cnt (fl (mem s))))"

text \<open>An ended slot is enabled.\<close>

definition flags_ok :: "u8 list \<Rightarrow> bool" where
  "flags_ok f = (\<forall>x < WOOTFTPD_MAX_NBOP. bit (f ! x) 1 \<longrightarrow> bit (f ! x) 0)"

lemma flags_ok_update: "flags_ok f \<Longrightarrow> length f = WOOTFTPD_MAX_NBOP \<Longrightarrow> bit v 0 \<or> \<not> bit v 1 \<Longrightarrow> flags_ok (f[x := v])"
  unfolding flags_ok_def by (metis nth_list_update_eq nth_list_update_neq)

text \<open>A slot the monitor has a removal date for is ended.\<close>

definition dated_ok :: "shmem \<Rightarrow> nat set \<Rightarrow> bool" where
  "dated_ok m d = (\<forall>x \<in> d. x < WOOTFTPD_MAX_NBOP \<and> bit (fl m ! x) 0 \<and> bit (fl m ! x) 1)"

definition lock_inv :: "lsys \<Rightarrow> bool" where
  "lock_inv s = ((\<exists>h. held_by True h s) \<and> dated_ok (mem s) (dated s) \<and> length (fl (mem s)) = WOOTFTPD_MAX_NBOP \<and>
     flags_ok (fl (mem s)) \<and> (\<forall>i. alloc_ok (mem s) (alloc_pc s i)) \<and> remove_ok (mem s) (remove_pc s) \<and>
     (\<forall>i j x. taken (alloc_pc s i) = Some x \<longrightarrow> taken (alloc_pc s j) = Some x \<longrightarrow> i = j))"

lemma lock_invI:
  assumes "\<exists>h. held_by True h s" and "dated_ok (mem s) (dated s)" and "length (fl (mem s)) = WOOTFTPD_MAX_NBOP" and "flags_ok (fl (mem s))"
    and "\<And>i. alloc_ok (mem s) (alloc_pc s i)" and "remove_ok (mem s) (remove_pc s)"
    and "\<And>i j x. taken (alloc_pc s i) = Some x \<Longrightarrow> taken (alloc_pc s j) = Some x \<Longrightarrow> i = j"
  shows "lock_inv s"
  unfolding lock_inv_def using assms by blast

lemma lock_invE:
  assumes "lock_inv s"
  obtains h where "held_by True h s" "dated_ok (mem s) (dated s)" "length (fl (mem s)) = WOOTFTPD_MAX_NBOP" "flags_ok (fl (mem s))"
    "\<And>i. alloc_ok (mem s) (alloc_pc s i)" "remove_ok (mem s) (remove_pc s)"
    "\<And>i j x. taken (alloc_pc s i) = Some x \<Longrightarrow> taken (alloc_pc s j) = Some x \<Longrightarrow> i = j"
  using assms unfolding lock_inv_def by blast

subsection \<open>Steps of a process\<close>

text \<open>A process changes the flags of a slot only if it was free.\<close>

lemma alloc_step_frame:
  assumes "alloc_step pc m = Some (pc', m')" and "alloc_ok m pc" and "length (fl m) = WOOTFTPD_MAX_NBOP"
  shows "length (fl m') = WOOTFTPD_MAX_NBOP" and "bit (fl m ! y) 0 \<Longrightarrow> fl m' ! y = fl m ! y"
  using assms by (cases pc; auto simp: nth_list_update split: if_splits)+

lemma alloc_step_ok:
  assumes "alloc_step pc m = Some (pc', m')" and "alloc_ok m pc" and "length (fl m) = WOOTFTPD_MAX_NBOP"
    and "pc = A_wait \<Longrightarrow> unat (nb m) = cnt (fl m)"
  shows "alloc_ok m' pc'"
proof (cases pc)
  case (A_scan x)
  have "cnt (fl m) = WOOTFTPD_MAX_NBOP" if "\<forall>j < WOOTFTPD_MAX_NBOP. bit (fl m ! j) 0"
    using that assms(3) by (simp add: cnt_def filter_id_conv [THEN iffD2] all_set_conv_all_nth)
  then show ?thesis using assms A_scan by (auto simp: prior_used_def less_Suc_eq le_less split: if_splits)
next
  case (A_test)
  then show ?thesis using assms by (auto simp: word_le_nat_alt prior_used_def split: if_splits)
next
  case (A_store x v)
  have "unat (nb m + 1) = unat (nb m) + 1" using assms(2) A_store by (simp add: unat_word_ariths(1) take_bit_nat_eq_self)
  then show ?thesis using assms A_store by auto
next
  case (A_reset x)
  have "int (cnt ((fl m)[x := WOOTFTPD_RESET])) = int (cnt (fl m))"
    using cnt_update [of x "fl m" WOOTFTPD_RESET] assms(2, 3) A_reset by (simp add: flag_bit_tests)
  then show ?thesis using assms A_reset by (auto simp: WOOTFTPD_RESET_def)
next
  case (A_enable x v)
  have "int (cnt ((fl m)[x := WOOTFTPD_ENABLE])) = int (cnt (fl m)) + 1"
    using cnt_update [of x "fl m" WOOTFTPD_ENABLE] assms(2, 3) A_enable by (simp add: flag_bit_tests)
  then have "cnt ((fl m)[x := WOOTFTPD_ENABLE]) = cnt (fl m) + 1" by simp
  moreover have "\<not> bit WOOTFTPD_ENABLE 1" by (simp add: WOOTFTPD_ENABLE_def)
  ultimately show ?thesis using assms A_enable by (auto simp: in_use_def flag_bit_tests)
qed (use assms in \<open>auto simp: in_use_def split: if_splits option.splits\<close>)


text \<open>What a process or the monitor relies on is kept by the steps of the others.\<close>

lemma ok_frame:
  assumes "\<And>y. y < WOOTFTPD_MAX_NBOP \<Longrightarrow> bit (fl m ! y) 0 \<Longrightarrow> fl m' ! y = fl m ! y"
  shows "alloc_ok m pc \<Longrightarrow> \<not> in_crit pc \<Longrightarrow> alloc_ok m' pc" and "remove_ok m r \<Longrightarrow> \<not> in_remove r \<Longrightarrow> remove_ok m' r"
  using assms by (cases pc; auto simp: in_use_def split: option.splits) (use assms in \<open>cases r; auto\<close>)

lemma in_use_frame: "in_use m y \<Longrightarrow> x \<noteq> y \<Longrightarrow> in_use (m\<lparr>fl := (fl m)[x := v]\<rparr>) y"
  by (simp add: in_use_def)

lemma write_frame:
  assumes "x < WOOTFTPD_MAX_NBOP" and "length (fl m) = WOOTFTPD_MAX_NBOP" and "bit (fl m ! x) 0" and "bit v 0"
    and "bit (fl m ! x) 1 \<longrightarrow> bit v 1" and m': "m' = m\<lparr>fl := (fl m)[x := v]\<rparr>"
  shows "alloc_ok m pc \<Longrightarrow> taken pc \<noteq> Some x \<Longrightarrow> alloc_ok m' pc" and "remove_ok m r \<Longrightarrow> remove_ok m' r"
    and "cnt (fl m') = cnt (fl m)" and "dated_ok m d \<Longrightarrow> dated_ok m' d"
proof -
  show c: "cnt (fl m') = cnt (fl m)" using cnt_update [of x "fl m" v] assms by simp
  have b: "bit (fl m' ! y) 0 = bit (fl m ! y) 0" for y using assms by (cases "y = x") simp_all
  have z: "fl m' ! y = 0" if "fl m ! y = 0" for y using that assms by (cases "y = x") simp_all
  show "alloc_ok m' pc" if "alloc_ok m pc" "taken pc \<noteq> Some x"
    using that c b z m' assms(3) by (cases pc) (auto simp: in_use_def prior_used_def split: option.splits)
  show "remove_ok m' r" if "remove_ok m r" using that c b m' assms by (cases r) (auto simp: nth_list_update)
  show "dated_ok m' d" if "dated_ok m d" using that assms by (auto simp: dated_ok_def nth_list_update)
qed

text \<open>The lock passes from one to the other.\<close>

lemma step_has_lock:
  "alloc_step pc m = Some c \<Longrightarrow> in_crit pc \<or> sem m \<noteq> 0" "remove_step r m = Some d \<Longrightarrow> in_remove r \<or> sem m \<noteq> 0"
  by (cases pc; auto split: if_splits) (cases r; auto split: if_splits)

lemma held_alloc_same:
  assumes "held_by c (Some (Some i)) s" and "sem m = sem (mem s)" and "in_crit pc"
  shows "held_by c (Some (Some i)) (s\<lparr>mem := m, alloc_pc := (alloc_pc s)(i := pc)\<rparr>)"
  using assms by (simp add: held_by_def)

lemma held_alloc:
  assumes h: "held_by c h s" and st: "alloc_step (alloc_pc s i) (mem s) = Some (pc, m)"
    and ok: "c \<Longrightarrow> alloc_ok (mem s) (alloc_pc s i)"
  shows "\<exists>h'. held_by c h' (s\<lparr>mem := m, alloc_pc := (alloc_pc s)(i := pc)\<rparr>)"
proof (cases "alloc_pc s i = A_wait")
  case True
  then have hn: "h = None" and r: "pc = A_test" "m = (mem s)\<lparr>sem := 0\<rparr>" using h st by (simp_all add: held_by_def split: if_splits)
  show ?thesis using h unfolding hn r by (intro exI [of _ "Some (Some i)"]) (simp add: held_by_def)
next
  case False
  then have "in_crit (alloc_pc s i)" using st by (cases "alloc_pc s i") simp_all
  then have hs: "h = Some (Some i)" using h by (simp add: held_by_def)
  show ?thesis
  proof (cases "in_crit pc")
    case True
    then have "sem m = sem (mem s)" using st False by (cases "alloc_pc s i") (auto split: if_splits)
    then show ?thesis using held_alloc_same [of c i s m pc] h True unfolding hs by blast
  next
    case out: False
    then obtain rv r where "alloc_pc s i = A_post rv r" using st False by (cases "alloc_pc s i") (auto split: if_splits)
    then have "pc = A_done rv r" "m = (mem s)\<lparr>sem := Suc (sem (mem s))\<rparr>" "c \<Longrightarrow> unat (nb (mem s)) = cnt (fl (mem s))" using st ok by simp_all
    then show ?thesis using h unfolding hs by (intro exI [of _ None]) (simp add: held_by_def)
  qed
qed

lemma held_remove:
  assumes h: "held_by c h s" and st: "remove_step (remove_pc s) (mem s) = Some (pc, m)"
    and ok: "c \<Longrightarrow> remove_ok (mem s) (remove_pc s)"
  shows "\<exists>h'. held_by c h' (s\<lparr>mem := m, remove_pc := pc, dated := d\<rparr>)"
proof (cases "in_remove (remove_pc s)")
  case False
  then obtain x where "remove_pc s = R_wait x" using st by (cases "remove_pc s") simp_all
  then have hn: "h = None" and r: "pc = R_reset x" "m = (mem s)\<lparr>sem := 0\<rparr>" using h st by (simp_all add: held_by_def split: if_splits)
  show ?thesis using h unfolding hn r by (intro exI [of _ "Some None"]) (simp add: held_by_def)
next
  case True
  then have hs: "h = Some None" using h by (simp add: held_by_def)
  show ?thesis
  proof (cases "in_remove pc")
    case True
    then have "sem m = sem (mem s)" using st \<open>in_remove (remove_pc s)\<close> by (cases "remove_pc s") auto
    then show ?thesis using h True unfolding hs by (intro exI [of _ "Some None"]) (simp add: held_by_def)
  next
    case False
    then obtain x where "remove_pc s = R_post x" using st True by (cases "remove_pc s") auto
    then have "pc = R_idle" "m = (mem s)\<lparr>sem := Suc (sem (mem s))\<rparr>" "c \<Longrightarrow> unat (nb (mem s)) = cnt (fl (mem s))" using st ok by simp_all
    then show ?thesis using h unfolding hs by (intro exI [of _ None]) (simp add: held_by_def)
  qed
qed

subsection \<open>Steps of the monitor\<close>

lemma remove_step_frame:
  assumes "remove_step r m = Some (r', m')" and "remove_ok m r"
  shows "length (fl m') = length (fl m)" and "\<not> bit (fl m ! y) 1 \<Longrightarrow> fl m' ! y = fl m ! y"
proof -
  consider "fl m' = fl m" | x where "fl m' = (fl m)[x := WOOTFTPD_RESET]" "bit (fl m ! x) 1"
    using assms by (cases r) (auto simp del: One_nat_def split: if_splits)
  then have "length (fl m') = length (fl m) \<and> (\<not> bit (fl m ! y) 1 \<longrightarrow> fl m' ! y = fl m ! y)"
    by cases (simp, metis length_list_update nth_list_update_neq)
  then show "length (fl m') = length (fl m)" and "\<not> bit (fl m ! y) 1 \<Longrightarrow> fl m' ! y = fl m ! y" by blast+
qed

lemma remove_step_ok:
  assumes "remove_step r m = Some (r', m')" and "remove_ok m r" and "length (fl m) = WOOTFTPD_MAX_NBOP"
    and "in_remove r \<or> unat (nb m) = cnt (fl m)"
  shows "remove_ok m' r'"
proof (cases r)
  case (R_reset x)
  have "int (cnt ((fl m)[x := WOOTFTPD_RESET])) = int (cnt (fl m)) - 1"
    using cnt_update [of x "fl m" WOOTFTPD_RESET] assms(2, 3) R_reset by (simp add: flag_bit_tests)
  then show ?thesis using assms R_reset by auto
next
  case (R_store x v)
  have "unat (nb m - 1) = unat (nb m) - 1" using assms(2) R_store by (simp add: unat_minus_one unat_gt_0 [symmetric])
  then show ?thesis using assms R_store by auto
qed (use assms in \<open>auto split: if_splits\<close>)

subsection \<open>Every step keeps the invariant\<close>

lemma taken_in_use: "alloc_ok m pc \<Longrightarrow> taken pc = Some x \<Longrightarrow> in_use m x"
  by (cases pc) auto

lemma alloc_step_change:
  assumes "alloc_step pc m = Some (pc', m')" and "alloc_ok m pc"
  obtains "fl m' = fl m" "taken pc' = taken pc"
  | x where "fl m' = (fl m)[x := WOOTFTPD_RESET]" "taken pc' = taken pc" "\<not> bit (fl m ! x) 0"
  | x where "fl m' = (fl m)[x := WOOTFTPD_ENABLE]" "taken pc' = Some x" "taken pc = None" "x < WOOTFTPD_MAX_NBOP"
    "\<not> bit (fl m ! x) 0" "prior_used m x"
  using assms by (cases pc) (auto split: if_splits)

lemma alloc_keeps_inv:
  assumes inv: "lock_inv s" and st: "alloc_step (alloc_pc s i) (mem s) = Some (pc, m)"
  shows "lock_inv (s\<lparr>mem := m, alloc_pc := (alloc_pc s)(i := pc)\<rparr>)"
  using inv
proof (rule lock_invE)
  fix h
  assume h: "held_by True h s" and da: "dated_ok (mem s) (dated s)" and len: "length (fl (mem s)) = WOOTFTPD_MAX_NBOP" and fo: "flags_ok (fl (mem s))"
    and ao: "\<And>j. alloc_ok (mem s) (alloc_pc s j)" and ro: "remove_ok (mem s) (remove_pc s)"
    and un: "\<And>j k x. taken (alloc_pc s j) = Some x \<Longrightarrow> taken (alloc_pc s k) = Some x \<Longrightarrow> j = k"
  have nb: "unat (nb (mem s)) = cnt (fl (mem s))" if "alloc_pc s i = A_wait"
    using h st that by (auto simp: held_by_def split: if_splits)
  have "h = None \<or> h = Some (Some i)" using h step_has_lock(1) [OF st] unfolding held_by_def by metis
  then have nr: "\<not> in_remove (remove_pc s)" and nc: "\<And>j. j \<noteq> i \<Longrightarrow> \<not> in_crit (alloc_pc s j)" using h unfolding held_by_def by auto
  note fr = alloc_step_frame [OF st ao len]
  have ok: "alloc_ok m (alloc_pc s j)" if "j \<noteq> i" for j by (rule ok_frame(1) [OF fr(2) ao nc [OF that]])
  have other: "taken pc \<noteq> Some x" if "taken (alloc_pc s j) = Some x" "j \<noteq> i" for j x
  proof -
    have "taken pc = taken (alloc_pc s i) \<or> (\<exists>y. taken pc = Some y \<and> \<not> bit (fl (mem s) ! y) 0)"
      by (rule alloc_step_change [OF st ao]) simp_all
    moreover have "bit (fl (mem s) ! x) 0" using taken_in_use [OF ao that(1)] by (simp add: in_use_def)
    ultimately show ?thesis using un that by (metis option.inject)
  qed
  show ?thesis
  proof (rule lock_invI)
    show "\<exists>h. held_by True h (s\<lparr>mem := m, alloc_pc := (alloc_pc s)(i := pc)\<rparr>)" by (rule held_alloc [OF h st ao])
  next
    show "dated_ok (mem (s\<lparr>mem := m, alloc_pc := (alloc_pc s)(i := pc)\<rparr>)) (dated (s\<lparr>mem := m, alloc_pc := (alloc_pc s)(i := pc)\<rparr>))"
      using da fr(2) by (auto simp: dated_ok_def)
  next
    have "flags_ok (fl m)"
      by (rule alloc_step_change [OF st ao]) (use fo len in \<open>auto intro!: flags_ok_update simp: flag_bit_tests\<close>)
    then show "flags_ok (fl (mem (s\<lparr>mem := m, alloc_pc := (alloc_pc s)(i := pc)\<rparr>)))" by simp
  next
    fix j k x
    assume "taken (alloc_pc (s\<lparr>mem := m, alloc_pc := (alloc_pc s)(i := pc)\<rparr>) j) = Some x"
      and "taken (alloc_pc (s\<lparr>mem := m, alloc_pc := (alloc_pc s)(i := pc)\<rparr>) k) = Some x"
    then show "j = k" using un [of j x k] other [of j x] other [of k x] by (cases "j = i"; cases "k = i") simp_all
  qed (use fr(1) ok alloc_step_ok [OF st ao len nb] ok_frame(2) [OF fr(2) ro nr] in simp_all)
qed

lemma remove_keeps_inv:
  assumes inv: "lock_inv s" and st: "remove_step (remove_pc s) (mem s) = Some (r, m)"
  shows "lock_inv (s\<lparr>mem := m, remove_pc := r, dated := dated s - cleared (remove_pc s)\<rparr>)"
  using inv
proof (rule lock_invE)
  fix h
  assume h: "held_by True h s" and da: "dated_ok (mem s) (dated s)" and len: "length (fl (mem s)) = WOOTFTPD_MAX_NBOP" and fo: "flags_ok (fl (mem s))"
    and ao: "\<And>j. alloc_ok (mem s) (alloc_pc s j)" and ro: "remove_ok (mem s) (remove_pc s)"
    and un: "\<And>j k x. taken (alloc_pc s j) = Some x \<Longrightarrow> taken (alloc_pc s k) = Some x \<Longrightarrow> j = k"
  have hh: "h = None \<or> h = Some None" using h step_has_lock(2) [OF st] unfolding held_by_def by metis
  then have nc: "\<not> in_crit (alloc_pc s j)" for j using h unfolding held_by_def by auto
  have nb: "in_remove (remove_pc s) \<or> unat (nb (mem s)) = cnt (fl (mem s))" using h hh unfolding held_by_def by auto
  note fr = remove_step_frame [OF st ro]
  have ok: "alloc_ok m (alloc_pc s j)" for j
    using ao [of j] nc [of j] fr(2) by (cases "alloc_pc s j") (auto simp: in_use_def split: option.splits)
  have "flags_ok (fl m)" using st ro fo len
    by (cases "remove_pc s") (auto intro!: flags_ok_update simp: flag_bit_tests split: if_splits)
  moreover have "dated_ok m (dated s - cleared (remove_pc s))" using st da
    by (cases "remove_pc s") (auto simp: dated_ok_def cleared_def split: if_splits)
  ultimately show ?thesis using held_remove [OF h st ro] fr(1) len ok remove_step_ok [OF st ro len nb] un
    by (intro lock_invI) simp_all
qed

lemma lock_inv_taken: "lock_inv s \<Longrightarrow> taken (alloc_pc s i) = Some x \<Longrightarrow> taken (alloc_pc s j) = Some x \<Longrightarrow> i = j"
  unfolding lock_inv_def by blast

lemma move_keeps_inv:
  assumes inv: "lock_inv s" and out: "\<not> in_crit (alloc_pc s i)" "\<not> in_crit pc" and ok: "alloc_ok (mem s) pc"
    and tk: "\<And>x j. taken pc = Some x \<Longrightarrow> j \<noteq> i \<Longrightarrow> taken (alloc_pc s j) \<noteq> Some x"
  shows "lock_inv (s\<lparr>alloc_pc := (alloc_pc s)(i := pc)\<rparr>)"
  using inv
proof (rule lock_invE)
  fix h
  assume a: "held_by True h s" "dated_ok (mem s) (dated s)" "length (fl (mem s)) = WOOTFTPD_MAX_NBOP" "flags_ok (fl (mem s))"
    "\<And>j. alloc_ok (mem s) (alloc_pc s j)" "remove_ok (mem s) (remove_pc s)"
    and un: "\<And>j k x. taken (alloc_pc s j) = Some x \<Longrightarrow> taken (alloc_pc s k) = Some x \<Longrightarrow> j = k"
  have "held_by True h (s\<lparr>alloc_pc := (alloc_pc s)(i := pc)\<rparr>)" using a(1) out by (auto simp: held_by_def)
  then show ?thesis
  proof (intro lock_invI exI)
    fix j k x
    assume "taken (alloc_pc (s\<lparr>alloc_pc := (alloc_pc s)(i := pc)\<rparr>) j) = Some x"
      and "taken (alloc_pc (s\<lparr>alloc_pc := (alloc_pc s)(i := pc)\<rparr>) k) = Some x"
    then show "j = k" using un [of j x k] tk [of x j] tk [of x k] by (cases "j = i"; cases "k = i") auto
  qed (use a(2-) ok in simp_all)
qed

lemma write_keeps_inv:
  assumes inv: "lock_inv s" and x: "x < WOOTFTPD_MAX_NBOP" "bit (fl (mem s) ! x) 0" "bit v 0"
    and e: "bit (fl (mem s) ! x) 1 \<longrightarrow> bit v 1" and free: "\<And>i. taken (alloc_pc s i) \<noteq> Some x"
  shows "lock_inv (s\<lparr>mem := (mem s)\<lparr>fl := (fl (mem s))[x := v]\<rparr>\<rparr>)"
  using inv
proof (rule lock_invE)
  fix h
  assume h: "held_by True h s" and da: "dated_ok (mem s) (dated s)" and len: "length (fl (mem s)) = WOOTFTPD_MAX_NBOP"
    and fo: "flags_ok (fl (mem s))" and ao: "\<And>j. alloc_ok (mem s) (alloc_pc s j)" and ro: "remove_ok (mem s) (remove_pc s)"
    and un: "\<And>j k x. taken (alloc_pc s j) = Some x \<Longrightarrow> taken (alloc_pc s k) = Some x \<Longrightarrow> j = k"
  note fr = write_frame [OF x(1) len x(2, 3) e refl]
  have "held_by True h (s\<lparr>mem := (mem s)\<lparr>fl := (fl (mem s))[x := v]\<rparr>\<rparr>)" using h fr(3) by (simp add: held_by_def)
  then show ?thesis using len fo fr(1) [OF ao free] fr(2) [OF ro] fr(4) [OF da] un x
    by (intro lock_invI) (blast | simp add: flags_ok_update)+
qed

text \<open>The owner of a slot writes its flags.\<close>

lemma own_write_keeps_inv:
  assumes inv: "lock_inv s" and pc: "taken (alloc_pc s i) = Some x" "\<not> in_crit (alloc_pc s i)"
    and v: "bit v 0" and ok: "alloc_ok ((mem s)\<lparr>fl := (fl (mem s))[x := v]\<rparr>) pc'" "\<not> in_crit pc'"
    and t: "taken pc' = None \<or> taken pc' = Some x"
  shows "lock_inv (s\<lparr>mem := (mem s)\<lparr>fl := (fl (mem s))[x := v]\<rparr>, alloc_pc := (alloc_pc s)(i := pc')\<rparr>)"
proof -
  have "alloc_ok (mem s) (alloc_pc s i)" using inv by (rule lock_invE)
  then have use: "in_use (mem s) x" using pc(1) by (rule taken_in_use)
  let ?s1 = "s\<lparr>alloc_pc := (alloc_pc s)(i := A_gone)\<rparr>"
  let ?s2 = "?s1\<lparr>mem := (mem ?s1)\<lparr>fl := (fl (mem ?s1))[x := v]\<rparr>\<rparr>"
  have i1: "lock_inv ?s1" using move_keeps_inv [OF inv pc(2), of A_gone] by simp
  have free: "taken (alloc_pc ?s1 j) \<noteq> Some x" for j
    using lock_inv_taken [OF inv pc(1), of j] by (cases "j = i") auto
  have "lock_inv ?s2" by (rule write_keeps_inv [OF i1]) (use use v free in \<open>simp_all add: in_use_def\<close>)
  moreover have "taken (alloc_pc ?s2 j) \<noteq> Some y" if "taken pc' = Some y" "j \<noteq> i" for y j using that t free [of j] by auto
  ultimately have "lock_inv (?s2\<lparr>alloc_pc := (alloc_pc ?s2)(i := pc')\<rparr>)" using ok by (intro move_keeps_inv) simp_all
  then show ?thesis by (simp del: fun_upd_apply)
qed

lemma own_bits:
  "bit v 0 \<Longrightarrow> bit (v OR f) 0" "bit ((v :: u8) OR WOOTFTPD_END) 1"
  "f = WOOTFTPD_UPLOAD \<or> f = WOOTFTPD_DOWNLOAD \<Longrightarrow> bit (v OR f) 1 = bit v 1"
  by (auto simp: bit_or_iff flag_bit_tests woo_flag_defs)

text \<open>What the monitor does without the lock.\<close>

lemma monitor_keeps_inv:
  assumes inv: "lock_inv s" and out: "\<not> in_remove (remove_pc s)" "\<not> in_remove r" and ok: "remove_ok (mem s) r"
    and d: "dated_ok (mem s) d"
  shows "lock_inv (s\<lparr>remove_pc := r, dated := d\<rparr>)"
  using inv
proof (rule lock_invE)
  fix h
  assume a: "held_by True h s" "length (fl (mem s)) = WOOTFTPD_MAX_NBOP" "flags_ok (fl (mem s))"
    "\<And>j. alloc_ok (mem s) (alloc_pc s j)"
    and un: "\<And>j k x. taken (alloc_pc s j) = Some x \<Longrightarrow> taken (alloc_pc s k) = Some x \<Longrightarrow> j = k"
  have "held_by True h (s\<lparr>remove_pc := r, dated := d\<rparr>)" using a(1) out by (simp add: held_by_def)
  then show ?thesis using a(2-) ok d un by (intro lock_invI) (blast | simp)+
qed

lemma mark_keeps_inv:
  assumes inv: "lock_inv s" and st: "mark_step (remove_pc s) (mem s) = Some (r, m)" and ev: "mark_event s = Plain"
  shows "lock_inv (s\<lparr>mem := m, remove_pc := r\<rparr>)"
proof -
  have ro: "remove_ok (mem s) (remove_pc s)" and da: "dated_ok (mem s) (dated s)" and len: "length (fl (mem s)) = WOOTFTPD_MAX_NBOP"
    using inv unfolding lock_inv_def by blast+
  have read: ?thesis if "m = mem s" "remove_ok (mem s) r" "\<not> in_remove r" "\<not> in_remove (remove_pc s)"
    using monitor_keeps_inv [OF inv that(4, 3, 2) da] that(1) by simp
  have wr: ?thesis if "m = (mem s)\<lparr>fl := (fl (mem s))[x := v]\<rparr>" "\<not> has_owner s x" "x < WOOTFTPD_MAX_NBOP" "bit (fl (mem s) ! x) 0"
    "bit v 0" "bit v 1" "remove_ok m r" "\<not> in_remove r" "\<not> in_remove (remove_pc s)" for x v
  proof -
    have "lock_inv (s\<lparr>mem := m\<rparr>)" using write_keeps_inv [OF inv that(3-5)] that(1, 2, 6) by (simp add: has_owner_def)
    moreover from this have "dated_ok m (dated s)" by (simp add: lock_inv_def)
    ultimately show ?thesis using monitor_keeps_inv [of "s\<lparr>mem := m\<rparr>" r "dated s"] that by simp
  qed
  show ?thesis
  proof (cases "remove_pc s")
    case (R_end x v)
    then show ?thesis using st ro ev len
      by (intro wr [of x "v OR WOOTFTPD_END"]) (auto simp: mark_event_def own_bits simp del: One_nat_def split: if_splits)
  next
    case (R_tmo x v)
    then show ?thesis using st ro ev len
      by (intro wr [of x "v OR WOOTFTPD_TIMEOUT"]) (auto simp: mark_event_def bit_or_iff simp del: One_nat_def split: if_splits)
  qed (use st ro read in auto)
qed

lemma lock_step_inv:
  assumes "lock_step Plain s t" and "lock_inv s"
  shows "lock_inv t"
proof -
  have ao: "alloc_ok (mem s) (alloc_pc s i)" for i using assms(2) by (rule lock_invE)
  have ro: "remove_ok (mem s) (remove_pc s)" and da: "dated_ok (mem s) (dated s)" and fo: "flags_ok (fl (mem s))"
    and len: "length (fl (mem s)) = WOOTFTPD_MAX_NBOP" using assms(2) unfolding lock_inv_def by blast+
  from assms(1) show ?thesis
  proof (cases rule: lock_step.cases)
    case (alloc i pc m)
    then show ?thesis using alloc_keeps_inv assms(2) by simp
  next
    case (flag_read i rv x f)
    then show ?thesis using ao [of i] lock_inv_taken [OF assms(2), of i x]
      by (auto intro!: move_keeps_inv [OF assms(2)] simp del: fun_upd_apply)
  next
    case (flag_write i x f v)
    have ok: "in_use (mem s) x" "v = fl (mem s) ! x" "f = WOOTFTPD_UPLOAD \<or> f = WOOTFTPD_DOWNLOAD"
      using ao [of i] flag_write(2) by simp_all
    then show ?thesis using own_write_keeps_inv [OF assms(2), of i x "v OR f" "A_done 0 (Some x)"] flag_write len
      by (simp add: in_use_def own_bits del: One_nat_def)
  next
    case (end_read i rv x)
    then show ?thesis using ao [of i] lock_inv_taken [OF assms(2), of i x]
      by (auto intro!: move_keeps_inv [OF assms(2)] simp del: fun_upd_apply)
  next
    case (end_write i x v)
    have ok: "in_use (mem s) x" "v = fl (mem s) ! x" using ao [of i] end_write(2) by simp_all
    then show ?thesis using own_write_keeps_inv [OF assms(2), of i x "v OR WOOTFTPD_END" A_gone] end_write
      by (simp add: in_use_def own_bits)
  next
    case (die i)
    then show ?thesis using move_keeps_inv [OF assms(2), of i A_gone] by simp
  next
    case (watch x)
    then show ?thesis using monitor_keeps_inv [OF assms(2) _ _ _ da, of "R_mark x"] by simp
  next
    case (mark pc m)
    then show ?thesis using mark_keeps_inv [OF assms(2)] by simp
  next
    case (date x)
    then have "dated_ok (mem s) (insert x (dated s))" using da fo by (simp add: dated_ok_def flags_ok_def)
    moreover have "t = s\<lparr>remove_pc := remove_pc s, dated := insert x (dated s)\<rparr>" using date by simp
    ultimately show ?thesis using monitor_keeps_inv [OF assms(2) _ _ ro, of "insert x (dated s)"] arg_cong [OF date(2), of in_remove] by simp
  next
    case (expire x)
    then show ?thesis using monitor_keeps_inv [OF assms(2) _ _ _ da, of "R_wait x"] da by (simp add: dated_ok_def)
  next
    case (remove pc m)
    then show ?thesis using remove_keeps_inv assms(2) by simp
  qed
qed

subsection \<open>The table\<close>

text \<open>
  The plain accesses refine the table of \<open>Table\<close>. A slot is taken when its flags are written with
  \<open>WOOTFTPD_ENABLE\<close>, ended by its owner's or the monitor's write without the lock, and free again when the monitor resets it;
  no other access changes the table.
\<close>

definition lock_table :: "lsys \<Rightarrow> table" where
  "lock_table s = \<lparr>tb_slot = slots_of (\<lambda>x. fl (mem s) ! x), tb_owned = {x. \<exists>i. taken (alloc_pc s i) = Some x}\<rparr>"

lemma lock_table_ok: "lock_inv s \<Longrightarrow> table_ok (lock_table s)"
  by (erule lock_invE)
    (auto simp: table_ok_def lock_table_def slots_of_def slot_state_iff in_use_def dest!: taken_in_use [rotated])

lemma owned_upd:
  assumes "lock_inv s"
  shows "{x. \<exists>j. taken (((alloc_pc s)(i := pc)) j) = Some x} =
    {x. \<exists>j. taken (alloc_pc s j) = Some x} - set_option (taken (alloc_pc s i)) \<union> set_option (taken pc)"
  using lock_inv_taken [OF assms, of i] by (auto split: if_splits) metis

lemma owned_same:
  "taken pc = taken (alloc_pc s i) \<Longrightarrow>
    {x. \<exists>j. taken (((alloc_pc s)(i := pc)) j) = Some x} = {x. \<exists>j. taken (alloc_pc s j) = Some x}"
  by (auto split: if_splits)

lemma lock_table_upd:
  assumes "x < WOOTFTPD_MAX_NBOP" and "length (fl (mem s)) = WOOTFTPD_MAX_NBOP"
  shows "slots_of (\<lambda>y. (fl (mem s))[x := v] ! y) = (slots_of (\<lambda>y. fl (mem s) ! y))(x := slot_state v)"
  using slots_of_change [OF assms(1), of "\<lambda>y. (fl (mem s))[x := v] ! y" "\<lambda>y. fl (mem s) ! y"] assms by simp

lemma slot_state_values:
  "slot_state WOOTFTPD_RESET = Free" "slot_state WOOTFTPD_ENABLE = Running"
  "bit v 0 \<Longrightarrow> slot_state (v OR WOOTFTPD_END) = Ended"
  "bit v 0 \<Longrightarrow> bit v 1 \<Longrightarrow> slot_state (v OR WOOTFTPD_TIMEOUT) = Ended"
  by (simp add: slot_state_iff woo_flag_defs, simp add: slot_state_iff woo_flag_defs, simp_all add: slot_state_iff bit_or_iff flag_bit_tests del: One_nat_def)

lemma alloc_simulates:
  assumes inv: "lock_inv s" and st: "alloc_step (alloc_pc s i) (mem s) = Some (pc, m)"
  shows "table_step\<^sup>*\<^sup>* (lock_table s) (lock_table (s\<lparr>mem := m, alloc_pc := (alloc_pc s)(i := pc)\<rparr>))"
proof -
  have ao: "alloc_ok (mem s) (alloc_pc s i)" using inv by (rule lock_invE)
  have len: "length (fl (mem s)) = WOOTFTPD_MAX_NBOP" using inv by (rule lock_invE)
  have same: "(slots_of (\<lambda>y. fl (mem s) ! y))(x := Free) = slots_of (\<lambda>y. fl (mem s) ! y)" if "\<not> bit (fl (mem s) ! x) 0" for x
    using that by (auto simp: slots_of_def slot_state_def fun_eq_iff)
  show ?thesis
  proof (rule alloc_step_change [OF st ao])
    assume "fl m = fl (mem s)" "taken pc = taken (alloc_pc s i)"
    then show ?thesis using owned_same [of pc s i] by (simp add: lock_table_def)
  next
    fix x
    assume x: "fl m = (fl (mem s))[x := WOOTFTPD_RESET]" "taken pc = taken (alloc_pc s i)" "\<not> bit (fl (mem s) ! x) 0"
    then have "slots_of (\<lambda>y. fl m ! y) = slots_of (\<lambda>y. fl (mem s) ! y)"
      using lock_table_upd [OF _ len, of x WOOTFTPD_RESET] same [OF x(3)] len
      by (cases "x < WOOTFTPD_MAX_NBOP") (simp_all add: slot_state_values list_update_beyond)
    then show ?thesis using owned_same [OF x(2)] by (simp add: lock_table_def)
  next
    fix x
    assume x: "fl m = (fl (mem s))[x := WOOTFTPD_ENABLE]" "taken pc = Some x" "taken (alloc_pc s i) = None" "x < WOOTFTPD_MAX_NBOP"
      "\<not> bit (fl (mem s) ! x) 0" "prior_used (mem s) x"
    then have "tb_slot (lock_table s) x = Free" "\<forall>y < x. tb_slot (lock_table s) y \<noteq> Free"
      by (auto simp: lock_table_def slots_of_def slot_state_iff prior_used_def)
    from table_step.take [OF x(4) this] show ?thesis
      using owned_upd [OF inv, of i pc] lock_table_upd [OF x(4) len, of WOOTFTPD_ENABLE] x(1-3)
      by (simp add: lock_table_def slot_state_values r_into_rtranclp)
  qed
qed

lemma end_write_simulates:
  assumes inv: "lock_inv s" and pc: "alloc_pc s i = A_fin x v"
  shows "table_step (lock_table s)
    (lock_table (s\<lparr>mem := (mem s)\<lparr>fl := (fl (mem s))[x := v OR WOOTFTPD_END]\<rparr>, alloc_pc := (alloc_pc s)(i := A_gone)\<rparr>))"
proof -
  have len: "length (fl (mem s)) = WOOTFTPD_MAX_NBOP" using inv by (rule lock_invE)
  have "alloc_ok (mem s) (A_fin x v)" using inv unfolding pc [symmetric] by (rule lock_invE)
  then have x: "x < WOOTFTPD_MAX_NBOP" "bit v 0" by (simp_all add: in_use_def)
  have "x \<in> tb_owned (lock_table s)" using pc by (auto simp: lock_table_def intro!: exI [of _ i])
  from table_step.finish [OF this] show ?thesis
    using owned_upd [OF inv, of i A_gone] lock_table_upd [OF x(1) len, of "v OR WOOTFTPD_END"] pc
    by (simp add: lock_table_def slot_state_values x(2))
qed

lemma lock_die_simulates:
  assumes inv: "lock_inv s"
  shows "table_step\<^sup>*\<^sup>* (lock_table s) (lock_table (s\<lparr>alloc_pc := (alloc_pc s)(i := A_gone)\<rparr>))"
proof (cases "taken (alloc_pc s i)")
  case None
  then show ?thesis using owned_same [of A_gone s i] by (simp add: lock_table_def)
next
  case (Some x)
  then have "x \<in> tb_owned (lock_table s)" by (auto simp: lock_table_def)
  from table_step.die [OF this] show ?thesis
    using owned_upd [OF inv, of i A_gone] Some by (simp add: lock_table_def r_into_rtranclp)
qed

lemma flag_write_simulates:
  assumes inv: "lock_inv s" and pc: "alloc_pc s i = A_set x f v"
  shows "lock_table (s\<lparr>mem := (mem s)\<lparr>fl := (fl (mem s))[x := v OR f]\<rparr>, alloc_pc := (alloc_pc s)(i := A_done 0 (Some x))\<rparr>) = lock_table s"
proof -
  have len: "length (fl (mem s)) = WOOTFTPD_MAX_NBOP" using inv by (rule lock_invE)
  have "alloc_ok (mem s) (A_set x f v)" using inv unfolding pc [symmetric] by (rule lock_invE)
  then have x: "x < WOOTFTPD_MAX_NBOP" "v = fl (mem s) ! x" "slot_state (v OR f) = slot_state v"
    by (auto simp: in_use_def slot_state_def bit_or_iff woo_flag_defs)
  have "slots_of (\<lambda>y. (fl (mem s))[x := v OR f] ! y) = slots_of (\<lambda>y. fl (mem s) ! y)"
    using lock_table_upd [OF x(1) len, of "v OR f"] x by (auto simp: fun_eq_iff slots_of_def)
  then show ?thesis using owned_same [of "A_done 0 (Some x)" s i] pc by (simp add: lock_table_def)
qed

lemma mark_simulates:
  assumes inv: "lock_inv s" and st: "mark_step (remove_pc s) (mem s) = Some (r, m)" and ev: "mark_event s = Plain"
  shows "table_step\<^sup>*\<^sup>* (lock_table s) (lock_table (s\<lparr>mem := m, remove_pc := r\<rparr>))"
proof -
  have ro: "remove_ok (mem s) (remove_pc s)" and len: "length (fl (mem s)) = WOOTFTPD_MAX_NBOP"
    using inv unfolding lock_inv_def by blast+
  have wr: ?thesis if wr: "m = (mem s)\<lparr>fl := (fl (mem s))[x := v]\<rparr>" "\<not> has_owner s x" "x < WOOTFTPD_MAX_NBOP"
    "bit (fl (mem s) ! x) 0" "slot_state v = Ended" for x v
  proof -
    have u: "tb_slot (lock_table (s\<lparr>mem := m, remove_pc := r\<rparr>)) = (tb_slot (lock_table s))(x := Ended)"
      using lock_table_upd [OF wr(3) len, of v] wr(1, 5) by (simp add: lock_table_def)
    consider "tb_slot (lock_table s) x = Ended" | "tb_slot (lock_table s) x = Running"
      using wr(3, 4) by (auto simp: lock_table_def slots_of_def slot_state_iff)
    then show ?thesis
    proof cases
      case 1
      then have "lock_table (s\<lparr>mem := m, remove_pc := r\<rparr>) = lock_table s" using u by (simp add: lock_table_def fun_upd_idem)
      then show ?thesis by simp
    next
      case 2
      moreover have "x \<notin> tb_owned (lock_table s)" using wr(2) by (simp add: lock_table_def has_owner_def)
      ultimately show ?thesis using table_step.time_out [of x "lock_table s"] u
        by (simp add: lock_table_def r_into_rtranclp)
    qed
  qed
  show ?thesis
  proof (cases "remove_pc s")
    case (R_end x v)
    then show ?thesis using st ro ev
      by (intro wr [of x "v OR WOOTFTPD_END"]) (auto simp: mark_event_def slot_state_values split: if_splits)
  next
    case (R_tmo x v)
    then show ?thesis using st ro ev
      by (intro wr [of x "v OR WOOTFTPD_TIMEOUT"]) (auto simp: mark_event_def slot_state_values simp del: One_nat_def split: if_splits)
  qed (use st in \<open>auto simp: lock_table_def\<close>)
qed

lemma remove_simulates:
  assumes inv: "lock_inv s" and st: "remove_step (remove_pc s) (mem s) = Some (r, m)"
  shows "table_step\<^sup>*\<^sup>* (lock_table s) (lock_table (s\<lparr>mem := m, remove_pc := r, dated := d\<rparr>))"
proof (cases "fl m = fl (mem s)")
  case True
  then show ?thesis by (simp add: lock_table_def)
next
  case False
  have len: "length (fl (mem s)) = WOOTFTPD_MAX_NBOP" using inv by (rule lock_invE)
  have ro: "remove_ok (mem s) (remove_pc s)" using inv by (rule lock_invE)
  have ao: "alloc_ok (mem s) (alloc_pc s i)" for i using inv by (rule lock_invE)
  obtain x where "remove_pc s = R_reset x" using st False by (cases "remove_pc s") (auto split: if_splits)
  then have x: "x < WOOTFTPD_MAX_NBOP" "bit (fl (mem s) ! x) 0" "bit (fl (mem s) ! x) 1" "fl m = (fl (mem s))[x := WOOTFTPD_RESET]"
    using st ro by auto
  have "x \<notin> tb_owned (lock_table s)" using taken_in_use [OF ao] x(3) by (auto simp: lock_table_def in_use_def)
  moreover have "tb_slot (lock_table s) x = Ended" using x by (simp add: lock_table_def slots_of_def slot_state_iff)
  ultimately show ?thesis using table_step.remove [of x "lock_table s"] lock_table_upd [OF x(1) len, of WOOTFTPD_RESET]
    by (simp add: lock_table_def slot_state_values x(4) r_into_rtranclp)
qed

lemma lock_simulates:
  assumes "lock_inv s" and "lock_step Plain s t"
  shows "table_step\<^sup>*\<^sup>* (lock_table s) (lock_table t)"
  using assms(2)
proof (cases rule: lock_step.cases)
  case (flag_read i rv x f)
  then show ?thesis using owned_same [of "A_set x f (fl (mem s) ! x)" s i] by (simp add: lock_table_def)
next
  case (flag_write i x f v)
  then show ?thesis using flag_write_simulates [OF assms(1)] by simp
next
  case (end_read i rv x)
  then show ?thesis using owned_same [of "A_fin x (fl (mem s) ! x)" s i] by (simp add: lock_table_def)
next
  case (end_write i x v)
  then show ?thesis using end_write_simulates [OF assms(1)] by (simp add: r_into_rtranclp)
qed (use assms(1) alloc_simulates lock_die_simulates mark_simulates remove_simulates in
  \<open>simp_all add: lock_table_def [of "s\<lparr>remove_pc := _\<rparr>"] lock_table_def [of "s\<lparr>dated := _\<rparr>"] lock_table_def [of s, symmetric]\<close>)

interpretation accesses: table_impl "lock_step Plain" lock_inv lock_table
  by unfold_locales (blast intro: lock_step_inv lock_table_ok lock_simulates)+

subsection \<open>Mutual exclusion\<close>

text \<open>The start: the lock is free, the counter is right, no process has begun.\<close>

definition lock_start :: "lsys \<Rightarrow> bool" where
  "lock_start s = (sem (mem s) = 1 \<and> length (fl (mem s)) = WOOTFTPD_MAX_NBOP \<and> flags_ok (fl (mem s)) \<and>
     unat (nb (mem s)) = cnt (fl (mem s)) \<and> (\<forall>i. alloc_pc s i = A_wait) \<and> remove_pc s = R_idle \<and> dated s = {})"

text \<open>The segment as the monitor has reset it is such a start.\<close>

lemma reset_lock_start:
  assumes "length (operations m) = WOOTFTPD_MAX_NBOP" and "mem s = shmem_of (gui_reset pid m)"
    and "\<And>i. alloc_pc s i = A_wait" and "remove_pc s = R_idle" and "dated s = {}"
  shows "lock_start s" and "lock_table s = empty_table"
proof -
  have fl: "fl (mem s) = map (\<lambda>_. 0) (operations m)"
    by (simp add: assms(2) shmem_of_def gui_reset_def WOOTFTPD_RESET_def comp_def)
  have "cnt (fl (mem s)) = 0" by (simp add: fl cnt_def filter_map comp_def)
  then show "lock_start s" using assms by (simp add: lock_start_def flags_ok_def fl) (simp add: shmem_of_def gui_reset_def WOOTFTPD_RESET_def)
  show "lock_table s = empty_table"
    using assms(1, 3) by (auto simp: lock_table_def empty_table_def slots_of_def slot_state_iff fl fun_eq_iff)
qed

lemma lock_start_inv: "lock_start s \<Longrightarrow> lock_inv s"
  by (rule lock_invI) (auto simp: lock_start_def held_by_def dated_ok_def)

lemma lock_reachable_inv: "lock_run {Plain} s t \<Longrightarrow> lock_inv s \<Longrightarrow> lock_inv t"
  unfolding lock_run_plain by (rule accesses.run_inv)

text \<open>Who has the lock is known whether running operations are timed out or not.\<close>

lemma held_move:
  "held_by c h s \<Longrightarrow> \<not> in_crit (alloc_pc s i) \<Longrightarrow> \<not> in_crit pc \<Longrightarrow> held_by c h (s\<lparr>alloc_pc := (alloc_pc s)(i := pc)\<rparr>)"
  "held_by False h s \<Longrightarrow> \<not> in_crit (alloc_pc s i) \<Longrightarrow> \<not> in_crit pc \<Longrightarrow>
    held_by False h (s\<lparr>mem := (mem s)\<lparr>fl := f\<rparr>, alloc_pc := (alloc_pc s)(i := pc)\<rparr>)"
  by (auto simp: held_by_def)

lemma held_step:
  assumes "lock_step e s t" and "e = Plain \<or> e = Live_timeout" and "held_by False h s"
  shows "\<exists>h'. held_by False h' t"
  using assms
proof (cases rule: lock_step.cases)
  case (alloc i pc m)
  then show ?thesis using held_alloc [OF assms(3)] by simp
next
  case (remove pc m)
  then show ?thesis using held_remove [OF assms(3)] by simp
next
  case (mark pc m)
  have "\<not> in_remove pc" "\<not> in_remove (remove_pc s)" "sem m = sem (mem s)" using mark(3) by (cases "remove_pc s"; auto)+
  then have "held_by False h t" using assms(3) mark(2) by (simp add: held_by_def)
  then show ?thesis by blast
next
  case (watch x)
  then have "held_by False h t" using assms(3) by (simp add: held_by_def)
  then show ?thesis by blast
next
  case (date x)
  then have "held_by False h t" using assms(3) by (simp add: held_by_def)
  then show ?thesis by blast
next
  case (expire x)
  then have "held_by False h t" using assms(3) by (simp add: held_by_def)
  then show ?thesis by blast
qed (use assms in \<open>auto intro!: exI [of _ h] held_move simp del: fun_upd_apply\<close>)

lemma held_run: "lock_run {Plain, Live_timeout} s t \<Longrightarrow> \<exists>h. held_by False h s \<Longrightarrow> \<exists>h. held_by False h t"
  unfolding lock_run_def by (induction rule: rtranclp_induct) (auto intro: held_step)

lemma lock_start_held: "lock_start s \<Longrightarrow> \<exists>h. held_by False h s"
  by (rule exI [of _ None]) (auto simp: lock_start_def held_by_def)

text \<open>A process that has the lock is never stopped and gives it back after a bounded number of accesses.\<close>

fun alloc_rank :: "apc \<Rightarrow> nat" where
  "alloc_rank A_test = 15" | "alloc_rank (A_scan x) = 8 + (WOOTFTPD_MAX_NBOP - x) + 1" | "alloc_rank (A_load x) = 7"
| "alloc_rank (A_store x v) = 6" | "alloc_rank (A_reset x) = 5" | "alloc_rank (A_read x) = 4" | "alloc_rank (A_enable x v) = 3"
| "alloc_rank (A_block x) = 2" | "alloc_rank (A_post rv r) = 1" | "alloc_rank _ = 0"

lemma alloc_progress: "in_crit pc \<Longrightarrow> \<exists>pc' m'. alloc_step pc m = Some (pc', m') \<and> alloc_rank pc' < alloc_rank pc"
  by (cases pc) auto

lemma alloc_leaves: "in_crit pc \<Longrightarrow> \<exists>n \<le> alloc_rank pc. \<not> in_crit (fst (alloc_run n (pc, m)))"
proof (induction "alloc_rank pc" arbitrary: pc m rule: less_induct)
  case less
  from alloc_progress [OF less.prems, of m] obtain pc' m' where
    st: "alloc_step pc m = Some (pc', m')" and r: "alloc_rank pc' < alloc_rank pc" by blast
  have "\<exists>n \<le> alloc_rank pc'. \<not> in_crit (fst (alloc_run n (pc', m')))"
    using less.hyps [OF r, of m'] by (cases "in_crit pc'") (auto intro: exI [of _ 0])
  then obtain n where "n \<le> alloc_rank pc'" "\<not> in_crit (fst (alloc_run n (pc', m')))" by blast
  then show ?case using st r by (intro exI [of _ "Suc n"]) simp
qed

lemma remove_leaves: "in_remove r \<Longrightarrow> \<exists>n \<le> 4. fst (remove_run n (r, m)) = R_idle"
proof -
  have "fst (remove_run 4 (R_reset x, m)) = R_idle" "fst (remove_run 3 (R_load x, m)) = R_idle"
    "fst (remove_run 2 (R_store x v, m)) = R_idle" "fst (remove_run 1 (R_post x, m)) = R_idle" for x v
    by (simp_all add: eval_nat_numeral)
  moreover have "(3::nat) \<le> 4" "(2::nat) \<le> 4" "(1::nat) \<le> 4" by simp_all
  moreover assume "in_remove r"
  ultimately show ?thesis by (cases r) (metis in_remove.simps order_refl)+
qed

lemma alloc_rank_le: "alloc_rank pc \<le> 15"
  by (cases pc) auto

lemma held_progress:
  assumes h: "held_by c h s" and "sem (mem s) = 0"
  shows "(\<exists>i. in_crit (alloc_pc s i) \<and> (\<exists>n \<le> 15. \<not> in_crit (fst (alloc_run n (alloc_pc s i, mem s))))) \<or>
    in_remove (remove_pc s) \<and> (\<exists>n \<le> 4. fst (remove_run n (remove_pc s, mem s)) = R_idle)"
proof -
  have "sem (mem s) = (if h = None then 1 else 0)" using h unfolding held_by_def by blast
  then have "h \<noteq> None" using assms(2) by (simp split: if_splits)
  then consider i where "in_crit (alloc_pc s i)" | "in_remove (remove_pc s)" using h unfolding held_by_def by (metis option.exhaust)
  then show ?thesis
  proof cases
    case (1 i)
    then show ?thesis using alloc_leaves [OF 1, of "mem s"] alloc_rank_le [of "alloc_pc s i"] by (meson order_trans)
  next
    case 2
    then show ?thesis using remove_leaves by blast
  qed
qed

lemma lock_inv_results:
  assumes inv: "lock_inv s"
  shows "sem (mem s) \<noteq> 0 \<Longrightarrow> unat (nb (mem s)) = cnt (fl (mem s))"
    and "alloc_pc s i = A_done rv r \<Longrightarrow> rv = 20 \<and> r = None \<or>
      rv = 0 \<and> (\<exists>x. r = Some x \<and> in_use (mem s) x \<and> (\<forall>j. taken (alloc_pc s j) = Some x \<longrightarrow> j = i))"
proof -
  obtain h where h: "held_by True h s" using inv by (rule lock_invE)
  have ao: "alloc_ok (mem s) (alloc_pc s i)" using inv by (rule lock_invE)
  show "unat (nb (mem s)) = cnt (fl (mem s))" if "sem (mem s) \<noteq> 0" using h that unfolding held_by_def by metis
  show "rv = 20 \<and> r = None \<or> rv = 0 \<and> (\<exists>x. r = Some x \<and> in_use (mem s) x \<and> (\<forall>j. taken (alloc_pc s j) = Some x \<longrightarrow> j = i))"
    if d: "alloc_pc s i = A_done rv r"
  proof (cases r)
    case None
    then show ?thesis using ao d by simp
  next
    case (Some x)
    then have "taken (alloc_pc s i) = Some x" using d by simp
    then have "j = i" if "taken (alloc_pc s j) = Some x" for j using lock_inv_taken [OF inv] that by blast
    then show ?thesis using ao d Some by simp
  qed
qed

text \<open>
  C7. Any number of server processes and the monitor, interleaved access by access. As long as no
  \<open>sem_wait\<close> is interrupted by a signal and no process dies between \<open>sem_wait\<close> and \<open>sem_post\<close>: at most one
  of them is between the two calls, and whoever is there leaves after at most 15 accesses of its own
  (the monitor after 4). If in addition the monitor never times out the operation of a
  process that is still running: when the lock is free the counter is the number of enabled slots,
  although \<open>nb_operation++\<close> is a read and a write; and a process that has finished allocating either
  got a slot of its own, enabled, not ended and taken by no other process, or found the table full:
  error 30 is never returned. The code does not check for any of the three exceptions.
\<close>

theorem lock_mutual_exclusion:
  assumes "lock_start s0" and "lock_run {Plain, Live_timeout} s0 s"
  shows "(\<forall>i. in_crit (alloc_pc s i) \<longrightarrow> \<not> in_remove (remove_pc s) \<and> (\<forall>j. in_crit (alloc_pc s j) \<longrightarrow> j = i)) \<and>
    (sem (mem s) = 0 \<longrightarrow> (\<exists>i. in_crit (alloc_pc s i) \<and> (\<exists>n \<le> 15. \<not> in_crit (fst (alloc_run n (alloc_pc s i, mem s))))) \<or>
      in_remove (remove_pc s) \<and> (\<exists>n \<le> 4. fst (remove_run n (remove_pc s, mem s)) = R_idle)) \<and>
    (lock_run {Plain} s0 s \<longrightarrow>
      (sem (mem s) \<noteq> 0 \<longrightarrow> unat (nb (mem s)) = cnt (fl (mem s))) \<and>
      (\<forall>i rv r. alloc_pc s i = A_done rv r \<longrightarrow> rv = 20 \<and> r = None \<or>
         rv = 0 \<and> (\<exists>x. r = Some x \<and> in_use (mem s) x \<and> (\<forall>j. taken (alloc_pc s j) = Some x \<longrightarrow> j = i))))"
proof -
  obtain h where h: "held_by False h s" using held_run [OF assms(2) lock_start_held [OF assms(1)]] by blast
  have "\<forall>i. in_crit (alloc_pc s i) \<longrightarrow> \<not> in_remove (remove_pc s) \<and> (\<forall>j. in_crit (alloc_pc s j) \<longrightarrow> j = i)"
    using h unfolding held_by_def by (metis option.inject option.distinct(1))
  moreover have "lock_inv s" if "lock_run {Plain} s0 s" using lock_reachable_inv [OF that lock_start_inv [OF assms(1)]] .
  ultimately show ?thesis using held_progress [OF h] lock_inv_results by blast
qed

text \<open>Process 7 takes the lock of an empty table and process 3 cannot.\<close>

definition ex_free :: lsys where
  "ex_free = \<lparr>mem = \<lparr>sem = 1, nb = 0, fl = replicate 5 0, blk = replicate 5 0\<rparr>, alloc_pc = \<lambda>_. A_wait, remove_pc = R_idle, dated = {}\<rparr>"

definition ex_held :: lsys where
  "ex_held = ex_free\<lparr>mem := (mem ex_free)\<lparr>sem := 0\<rparr>, alloc_pc := (\<lambda>_. A_wait)(7 := A_test)\<rparr>"

lemma ex_free_start: "lock_start ex_free"
  by (simp add: lock_start_def ex_free_def flags_ok_def cnt_def eval_nat_numeral less_Suc_eq)

lemma ex_held_reached: "lock_run {Plain, Live_timeout} ex_free ex_held"
proof -
  have "alloc_step (alloc_pc ex_free 7) (mem ex_free) = Some (A_test, (mem ex_free)\<lparr>sem := 0\<rparr>)" by (simp add: ex_free_def)
  from lock_step.alloc [OF this] show ?thesis unfolding lock_run_def
    by (intro r_into_rtranclp) (simp add: ex_held_def ex_free_def)
qed

theorem lock_mutual_exclusion_witness:
  "(\<exists>i. in_crit (alloc_pc ex_held i) \<and> (\<exists>n \<le> 15. \<not> in_crit (fst (alloc_run n (alloc_pc ex_held i, mem ex_held))))) \<and>
   \<not> in_crit (alloc_pc ex_held 3) \<and> alloc_step (alloc_pc ex_held 3) (mem ex_held) = None"
proof -
  have "sem (mem ex_held) = 0" "\<not> in_remove (remove_pc ex_held)" by (simp_all add: ex_held_def ex_free_def)
  moreover have "\<not> in_crit (alloc_pc ex_held 3)" "alloc_step (alloc_pc ex_held 3) (mem ex_held) = None"
    by (simp_all add: ex_held_def ex_free_def)
  ultimately show ?thesis using lock_mutual_exclusion [OF ex_free_start ex_held_reached] by blast
qed

text \<open>
  What the three exceptions do. An interrupted \<open>sem_wait\<close> lets a second process into the critical section.
  A process that dies there leaves the lock taken: nobody gets in again. The third one
  is treated in \<open>WooGui\<close>.
\<close>

lemma interrupt_breaks_exclusion:
  assumes "lock_start s0" and "i \<noteq> j"
  shows "\<exists>s. lock_run {Plain, Interrupted} s0 s \<and> in_crit (alloc_pc s i) \<and> in_crit (alloc_pc s j)"
proof -
  let ?s1 = "s0\<lparr>mem := (mem s0)\<lparr>sem := 0\<rparr>, alloc_pc := (alloc_pc s0)(i := A_test)\<rparr>"
  let ?s2 = "?s1\<lparr>alloc_pc := (alloc_pc ?s1)(j := A_test)\<rparr>"
  have a: "lock_step Plain s0 ?s1" by (rule lock_step.alloc) (use assms(1) in \<open>simp add: lock_start_def\<close>)
  have b: "lock_step Interrupted ?s1 ?s2" by (rule lock_step.alloc_interrupted) (use assms in \<open>simp add: lock_start_def\<close>)
  have "lock_run {Plain, Interrupted} s0 ?s2" unfolding lock_run_def
    by (rule rtranclp.rtrancl_into_rtrancl [OF r_into_rtranclp]) (use a b in blast)+
  then show ?thesis using assms(2) by (intro exI [of _ ?s2]) simp
qed

lemma crash_blocks:
  assumes "sem (mem s) = 0" and "\<And>i. \<not> in_crit (alloc_pc s i)" and "\<not> in_remove (remove_pc s)"
    and "lock_run {Plain, Live_timeout} s t"
  shows "sem (mem t) = 0 \<and> (\<forall>i. \<not> in_crit (alloc_pc t i)) \<and> \<not> in_remove (remove_pc t)"
  using assms(4) unfolding lock_run_def
proof (induction rule: rtranclp_induct)
  case (step t u)
  then obtain e where e: "lock_step e t u" "e = Plain \<or> e = Live_timeout" by blast
  from e(1) show ?case
  proof (cases rule: lock_step.cases)
    case (alloc i pc m)
    moreover have "\<not> in_crit (alloc_pc t i)" using step.IH by blast
    ultimately show ?thesis using step.IH by (cases "alloc_pc t i") (auto split: if_splits)
  next
    case (remove pc m)
    then show ?thesis using step.IH by (cases "remove_pc t") (auto split: if_splits)
  next
    case (mark pc m)
    then show ?thesis using step.IH by (cases "remove_pc t") auto
  qed (use step.IH e(2) in auto)
qed (use assms in simp)

end
