(* ===== verification/Store.thy ===== *)
theory Store
  imports Process
begin

text \<open>
  An explicit store for the parts of the program that build and release linked structures: a map
  from addresses to cells. Reading or freeing what is not allocated is a fault. \<open>malloc\<close> is a
  parameter of the code: given the addresses in use it answers with an address or fails.
\<close>

type_synonym 'c store = "nat \<rightharpoonup> 'c"

type_synonym malloc_fun = "nat set \<Rightarrow> nat option"

datatype 'a outcome = Ok 'a | Stops stop | Faults

fun and_then :: "'a outcome \<Rightarrow> ('a \<Rightarrow> 'b outcome) \<Rightarrow> 'b outcome" where
  "and_then (Ok a) f = f a" | "and_then (Stops e) f = Stops e" | "and_then Faults f = Faults"

definition free_cell :: "nat \<Rightarrow> 'c store \<Rightarrow> 'c store outcome" where
  "free_cell a h = (if h a = None then Faults else Ok (h(a := None)))"

text \<open>\<open>if (p) free(p);\<close>\<close>

definition free_opt :: "nat option \<Rightarrow> 'c store \<Rightarrow> 'c store outcome" where
  "free_opt p h = (case p of None \<Rightarrow> Ok h | Some a \<Rightarrow> free_cell a h)"

text \<open>What \<open>malloc\<close> promises: an address that is not in use.\<close>

definition fresh_malloc :: "malloc_fun \<Rightarrow> bool" where
  "fresh_malloc malloc = (\<forall>used a. malloc used = Some a \<longrightarrow> a \<notin> used)"

lemma fresh_dom: "fresh_malloc malloc \<Longrightarrow> malloc (dom h) = Some a \<Longrightarrow> h a = None"
  unfolding fresh_malloc_def by blast

text \<open>\<open>malloc\<close> fails with finitely many addresses in use.\<close>

definition out_of_memory :: "malloc_fun \<Rightarrow> bool" where
  "out_of_memory malloc = (\<exists>used. finite used \<and> malloc used = None)"

lemma out_of_memoryI: "malloc (dom h) = None \<Longrightarrow> finite (dom h) \<Longrightarrow> out_of_memory malloc"
  unfolding out_of_memory_def by blast

text \<open>A store with four addresses.\<close>

definition ex_malloc :: malloc_fun where
  "ex_malloc used = find (\<lambda>a. a \<notin> used) [1, 2, 3, 4]"

lemma ex_malloc_fresh: "fresh_malloc ex_malloc"
  by (auto simp: fresh_malloc_def ex_malloc_def find_Some_iff)

end
