(* ===== verification/RuleHeap.thy ===== *)
theory RuleHeap
  imports Server Store
begin

text \<open>
  The rule list in memory (\<open>tftpd/remap.c\<close>). \<open>parserulefile\<close> builds a linked list of \<open>struct rule\<close>,
  each with a compiled expression and a pattern that is either a copied string or the literal
  \<open>""\<close>; \<open>freerules\<close> takes it apart when \<open>SIGHUP\<close> makes the server read the file again. Here both work
  on the explicit store of \<open>Store\<close>.
\<close>

subsection \<open>The store\<close>

datatype pat = Pat_null | Lit_empty | Heap_str nat

record node =
  n_nrule :: int
  n_flags :: u32
  n_mode :: char
  n_rx :: "nat option"
  n_pattern :: pat
  n_next :: "nat option"

datatype 'rx cell = Node node | Rx 'rx | Str string

type_synonym 'rx heap = "'rx cell store"

definition zero_node :: "int \<Rightarrow> node" where
  "zero_node n = \<lparr>n_nrule = n, n_flags = 0, n_mode = NUL, n_rx = None, n_pattern = Pat_null, n_next = None\<rparr>"

text \<open>\<open>tfmalloc\<close> of a rule and \<open>tfstrdup\<close> of a pattern. The contents of a fresh rule are never read.\<close>

definition new_rule :: "malloc_fun \<Rightarrow> 'rx heap \<Rightarrow> (nat \<times> 'rx heap) outcome" where
  "new_rule malloc h =
     (case tfmalloc (\<lambda>_. malloc (dom h)) 1 of Inl e \<Rightarrow> Stops e | Inr a \<Rightarrow> Ok (a, h(a \<mapsto> Node (zero_node 0))))"

definition new_string :: "malloc_fun \<Rightarrow> string \<Rightarrow> 'rx heap \<Rightarrow> (nat \<times> 'rx heap) outcome" where
  "new_string malloc s h =
     (case tfstrdup (\<lambda>_. malloc (dom h)) s of Inl e \<Rightarrow> Stops e | Inr a \<Rightarrow> Ok (a, h(a \<mapsto> Str s)))"

subsection \<open>Building the list\<close>

text \<open>
  \<open>parseline\<close> on the rule at address \<open>r\<close>: the result, the counter and the store. What it reads
  from the line is \<open>Remap.parseline\<close>; fields set before an error are overwritten by the next
  \<open>memset\<close>. A \<open>regcomp\<close> that gets no memory is an error of the line.
\<close>

definition parseline_h ::
  "malloc_fun \<Rightarrow> (string \<Rightarrow> bool \<Rightarrow> 'rx option) \<Rightarrow> string \<Rightarrow> nat \<Rightarrow> int \<Rightarrow> 'rx heap \<Rightarrow> (int \<times> int \<times> 'rx heap) outcome" where
  "parseline_h malloc regcomp line r n h =
     (if h r = None then Faults
      else let h1 = h(r \<mapsto> Node (zero_node n))
      in case parseline regcomp line n of
           (No_rule, n1) \<Rightarrow> Ok (0, n, h1)
         | (Parse_error, n1) \<Rightarrow> Ok (-1, n, h1)
         | (Rule_found x, n1) \<Rightarrow>
             (case malloc (dom h1) of
                None \<Rightarrow> Ok (-1, n, h1)
              | Some c \<Rightarrow>
                  let h2 = h1(c \<mapsto> Rx (rx x));
                      nd = \<lparr>n_nrule = n, n_flags = rule_flags x, n_mode = rule_mode x, n_rx = Some c,
                            n_pattern = Lit_empty, n_next = None\<rparr>
                  in if pattern x = [] then Ok (1, n + 1, h2(r \<mapsto> Node nd))
                     else and_then (new_string malloc (pattern x) h2)
                            (\<lambda>(b, h3). Ok (1, n + 1, h3(r \<mapsto> Node (nd\<lparr>n_pattern := Heap_str b\<rparr>))))))"

text \<open>\<open>*last_rule = this_rule\<close>, where \<open>last_rule\<close> is \<open>&first_rule\<close> or \<open>&r->next\<close> of the last rule.\<close>

datatype link = First_rule | Next_of nat

definition set_next :: "nat \<Rightarrow> nat option \<Rightarrow> 'rx heap \<Rightarrow> 'rx heap outcome" where
  "set_next a q h = (case h a of Some (Node nd) \<Rightarrow> Ok (h(a \<mapsto> Node (nd\<lparr>n_next := q\<rparr>))) | _ \<Rightarrow> Faults)"

fun store_link :: "link \<Rightarrow> nat \<Rightarrow> nat option \<Rightarrow> 'rx heap \<Rightarrow> (nat option \<times> 'rx heap) outcome" where
  "store_link First_rule r first h = Ok (Some r, h)"
| "store_link (Next_of a) r first h = and_then (set_next a (Some r) h) (\<lambda>h1. Ok (first, h1))"

fun parse_lines_h ::
  "malloc_fun \<Rightarrow> (string \<Rightarrow> bool \<Rightarrow> 'rx option) \<Rightarrow> string list \<Rightarrow> nat option \<Rightarrow> link \<Rightarrow> nat \<Rightarrow> bool \<Rightarrow> int \<Rightarrow> 'rx heap \<Rightarrow>
     (nat option \<times> nat \<times> bool \<times> int \<times> 'rx heap) outcome" where
  "parse_lines_h malloc regcomp [] first last_rule r err n h = Ok (first, r, err, n, h)"
| "parse_lines_h malloc regcomp (l # ls) first last_rule r err n h =
     and_then (parseline_h malloc regcomp l r n h) (\<lambda>(rv, n1, h1).
       if 0 < rv
       then and_then (store_link last_rule r first h1) (\<lambda>(first1, h2).
            and_then (new_rule malloc h2) (\<lambda>(r1, h3). parse_lines_h malloc regcomp ls first1 (Next_of r) r1 err n1 h3))
       else parse_lines_h malloc regcomp ls first last_rule r (err \<or> rv < 0) n1 h1)"

definition parserulefile_h ::
  "malloc_fun \<Rightarrow> (string \<Rightarrow> bool \<Rightarrow> 'rx option) \<Rightarrow> string \<Rightarrow> int \<Rightarrow> 'rx heap \<Rightarrow> (nat option \<times> int \<times> 'rx heap) outcome" where
  "parserulefile_h malloc regcomp text n h =
     and_then (new_rule malloc h) (\<lambda>(r, h1).
     and_then (parse_lines_h malloc regcomp (fgets_loop (MAXLINE - 1) [] text) None First_rule r False n h1) (\<lambda>(first, r1, err, n1, h2).
     and_then (free_cell r1 h2) (\<lambda>h3. if err then Stops (Exit EX_CONFIG) else Ok (first, n1, h3))))"

subsection \<open>Taking it apart\<close>

text \<open>One round of \<open>freerules\<close>: the next rule and the store without this one.\<close>

definition free_rule :: "nat \<Rightarrow> 'rx heap \<Rightarrow> (nat option \<times> 'rx heap) outcome" where
  "free_rule a h =
     (case h a of
        Some (Node nd) \<Rightarrow>
          (case n_rx nd of
             None \<Rightarrow> Faults
           | Some c \<Rightarrow>
               and_then (free_cell c h) (\<lambda>h1.
               and_then (case n_pattern nd of
                           Pat_null \<Rightarrow> Ok h1
                         | Lit_empty \<Rightarrow> Ok h1
                         | Heap_str b \<Rightarrow> (case h1 b of Some (Str s) \<Rightarrow> if s \<noteq> [] then free_cell b h1 else Ok h1 | _ \<Rightarrow> Faults)) (\<lambda>h2.
               and_then (free_cell a h2) (\<lambda>h3. Ok (n_next nd, h3)))))
      | _ \<Rightarrow> Faults)"

text \<open>The loop; \<open>None\<close> is a list without end.\<close>

partial_function (option) freerules_h :: "nat option \<Rightarrow> 'rx heap \<Rightarrow> 'rx heap outcome option" where
  "freerules_h p h =
     (case p of
        None \<Rightarrow> Some (Ok h)
      | Some a \<Rightarrow> (case free_rule a h of Ok (next, h1) \<Rightarrow> freerules_h next h1 | Stops e \<Rightarrow> Some (Stops e) | Faults \<Rightarrow> Some Faults))"

text \<open>A sequence of reloads with the texts the map file has at each of them.\<close>

fun reloads_h ::
  "malloc_fun \<Rightarrow> (string \<Rightarrow> bool \<Rightarrow> 'rx option) \<Rightarrow> string list \<Rightarrow> nat option \<Rightarrow> int \<Rightarrow> 'rx heap \<Rightarrow>
     (nat option \<times> int \<times> 'rx heap) outcome option" where
  "reloads_h malloc regcomp [] p n h = Some (Ok (p, n, h))"
| "reloads_h malloc regcomp (t # ts) p n h =
     (case freerules_h p h of
        None \<Rightarrow> None
      | Some (Ok h1) \<Rightarrow>
          (case parserulefile_h malloc regcomp t n h1 of
             Ok (p1, n1, h2) \<Rightarrow> reloads_h malloc regcomp ts p1 n1 h2
           | Stops e \<Rightarrow> Some (Stops e)
           | Faults \<Rightarrow> Some Faults)
      | Some (Stops e) \<Rightarrow> Some (Stops e)
      | Some Faults \<Rightarrow> Some Faults)"

subsection \<open>Lists in the store\<close>

text \<open>The node of a rule, the cells a rule takes, and a store that is \<open>h0\<close> and a list of rules.\<close>

definition node_ok :: "nat \<Rightarrow> node \<Rightarrow> 'rx rule \<Rightarrow> bool" where
  "node_ok a nd r = (n_nrule nd = nrule r \<and> n_flags nd = rule_flags r \<and> n_mode nd = rule_mode r \<and>
     (\<exists>c. n_rx nd = Some c \<and> c \<noteq> a \<and>
       (n_pattern nd = Lit_empty \<and> pattern r = [] \<or> (\<exists>b. n_pattern nd = Heap_str b \<and> b \<noteq> a \<and> b \<noteq> c \<and> pattern r \<noteq> []))))"

definition rule_cells :: "nat \<Rightarrow> node \<Rightarrow> 'rx rule \<Rightarrow> 'rx heap" where
  "rule_cells a nd r =
     (case n_pattern nd of Heap_str b \<Rightarrow> [b \<mapsto> Str (pattern r)] | _ \<Rightarrow> Map.empty)(the (n_rx nd) \<mapsto> Rx (rx r), a \<mapsto> Node nd)"

fun rule_seg :: "'rx heap \<Rightarrow> nat option \<Rightarrow> nat list \<Rightarrow> 'rx rule list \<Rightarrow> nat option \<Rightarrow> 'rx heap \<Rightarrow> bool" where
  "rule_seg h0 p as [] q h = (p = q \<and> as = [] \<and> h = h0)"
| "rule_seg h0 p as (r # rs) q h =
     (\<exists>a bs nd h1. p = Some a \<and> as = a # bs \<and> node_ok a nd r \<and> rule_seg h0 (n_next nd) bs rs q h1 \<and>
        dom h1 \<inter> dom (rule_cells a nd r) = {} \<and> h = h1 ++ rule_cells a nd r)"

lemma rule_seg_append:
  "rule_seg h1 p as rs q h \<Longrightarrow> rule_seg h0 q bs us z h1 \<Longrightarrow> rule_seg h0 p (as @ bs) (rs @ us) z h"
  by (induction rs arbitrary: p as h) fastforce+

text \<open>Cells elsewhere do not matter.\<close>

lemma rule_seg_frame:
  "rule_seg h0 p as rs q h \<Longrightarrow> dom h \<inter> dom c = {} \<Longrightarrow> rule_seg (h0 ++ c) p as rs q (h ++ c)"
proof (induction rs arbitrary: p as h)
  case (Cons r rs)
  then obtain a bs nd h1 where a: "p = Some a" "as = a # bs" "node_ok a nd r" "rule_seg h0 (n_next nd) bs rs q h1"
    "dom h1 \<inter> dom (rule_cells a nd r) = {}" "h = h1 ++ rule_cells a nd r" by auto
  have d: "dom h1 \<inter> dom c = {}" "dom (rule_cells a nd r) \<inter> dom c = {}" using a(6) Cons.prems(2) by auto
  have "h ++ c = (h1 ++ c) ++ rule_cells a nd r" using map_add_comm [OF d(2)] a(6) by (metis map_add_assoc)
  moreover have "dom (h1 ++ c) \<inter> dom (rule_cells a nd r) = {}" using a(5) d(2) by auto
  ultimately show ?case using a Cons.IH [OF a(4) d(1)] by auto
qed simp

lemma rule_seg_dom: "rule_seg h0 p as rs q h \<Longrightarrow> set as \<subseteq> dom h \<and> h0 \<subseteq>\<^sub>m h"
proof (induction rs arbitrary: p as h)
  case (Cons r rs)
  then obtain a bs nd h1 where a: "as = a # bs" "rule_seg h0 (n_next nd) bs rs q h1"
    "dom h1 \<inter> dom (rule_cells a nd r) = {}" "h = h1 ++ rule_cells a nd r" by auto
  have "a \<in> dom (rule_cells a nd r)" by (simp add: rule_cells_def)
  moreover have "h1 \<subseteq>\<^sub>m h" using a(3, 4) by (metis map_add_comm map_le_map_add)
  ultimately show ?case using a Cons.IH [OF a(2)] by (auto intro: map_le_trans dest: map_le_implies_dom_le)
qed simp

text \<open>The end of a list can be linked to something else.\<close>

lemma finite_rule_cells: "finite (dom (rule_cells a nd r))"
  by (auto simp: rule_cells_def split: pat.splits)

lemma rule_seg_finite: "rule_seg h0 p as rs q h \<Longrightarrow> finite (dom h0) \<Longrightarrow> finite (dom h)"
  by (induction rs arbitrary: p as h) (auto simp: finite_rule_cells)

lemma rule_cells_next: "node_ok a nd r \<Longrightarrow> rule_cells a (nd\<lparr>n_next := q\<rparr>) r = (rule_cells a nd r)(a \<mapsto> Node (nd\<lparr>n_next := q\<rparr>))"
  by (simp add: rule_cells_def)

lemma rule_seg_link:
  "rule_seg h0 p as rs q h \<Longrightarrow> as \<noteq> [] \<Longrightarrow> \<exists>nd. h (last as) = Some (Node nd) \<and> rule_seg h0 p as rs z (h(last as \<mapsto> Node (nd\<lparr>n_next := z\<rparr>)))"
proof (induction rs arbitrary: p as h)
  case (Cons r rs)
  then obtain a bs nd h1 where a: "p = Some a" "as = a # bs" "node_ok a nd r" "rule_seg h0 (n_next nd) bs rs q h1"
    "dom h1 \<inter> dom (rule_cells a nd r) = {}" "h = h1 ++ rule_cells a nd r" by auto
  show ?case
  proof (cases "bs = []")
    case True
    then have "rs = []" "h1 = h0" using a(4) by (cases rs; auto)+
    moreover have "h a = Some (Node nd)" using a(6) by (simp add: rule_cells_def)
    moreover have "node_ok a (nd\<lparr>n_next := z\<rparr>) r" using a(3) by (simp add: node_ok_def)
    moreover have "h(a \<mapsto> Node (nd\<lparr>n_next := z\<rparr>)) = h0 ++ rule_cells a (nd\<lparr>n_next := z\<rparr>) r"
      using a(3, 6) \<open>h1 = h0\<close> by (simp add: rule_cells_next)
    moreover have "dom h0 \<inter> dom (rule_cells a (nd\<lparr>n_next := z\<rparr>) r) = {}" using a(3, 5) \<open>h1 = h0\<close>
      by (auto simp: rule_cells_def)
    moreover have "rule_seg h0 z [] [] z h0" by simp
    ultimately have "rule_seg h0 p as (r # rs) z (h(a \<mapsto> Node (nd\<lparr>n_next := z\<rparr>)))"
      using a(1, 2) True by (auto intro!: exI [of _ "nd\<lparr>n_next := z\<rparr>"] simp del: fun_upd_apply)
    then show ?thesis using \<open>h a = Some (Node nd)\<close> a(2) True by (metis last.simps)
  next
    case False
    from Cons.IH [OF a(4) False] obtain nl where l: "h1 (last bs) = Some (Node nl)"
      "rule_seg h0 (n_next nd) bs rs z (h1(last bs \<mapsto> Node (nl\<lparr>n_next := z\<rparr>)))" by blast
    have nin: "last bs \<notin> dom (rule_cells a nd r)" using a(5) l(1) by auto
    then have "h (last bs) = Some (Node nl)" using l(1) a(6) by (simp add: map_add_dom_app_simps(3))
    moreover have "h(last bs \<mapsto> Node (nl\<lparr>n_next := z\<rparr>)) = h1(last bs \<mapsto> Node (nl\<lparr>n_next := z\<rparr>)) ++ rule_cells a nd r"
      using nin a(6) by (simp add: map_add_upd_left)
    moreover have "dom (h1(last bs \<mapsto> Node (nl\<lparr>n_next := z\<rparr>))) \<inter> dom (rule_cells a nd r) = {}" using a(5) nin by auto
    ultimately have "rule_seg h0 p as (r # rs) z (h(last bs \<mapsto> Node (nl\<lparr>n_next := z\<rparr>)))"
      using a(1, 2, 3) l(2) unfolding rule_seg.simps by blast
    then show ?thesis using \<open>h (last bs) = Some (Node nl)\<close> a(2) False by (metis last.simps)
  qed
qed simp

subsection \<open>Freeing\<close>

lemma free_rule_cells:
  assumes ok: "node_ok a nd r" and d: "dom h \<inter> dom (rule_cells a nd r) = {}"
  shows "free_rule a (h ++ rule_cells a nd r) = Ok (n_next nd, h)"
proof -
  let ?h = "h ++ rule_cells a nd r"
  from ok obtain c where c: "n_rx nd = Some c" "c \<noteq> a" and
    p: "n_pattern nd = Lit_empty \<and> pattern r = [] \<or> (\<exists>b. n_pattern nd = Heap_str b \<and> b \<noteq> a \<and> b \<noteq> c \<and> pattern r \<noteq> [])"
    unfolding node_ok_def by blast
  have fresh: "h a = None" "h c = None" using d c by (auto simp: rule_cells_def)
  have at: "?h a = Some (Node nd)" "?h c = Some (Rx (rx r))" using c by (simp_all add: rule_cells_def)
  from p show ?thesis
  proof
    assume "n_pattern nd = Lit_empty \<and> pattern r = []"
    moreover from this have "?h(c := None, a := None) = h"
      using c fresh by (auto simp: rule_cells_def fun_eq_iff map_add_def)
    ultimately show ?thesis using at c by (simp add: free_rule_def free_cell_def)
  next
    assume "\<exists>b. n_pattern nd = Heap_str b \<and> b \<noteq> a \<and> b \<noteq> c \<and> pattern r \<noteq> []"
    then obtain b where b: "n_pattern nd = Heap_str b" "b \<noteq> a" "b \<noteq> c" "pattern r \<noteq> []" by blast
    then have "h b = None" "?h b = Some (Str (pattern r))" using d c by (auto simp: rule_cells_def)
    moreover from this have "?h(c := None, b := None, a := None) = h"
      using b c fresh by (auto simp: rule_cells_def fun_eq_iff map_add_def)
    ultimately show ?thesis using at b c by (simp add: free_rule_def free_cell_def)
  qed
qed

text \<open>A list is taken apart completely, and nothing else.\<close>

lemma freerules_frees: "rule_seg h0 p as rs None h \<Longrightarrow> freerules_h p h = Some (Ok h0)"
proof (induction rs arbitrary: p as h)
  case Nil
  then show ?case by (simp add: freerules_h.simps)
next
  case (Cons r rs)
  then obtain a bs nd h1 where a: "p = Some a" "node_ok a nd r" "rule_seg h0 (n_next nd) bs rs None h1"
    "dom h1 \<inter> dom (rule_cells a nd r) = {}" "h = h1 ++ rule_cells a nd r" by auto
  then show ?case using free_rule_cells [OF a(2, 4)] Cons.IH [OF a(3)] by (subst freerules_h.simps) simp
qed

subsection \<open>Building\<close>

lemma new_rule_cases:
  assumes "fresh_malloc malloc"
  obtains "new_rule malloc h = Stops (Exit EX_OSERR)" "malloc (dom h) = None"
  | a where "new_rule malloc h = Ok (a, h(a \<mapsto> Node (zero_node 0)))" "h a = None"
  using fresh_dom [OF assms, of h] by (cases "malloc (dom h)") (auto simp: new_rule_def tfmalloc_def)

lemma parseline_count:
  "parseline regcomp l n = (No_rule, n1) \<Longrightarrow> n1 = n" "parseline regcomp l n = (Parse_error, n1) \<Longrightarrow> n1 = n"
  "parseline regcomp l n = (Rule_found x, n1) \<Longrightarrow> n1 = n + 1 \<and> nrule x = n"
  using parseline_rule [of regcomp l n x n1]
  by (auto simp: parseline_def Let_def split: prod.splits if_splits option.splits)

lemma parseline_h_rule:
  assumes fm: "fresh_malloc malloc" and r: "h r \<noteq> None" and pl: "parseline regcomp l n = (Rule_found x, n1)"
  obtains "parseline_h malloc regcomp l r n h = Ok (-1, n, h(r \<mapsto> Node (zero_node n)))" "finite (dom h) \<longrightarrow> out_of_memory malloc"
  | "parseline_h malloc regcomp l r n h = Stops (Exit EX_OSERR)" "finite (dom h) \<longrightarrow> out_of_memory malloc"
  | nd where "parseline_h malloc regcomp l r n h = Ok (1, n + 1, h(r := None) ++ rule_cells r nd x)"
      "node_ok r nd x" "n_next nd = None" "dom (h(r := None)) \<inter> dom (rule_cells r nd x) = {}"
proof -
  let ?h1 = "h(r \<mapsto> Node (zero_node n))"
  have n: "nrule x = n" using parseline_count(3) [OF pl] by simp
  show thesis
  proof (cases "malloc (dom ?h1)")
    case None
    then show thesis using that(1) r pl out_of_memoryI [of malloc ?h1, OF None] by (simp add: parseline_h_def)
  next
    case (Some c)
    then have c: "c \<noteq> r" "h c = None" using fresh_dom [OF fm Some] by (auto split: if_splits)
    let ?nd = "\<lparr>n_nrule = n, n_flags = rule_flags x, n_mode = rule_mode x, n_rx = Some c, n_pattern = Lit_empty, n_next = None\<rparr>"
    let ?h2 = "?h1(c \<mapsto> Rx (rx x))"
    show thesis
    proof (cases "pattern x = []")
      case True
      have "?h2(r \<mapsto> Node ?nd) = h(r := None) ++ rule_cells r ?nd x"
        using c by (auto simp: rule_cells_def fun_eq_iff map_add_def)
      then show thesis using that(3) [of ?nd] True r pl Some c n by (auto simp: parseline_h_def node_ok_def rule_cells_def)
    next
      case False
      show thesis
      proof (cases "malloc (dom ?h2)")
        case None
        then show thesis using that(2) False r pl Some out_of_memoryI [of malloc ?h2, OF None]
          by (simp add: parseline_h_def new_string_def tfstrdup_def)
      next
        case sb: (Some b)
        then have b: "b \<noteq> r" "b \<noteq> c" "h b = None" using fresh_dom [OF fm sb] by (auto split: if_splits)
        let ?nb = "?nd\<lparr>n_pattern := Heap_str b\<rparr>"
        have "(?h2(b \<mapsto> Str (pattern x)))(r \<mapsto> Node ?nb) = h(r := None) ++ rule_cells r ?nb x"
          using b c by (auto simp: rule_cells_def fun_eq_iff map_add_def)
        then show thesis using that(3) [of ?nb] False r pl Some sb b c n
          by (auto simp: parseline_h_def new_string_def tfstrdup_def node_ok_def rule_cells_def)
      qed
    qed
  qed
qed

text \<open>A new rule goes to the end of the list.\<close>

definition link_of :: "nat list \<Rightarrow> link" where
  "link_of as = (if as = [] then First_rule else Next_of (last as))"

lemma store_link_grows:
  assumes seg: "rule_seg h0 first as rs None h" and nd: "node_ok r nd x" "n_next nd = None"
    and d: "dom h \<inter> dom (rule_cells r nd x) = {}"
  obtains first1 h2 where "store_link (link_of as) r first (h ++ rule_cells r nd x) = Ok (first1, h2)"
    "rule_seg h0 first1 (as @ [r]) (rs @ [x]) None h2"
proof (cases "as = []")
  case True
  then have "rs = []" "h = h0" using seg by (cases rs; auto)+
  then have "rule_seg h0 (Some r) (as @ [r]) (rs @ [x]) None (h ++ rule_cells r nd x)" using True nd d by auto
  then show thesis using that True by (simp add: link_of_def)
next
  case False
  let ?c = "rule_cells r nd x"
  from rule_seg_link [OF seg False, of "Some r"] obtain nl where l: "h (last as) = Some (Node nl)"
    "rule_seg h0 first as rs (Some r) (h(last as \<mapsto> Node (nl\<lparr>n_next := Some r\<rparr>)))" by blast
  let ?g = "h(last as \<mapsto> Node (nl\<lparr>n_next := Some r\<rparr>))"
  have nin: "last as \<notin> dom ?c" using d l(1) by auto
  have dg: "dom ?g \<inter> dom ?c = {}" using d nin by auto
  have "dom h0 \<subseteq> dom h" using rule_seg_dom [OF seg] map_le_implies_dom_le by blast
  then have "rule_seg h0 (Some r) [r] [x] None (h0 ++ ?c)" using nd d by auto
  then have "rule_seg h0 first (as @ [r]) (rs @ [x]) None (?g ++ ?c)"
    using rule_seg_append [OF rule_seg_frame [OF l(2) dg]] by simp
  moreover have "store_link (link_of as) r first (h ++ ?c) = Ok (first, ?g ++ ?c)"
    using False l(1) nin by (simp add: link_of_def set_next_def map_add_dom_app_simps(3) map_add_upd_left del: fun_upd_apply)
  ultimately show thesis using that by blast
qed

text \<open>
  The loop over the lines does what \<open>parse_lines\<close> says; \<open>oom\<close> tells whether memory ran out.
\<close>

definition lines_ok ::
  "bool \<Rightarrow> 'rx heap \<Rightarrow> 'rx rule list \<Rightarrow> bool \<Rightarrow> (string \<Rightarrow> bool \<Rightarrow> 'rx option) \<Rightarrow> string list \<Rightarrow> int \<Rightarrow>
     (nat option \<times> nat \<times> bool \<times> int \<times> 'rx heap) outcome \<Rightarrow> bool" where
  "lines_ok oom h0 rs err regcomp ls n out =
     (case out of
        Faults \<Rightarrow> False
      | Stops e \<Rightarrow> e = Exit EX_OSERR \<and> oom
      | Ok (first', r', err', n', h') \<Rightarrow> h' r' \<noteq> None \<and> (err' \<longrightarrow> err \<or> oom \<or> fst (snd (parse_lines regcomp ls n))) \<and>
          (\<exists>as' us. rule_seg h0 first' as' (rs @ us) None (h'(r' := None)) \<and>
            (\<not> err' \<longrightarrow> \<not> err \<and> parse_lines regcomp ls n = (us, False, n'))))"

lemma lines_ok_bad:
  "lines_ok oom h0 rs True regcomp ls n out \<Longrightarrow> oom \<or> fst (snd (parse_lines regcomp ls' n')) \<Longrightarrow> lines_ok oom h0 rs err regcomp ls' n' out"
  unfolding lines_ok_def by (auto split: outcome.splits)

lemma lines_ok_skip:
  "parseline regcomp l n = (No_rule, n) \<Longrightarrow> lines_ok oom h0 rs err regcomp ls n out \<Longrightarrow> lines_ok oom h0 rs err regcomp (l # ls) n out"
  unfolding lines_ok_def by (auto split: outcome.splits)

lemma lines_ok_rule:
  assumes pl: "parseline regcomp l n = (Rule_found x, n + 1)" and ok: "lines_ok oom h0 (rs @ [x]) err regcomp ls (n + 1) out"
  shows "lines_ok oom h0 rs err regcomp (l # ls) n out"
proof (cases out)
  case (Ok o1)
  obtain first' r' err' n' h' where o1: "o1 = (first', r', err', n', h')" by (metis prod_cases5)
  obtain us0 e0 n0 where us: "parse_lines regcomp ls (n + 1) = (us0, e0, n0)" by (metis prod_cases3)
  obtain as' us where "rule_seg h0 first' as' (rs @ x # us) None (h'(r' := None))" "\<not> err' \<longrightarrow> \<not> err \<and> (us0, e0, n0) = (us, False, n')"
    and "h' r' \<noteq> None" "err' \<longrightarrow> err \<or> oom \<or> e0"
    using ok us unfolding lines_ok_def Ok o1 by auto
  then show ?thesis unfolding lines_ok_def Ok o1 using pl us by (auto simp del: fun_upd_apply)
qed (use ok in \<open>simp_all add: lines_ok_def\<close>)

lemma parse_lines_h_ok:
  assumes fm: "fresh_malloc malloc" and "h r \<noteq> None" and "rule_seg h0 first as rs None (h(r := None))"
    and oom: "\<not> oom \<longrightarrow> finite (dom h0) \<and> \<not> out_of_memory malloc"
  shows "lines_ok oom h0 rs err regcomp ls n (parse_lines_h malloc regcomp ls first (link_of as) r err n h)"
  using assms(2, 3)
proof (induction ls arbitrary: h r first as rs err n)
  case Nil
  then show ?case by (simp add: lines_ok_def del: fun_upd_apply) (metis append_Nil2)
next
  case (Cons l ls)
  let ?h1 = "h(r \<mapsto> Node (zero_node n))"
  have "?h1 r \<noteq> None" "?h1(r := None) = h(r := None)" by simp_all
  then have IH: "lines_ok oom h0 rs e regcomp ls n (parse_lines_h malloc regcomp ls first (link_of as) r e n ?h1)" for e
    using Cons.IH [of ?h1 r first as rs e n] Cons.prems(2) by metis
  have fin: "oom \<or> finite (dom h) \<and> \<not> out_of_memory malloc"
  proof -
    have "dom h \<subseteq> insert r (dom (h(r := None)))" by auto
    then show ?thesis using oom rule_seg_finite [OF Cons.prems(2)] by (meson finite_insert finite_subset)
  qed
  have bad: ?case if "parseline_h malloc regcomp l r n h = Ok (-1, n, ?h1)" "oom \<or> fst (snd (parse_lines regcomp (l # ls) n))"
    using that lines_ok_bad [OF IH that(2)] by simp
  obtain pr n1 where pl: "parseline regcomp l n = (pr, n1)" by force
  show ?case
  proof (cases pr)
    case No_rule
    then have "parseline_h malloc regcomp l r n h = Ok (0, n, ?h1)" "parseline regcomp l n = (No_rule, n)"
      using Cons.prems(1) pl parseline_count(1) by (auto simp: parseline_h_def)
    then show ?thesis using lines_ok_skip [OF _ IH [of err]] by simp
  next
    case Parse_error
    then have "parseline_h malloc regcomp l r n h = Ok (-1, n, ?h1)" using Cons.prems(1) pl by (auto simp: parseline_h_def)
    moreover have "fst (snd (parse_lines regcomp (l # ls) n))" using Parse_error pl by (simp split: prod.splits)
    ultimately show ?thesis using bad by blast
  next
    case (Rule_found x)
    then have pl: "parseline regcomp l n = (Rule_found x, n + 1)" using parseline_count(3) [of regcomp l n x] pl by simp
    show ?thesis
    proof (rule parseline_h_rule [where h = h and r = r, OF fm Cons.prems(1) pl])
      fix nd
      assume ok: "parseline_h malloc regcomp l r n h = Ok (1, n + 1, h(r := None) ++ rule_cells r nd x)"
        and nd: "node_ok r nd x" "n_next nd = None" "dom (h(r := None)) \<inter> dom (rule_cells r nd x) = {}"
      obtain first1 h2 where sl: "store_link (link_of as) r first (h(r := None) ++ rule_cells r nd x) = Ok (first1, h2)"
        and seg: "rule_seg h0 first1 (as @ [r]) (rs @ [x]) None h2"
        by (rule store_link_grows [OF Cons.prems(2) nd])
      show ?thesis
      proof (rule new_rule_cases [OF fm, of h2])
        fix r1
        assume nr: "new_rule malloc h2 = Ok (r1, h2(r1 \<mapsto> Node (zero_node 0)))" and r1: "h2 r1 = None"
        let ?h3 = "h2(r1 \<mapsto> Node (zero_node 0))"
        have "?h3 r1 \<noteq> None" "?h3(r1 := None) = h2" using r1 by auto
        then have "lines_ok oom h0 (rs @ [x]) err regcomp ls (n + 1) (parse_lines_h malloc regcomp ls first1 (Next_of r) r1 err (n + 1) ?h3)"
          using Cons.IH [of ?h3 r1 first1 "as @ [r]" "rs @ [x]" err "n + 1"] seg by (simp add: link_of_def del: fun_upd_apply)
        from lines_ok_rule [OF pl this] show ?thesis using ok sl nr by simp
      next
        assume "new_rule malloc h2 = Stops (Exit EX_OSERR)" "malloc (dom h2) = None"
        then show ?thesis using ok sl oom out_of_memoryI rule_seg_finite [OF seg] by (auto simp: lines_ok_def)
      qed
    qed (use bad fin in \<open>auto simp: lines_ok_def\<close>)
  qed
qed

lemma parserulefile_h_ok:
  assumes fm: "fresh_malloc malloc"
  shows "case parserulefile_h malloc regcomp body n h0 of
      Faults \<Rightarrow> False
    | Stops e \<Rightarrow> (e = Exit EX_OSERR \<or> e = Exit EX_CONFIG) \<and>
        (finite (dom h0) \<and> \<not> out_of_memory malloc \<longrightarrow> parserulefile regcomp body n = None)
    | Ok (p, n', h) \<Rightarrow> (\<exists>as rs. parserulefile regcomp body n = Some (rs, n') \<and> rule_seg h0 p as rs None h)"
proof (rule new_rule_cases [OF fm, of h0])
  fix r
  let ?ls = "fgets_loop (MAXLINE - 1) [] body" let ?h = "h0(r \<mapsto> Node (zero_node 0))"
  assume nr: "new_rule malloc h0 = Ok (r, ?h)" and r: "h0 r = None"
  let ?out = "parse_lines_h malloc regcomp ?ls None First_rule r False n ?h"
  let ?oom = "\<not> (finite (dom h0) \<and> \<not> out_of_memory malloc)"
  have "?h(r := None) = h0" using r by auto
  then have "rule_seg h0 None [] [] None (?h(r := None))" by simp
  from parse_lines_h_ok [OF fm _ this, of ?oom] have "lines_ok ?oom h0 [] False regcomp ?ls n ?out" by (simp add: link_of_def)
  then show ?thesis using nr
    by (auto simp: parserulefile_h_def parserulefile_def lines_ok_def free_cell_def split: outcome.splits if_splits prod.splits)
next
  assume "new_rule malloc h0 = Stops (Exit EX_OSERR)" "malloc (dom h0) = None"
  then show ?thesis using out_of_memoryI by (auto simp: parserulefile_h_def)
qed

subsection \<open>Reloading\<close>

text \<open>What the reloads read, without a store.\<close>

fun reload_rules :: "(string \<Rightarrow> bool \<Rightarrow> 'rx option) \<Rightarrow> string list \<Rightarrow> 'rx rule list \<Rightarrow> int \<Rightarrow> ('rx rule list \<times> int) option" where
  "reload_rules regcomp [] rules n = Some (rules, n)"
| "reload_rules regcomp (t # ts) rules n =
     (case parserulefile regcomp t n of None \<Rightarrow> None | Some (rules1, n1) \<Rightarrow> reload_rules regcomp ts rules1 n1)"

lemma reloads_h_ok:
  assumes "fresh_malloc malloc" and "rule_seg h0 p as rules None h"
  shows "case reloads_h malloc regcomp texts p n h of
      None \<Rightarrow> False
    | Some Faults \<Rightarrow> False
    | Some (Stops e) \<Rightarrow> (e = Exit EX_OSERR \<or> e = Exit EX_CONFIG) \<and>
        (finite (dom h0) \<and> \<not> out_of_memory malloc \<longrightarrow> reload_rules regcomp texts rules n = None)
    | Some (Ok (p', n', h')) \<Rightarrow>
        (\<exists>as' rules'. reload_rules regcomp texts rules n = Some (rules', n') \<and> rule_seg h0 p' as' rules' None h')"
  using assms(2)
proof (induction texts arbitrary: p as rules n h)
  case (Cons t ts)
  note fr = freerules_frees [OF Cons.prems] and pf = parserulefile_h_ok [OF assms(1), of regcomp t n h0]
  show ?case
  proof (cases "parserulefile_h malloc regcomp t n h0")
    case (Ok o1)
    then obtain p1 n1 h1 as1 rs1 where o1: "o1 = (p1, n1, h1)" "parserulefile regcomp t n = Some (rs1, n1)" "rule_seg h0 p1 as1 rs1 None h1"
      using pf by (cases o1) auto
    then show ?thesis using Cons.IH [OF o1(3), of n1] fr Ok by (auto split: option.splits outcome.splits)
  qed (use fr pf in simp_all)
qed auto

text \<open>
  C8. The rule list in memory. However often the map file is read again, whatever it contains and
  wherever \<open>malloc\<close> fails, the server never reads or frees memory that is not allocated, and
  \<open>freerules\<close> always ends. It stops only for lack of memory or a bad file; otherwise the linked list is the
  list of rules the last file has, and freeing it leaves the store exactly as it was before the
  first one was read: nothing is lost and nothing else is touched.
\<close>

theorem reload_no_leak:
  assumes "fresh_malloc malloc" and "parserulefile_h malloc regcomp body n h0 = Ok (p, n1, h)"
  shows "case reloads_h malloc regcomp texts p n1 h of
      None \<Rightarrow> False
    | Some Faults \<Rightarrow> False
    | Some (Stops e) \<Rightarrow> (e = Exit EX_OSERR \<or> e = Exit EX_CONFIG) \<and>
        (finite (dom h0) \<and> \<not> out_of_memory malloc \<longrightarrow> reload_rules regcomp (body # texts) [] n = None)
    | Some (Ok (p', n', h')) \<Rightarrow> freerules_h p' h' = Some (Ok h0) \<and>
        (\<exists>as' rules'. reload_rules regcomp (body # texts) [] n = Some (rules', n') \<and> rule_seg h0 p' as' rules' None h')"
proof -
  obtain as rs where pf: "parserulefile regcomp body n = Some (rs, n1)" and seg: "rule_seg h0 p as rs None h"
    using parserulefile_h_ok [OF assms(1), of regcomp body n h0] assms(2) by auto
  from reloads_h_ok [OF assms(1) seg, of regcomp texts n1] show ?thesis
    using pf by (auto split: option.splits outcome.splits dest: freerules_frees)
qed

text \<open>Four cells are enough to read and read again a file with one rule that has a pattern.\<close>

definition ex_compile :: "string \<Rightarrow> bool \<Rightarrow> string option" where
  "ex_compile s icase = Some s"

definition ex_rule_heap :: "int \<Rightarrow> string heap" where
  "ex_rule_heap n = [2 \<mapsto> Rx ''a'', 3 \<mapsto> Str ''b'',
     1 \<mapsto> Node \<lparr>n_nrule = n, n_flags = 3, n_mode = NUL, n_rx = Some 2, n_pattern = Heap_str 3, n_next = None\<rparr>]"

lemma ex_read_rules: "parserulefile_h ex_malloc ex_compile ''rg a b'' n Map.empty = Ok (Some 1, n + 1, ex_rule_heap n)"
  by (auto simp: parserulefile_h_def parseline_h_def parseline_def readescstring_def isspace_def rule_flag_defs c_line_def new_rule_def
    new_string_def tfmalloc_def tfstrdup_def ex_malloc_def ex_compile_def ex_rule_heap_def free_cell_def)

lemma ex_free_rules: "freerules_h (Some 1) (ex_rule_heap n) = Some (Ok Map.empty)"
  by (auto simp: freerules_h.simps free_rule_def free_cell_def ex_rule_heap_def)

theorem reload_no_leak_witness:
  "reloads_h ex_malloc ex_compile [''rg a b''] (Some 1) 1 (ex_rule_heap 0) = Some (Ok (Some 1, 2, ex_rule_heap 1)) \<and>
   (\<exists>as' rules'. reload_rules ex_compile [''rg a b'', ''rg a b''] [] 0 = Some (rules', 2) \<and>
      rule_seg Map.empty (Some 1) as' rules' None (ex_rule_heap 1))"
proof -
  have r: "reloads_h ex_malloc ex_compile [''rg a b''] (Some 1) 1 (ex_rule_heap 0) = Some (Ok (Some 1, 2, ex_rule_heap 1))"
    by (simp add: ex_free_rules ex_read_rules del: One_nat_def)
  have "parserulefile_h ex_malloc ex_compile ''rg a b'' 0 Map.empty = Ok (Some 1, 1, ex_rule_heap 0)" by (simp add: ex_read_rules del: One_nat_def)
  from reload_no_leak [OF ex_malloc_fresh this, of "[''rg a b'']"] show ?thesis
    unfolding r by (simp del: rule_seg.simps reload_rules.simps One_nat_def)
qed

end
