(* ===== verification/AddrHeap.thy ===== *)
theory AddrHeap
  imports NetAddr Store
begin

text \<open>
  The results of name resolution in memory: what \<open>getaddrinfo\<close> (\<open>lib/getaddrinfo.c\<close>) allocates, how
  \<open>set_sock_addr\<close> (\<open>common/tftpsubs.c\<close>) reads it, and how \<open>freeaddrinfo\<close> releases it, on the explicit
  store of \<open>Store\<close>. The functions of \<open>NetAddr\<close> say the same without a store. A cell of the store holds
  one object, whatever its size, and \<open>h_length\<close> is the length that belongs to the address family or 0: which
  cells are allocated, linked and freed is shown, not that each is large enough.
\<close>

subsection \<open>The structures\<close>

record ai_node =
  an_family :: int
  an_addr :: "nat option"
  an_canonname :: "nat option"
  an_next :: "nat option"

datatype ai_cell = Ai ai_node | Sa sock_addr | Name string

type_synonym ai_store = "ai_cell store"

text \<open>
  \<open>freeaddrinfo\<close>: the rest of the list first, then the parts of this element. \<open>res\<close> is read again
  after the rest is released. \<open>None\<close> is a list without end.
\<close>

definition free_addrinfo :: "nat \<Rightarrow> ai_store \<Rightarrow> ai_store outcome" where
  "free_addrinfo a h =
     (case h a of
        Some (Ai nd) \<Rightarrow>
          and_then (free_opt (an_addr nd) h) (\<lambda>h1. and_then (free_opt (an_canonname nd) h1) (free_cell a))
      | _ \<Rightarrow> Faults)"

partial_function (option) freeaddrinfo :: "nat option \<Rightarrow> ai_store \<Rightarrow> ai_store outcome option" where
  "freeaddrinfo res h =
     (case res of
        None \<Rightarrow> Some (Ok h)
      | Some a \<Rightarrow>
          (case h a of
             Some (Ai nd) \<Rightarrow> Option.bind (freeaddrinfo (an_next nd) h) (\<lambda>r. Some (and_then r (free_addrinfo a)))
           | _ \<Rightarrow> Some Faults))"

text \<open>
  \<open>getaddrinfo\<close>: the error code, \<open>*res\<close> and the store. The node and hints are given and the service
  is not, as in the only call. The name is set last; without memory for it there is none.
\<close>

definition set_canonname :: "malloc_fun \<Rightarrow> string option \<Rightarrow> nat \<Rightarrow> ai_node \<Rightarrow> ai_store \<Rightarrow> ai_store" where
  "set_canonname malloc hname r nd h =
     (case hname of
        None \<Rightarrow> h
      | Some s \<Rightarrow>
          (case malloc (dom h) of
             None \<Rightarrow> h
           | Some c \<Rightarrow> h(c \<mapsto> Name s, r \<mapsto> Ai (nd\<lparr>an_canonname := Some c\<rparr>))))"

definition host_addr :: "hostent \<Rightarrow> sock_addr" where
  "host_addr host =
     (let sa = zero_addr (h_addrtype host)
      in if h_addrtype host = AF_INET then sa\<lparr>sin_addr := h_addr4 host\<rparr> else sa\<lparr>sin6_addr := h_addr6 host\<rparr>)"

definition getaddrinfo_h ::
  "malloc_fun \<Rightarrow> (string \<Rightarrow> hostent option) \<Rightarrow> string \<Rightarrow> int \<Rightarrow> ai_store \<Rightarrow> (int \<times> nat option \<times> ai_store) outcome" where
  "getaddrinfo_h malloc gethostbyname node family h =
     (case gethostbyname node of
        None \<Rightarrow> Ok (EAI_NONAME, None, h)
      | Some host \<Rightarrow>
     (if family \<noteq> AF_UNSPEC \<and> family \<noteq> h_addrtype host then Ok (EAI_ADDRFAMILY, None, h)
      else case malloc (dom h) of
        None \<Rightarrow> Ok (EAI_MEMORY, None, h)
      | Some r \<Rightarrow>
     (let nd = \<lparr>an_family = h_addrtype host, an_addr = None, an_canonname = None, an_next = None\<rparr>;
          h1 = h(r \<mapsto> Ai nd)
      in if h_length host = 0 then Ok (0, Some r, set_canonname malloc (h_name host) r nd h1)
         else if h_addrtype host \<noteq> AF_INET \<and> h_addrtype host \<noteq> AF_INET6
         then and_then (free_cell r h1) (\<lambda>h2. Ok (EAI_ADDRFAMILY, None, h2))
         else case malloc (dom h1) of
                None \<Rightarrow> and_then (free_cell r h1) (\<lambda>h2. Ok (EAI_MEMORY, None, h2))
              | Some b \<Rightarrow>
                  let nd1 = nd\<lparr>an_addr := Some b\<rparr>
                  in Ok (0, Some r, set_canonname malloc (h_name host) r nd1 (h1(b \<mapsto> Sa (host_addr host), r \<mapsto> Ai nd1))))))"

text \<open>
  \<open>set_sock_addr\<close>: the error code, \<open>*s\<close>, the address of the copy of the name if \<open>name\<close> is given, and
  the store. \<open>xstrdup\<close> exits when there is no memory.
\<close>

definition copy_name :: "malloc_fun \<Rightarrow> string \<Rightarrow> ai_store \<Rightarrow> (nat option \<times> ai_store) outcome" where
  "copy_name malloc s h =
     (case xstrdup (\<lambda>_. malloc (dom h)) s of Inl e \<Rightarrow> Stops e | Inr a \<Rightarrow> Ok (Some a, h(a \<mapsto> Name s)))"

definition set_sock_addr_h ::
  "malloc_fun \<Rightarrow> (string \<Rightarrow> hostent option) \<Rightarrow> string \<Rightarrow> sock_addr \<Rightarrow> bool \<Rightarrow> ai_store \<Rightarrow>
     (int \<times> sock_addr \<times> nat option \<times> ai_store) outcome option" where
  "set_sock_addr_h malloc db host s name h =
     (case getaddrinfo_h malloc db (fst (strip_address host)) (sa_family s) h of
        Stops e \<Rightarrow> Some (Stops e)
      | Faults \<Rightarrow> Some Faults
      | Ok (err, res, h1) \<Rightarrow>
          if err \<noteq> 0 then Some (Ok (err, s, None, h1))
          else case res of
                 None \<Rightarrow> Some (Ok (EAI_NONAME, s, None, h1))
               | Some r \<Rightarrow>
                   (case h1 r of
                      Some (Ai nd) \<Rightarrow>
                        (case and_then
                                (case an_addr nd of
                                   None \<Rightarrow> Ok s
                                 | Some b \<Rightarrow> (case h1 b of Some (Sa sa) \<Rightarrow> Ok sa | _ \<Rightarrow> Faults)) (\<lambda>s1.
                              and_then
                                (if \<not> name then Ok (None, h1)
                                 else case an_canonname nd of
                                        None \<Rightarrow> copy_name malloc (snd (strip_address host)) h1
                                      | Some c \<Rightarrow> (case h1 c of Some (Name n) \<Rightarrow> copy_name malloc n h1 | _ \<Rightarrow> Faults)) (\<lambda>(nm, h2).
                              Ok (s1, nm, h2))) of
                           Ok (s1, nm, h2) \<Rightarrow>
                             map_option (\<lambda>fr. and_then fr (\<lambda>h3. Ok (0, s1, nm, h3))) (freeaddrinfo (Some r) h2)
                         | Stops e \<Rightarrow> Some (Stops e)
                         | Faults \<Rightarrow> Some Faults)
                    | _ \<Rightarrow> Some Faults))"

subsection \<open>Lists in the store\<close>

definition ai_ok :: "nat \<Rightarrow> ai_node \<Rightarrow> addrinfo \<Rightarrow> bool" where
  "ai_ok a nd r = (an_family nd = ai_family r \<and> an_addr nd \<noteq> Some a \<and> an_canonname nd \<noteq> Some a \<and>
     (an_addr nd = None \<or> an_addr nd \<noteq> an_canonname nd) \<and>
     (an_addr nd = None \<longleftrightarrow> ai_addr r = None) \<and> (an_canonname nd = None \<longleftrightarrow> ai_canonname r = None))"

definition ai_cells :: "nat \<Rightarrow> ai_node \<Rightarrow> addrinfo \<Rightarrow> ai_store" where
  "ai_cells a nd r =
     ((case an_canonname nd of None \<Rightarrow> Map.empty | Some c \<Rightarrow> [c \<mapsto> Name (the (ai_canonname r))]) ++
      (case an_addr nd of None \<Rightarrow> Map.empty | Some b \<Rightarrow> [b \<mapsto> Sa (the (ai_addr r))]))(a \<mapsto> Ai nd)"

fun ai_list :: "ai_store \<Rightarrow> nat option \<Rightarrow> addrinfo list \<Rightarrow> ai_store \<Rightarrow> bool" where
  "ai_list h0 p [] h = (p = None \<and> h = h0)"
| "ai_list h0 p (r # rs) h =
     (\<exists>a nd h1. p = Some a \<and> ai_ok a nd r \<and> ai_list h0 (an_next nd) rs h1 \<and>
        dom h1 \<inter> dom (ai_cells a nd r) = {} \<and> h = h1 ++ ai_cells a nd r)"

lemma ai_list_frame: "ai_list h0 p rs h \<Longrightarrow> dom h \<inter> dom c = {} \<Longrightarrow> ai_list (h0 ++ c) p rs (h ++ c)"
proof (induction rs arbitrary: p h)
  case (Cons r rs)
  then obtain a nd h1 where a: "p = Some a" "ai_ok a nd r" "ai_list h0 (an_next nd) rs h1"
    "dom h1 \<inter> dom (ai_cells a nd r) = {}" "h = h1 ++ ai_cells a nd r" by auto
  have d: "dom h1 \<inter> dom c = {}" "dom (ai_cells a nd r) \<inter> dom c = {}" using a(5) Cons.prems(2) by auto
  have "h ++ c = (h1 ++ c) ++ ai_cells a nd r" using map_add_comm [OF d(2)] a(5) by (metis map_add_assoc)
  moreover have "dom (h1 ++ c) \<inter> dom (ai_cells a nd r) = {}" using a(4) d(2) by auto
  ultimately show ?case using a Cons.IH [OF a(3) d(1)] by auto
qed simp

lemma ai_list_dom: "ai_list h0 p rs h \<Longrightarrow> dom h0 \<subseteq> dom h"
  by (induction rs arbitrary: p h) fastforce+

text \<open>Releasing one element, and a list: exactly its cells go.\<close>

lemma free_addrinfo_cells:
  assumes ok: "ai_ok a nd r" and d: "dom h \<inter> dom (ai_cells a nd r) = {}"
  shows "free_addrinfo a (h ++ ai_cells a nd r) = Ok h"
proof -
  let ?h = "h ++ ai_cells a nd r"
  have at: "?h a = Some (Ai nd)" by (simp add: ai_cells_def)
  have fresh: "h x = None" if "ai_cells a nd r x \<noteq> None" for x using d that by (auto simp: dom_def)
  then have "h a = None" "\<And>b. an_addr nd = Some b \<Longrightarrow> h b = None" "\<And>c. an_canonname nd = Some c \<Longrightarrow> h c = None"
    using ok by (auto simp: ai_cells_def ai_ok_def map_add_def split: option.splits)
  then show ?thesis using ok at
    by (cases "an_addr nd"; cases "an_canonname nd")
       (auto simp: free_addrinfo_def free_opt_def free_cell_def ai_ok_def ai_cells_def fun_eq_iff map_add_def split: option.splits)
qed

lemma freeaddrinfo_frees: "ai_list h0 p rs h \<Longrightarrow> freeaddrinfo p h = Some (Ok h0)"
proof (induction rs arbitrary: p h h0)
  case Nil
  then show ?case by (simp add: freeaddrinfo.simps)
next
  case (Cons r rs)
  then obtain a nd h1 where a: "p = Some a" "ai_ok a nd r" "ai_list h0 (an_next nd) rs h1"
    "dom h1 \<inter> dom (ai_cells a nd r) = {}" "h = h1 ++ ai_cells a nd r" by auto
  have "freeaddrinfo (an_next nd) h = Some (Ok (h0 ++ ai_cells a nd r))"
    using Cons.IH [OF ai_list_frame [OF a(3, 4)]] a(5) by simp
  moreover have "dom h0 \<inter> dom (ai_cells a nd r) = {}" using a(4) ai_list_dom [OF a(3)] by blast
  moreover have "h a = Some (Ai nd)" using a(5) by (simp add: ai_cells_def)
  ultimately show ?case using a(1) free_addrinfo_cells [OF a(2)] by (subst freeaddrinfo.simps) simp
qed

subsection \<open>Resolving and releasing\<close>

lemma ai_listI:
  "ai_ok a nd r \<Longrightarrow> an_next nd = None \<Longrightarrow> dom h \<inter> dom (ai_cells a nd r) = {} \<Longrightarrow> h1 = h ++ ai_cells a nd r \<Longrightarrow> ai_list h (Some a) [r] h1"
  by auto

lemma set_canonname_list:
  assumes fm: "fresh_malloc malloc" and ok: "ai_ok r nd ai" "an_canonname nd = None" "an_next nd = None"
    and d: "dom h \<inter> dom (ai_cells r nd ai) = {}" and h1: "h1 = h ++ ai_cells r nd ai"
  shows "\<exists>m3. ai_list h (Some r) [ai\<lparr>ai_canonname := (if m3 then hname else None)\<rparr>] (set_canonname malloc hname r nd h1) \<and>
    (finite (dom h1) \<and> \<not> out_of_memory malloc \<longrightarrow> m3)"
proof -
  have none: "ai\<lparr>ai_canonname := None\<rparr> = ai" using ok by (cases ai) (simp add: ai_ok_def)
  have plain: "ai_list h (Some r) [ai] h1" using ok d h1 by auto
  show ?thesis
  proof (cases "hname = None \<or> malloc (dom h1) = None")
    case True
    then have "set_canonname malloc hname r nd h1 = h1" by (auto simp: set_canonname_def split: option.splits)
    then show ?thesis using plain none True out_of_memoryI [of malloc h1]
      by (intro exI [of _ "malloc (dom h1) \<noteq> None"]) (auto simp del: ai_list.simps)
  next
    case False
    then obtain s c where sc: "hname = Some s" "malloc (dom h1) = Some c" by auto
    then have c: "h1 c = None" using fresh_dom [OF fm] by blast
    then have cr: "c \<noteq> r" "h c = None" "an_addr nd \<noteq> Some c" using ok h1 d
      by (auto simp: ai_cells_def ai_ok_def map_add_def split: option.splits)
    let ?nd = "nd\<lparr>an_canonname := Some c\<rparr>" and ?ai = "ai\<lparr>ai_canonname := Some s\<rparr>"
    have cells: "ai_cells r ?nd ?ai = (ai_cells r nd ai)(c \<mapsto> Name s, r \<mapsto> Ai ?nd)"
      using cr ok by (auto simp: ai_cells_def fun_eq_iff map_add_def split: option.splits)
    have "ai_list h (Some r) [?ai] (h1(c \<mapsto> Name s, r \<mapsto> Ai ?nd))"
    proof (rule ai_listI)
      show "ai_ok r ?nd ?ai" using ok cr by (auto simp: ai_ok_def)
      show "dom h \<inter> dom (ai_cells r ?nd ?ai) = {}" using d cr unfolding cells by (auto simp: ai_cells_def)
    qed (use ok cells h1 in simp_all)
    then show ?thesis using sc by (intro exI [of _ True]) (simp add: set_canonname_def del: ai_list.simps)
  qed
qed

text \<open>What \<open>getaddrinfo\<close> builds is what it says, and it leaves nothing behind when it fails.\<close>

definition gai_refines :: "malloc_fun \<Rightarrow> (string \<Rightarrow> hostent option) \<Rightarrow> string \<Rightarrow> int \<Rightarrow> ai_store \<Rightarrow> bool \<Rightarrow> bool \<Rightarrow> bool \<Rightarrow> bool" where
  "gai_refines malloc db node family h m1 m2 m3 =
     (case getaddrinfo db m1 m2 m3 (Some node) None (Some family) of
        (err, None) \<Rightarrow> err \<noteq> 0 \<and> getaddrinfo_h malloc db node family h = Ok (err, None, h)
      | (err, Some ai) \<Rightarrow> err = 0 \<and> (\<exists>res h1. getaddrinfo_h malloc db node family h = Ok (0, res, h1) \<and> ai_list h res [ai] h1))"

lemma getaddrinfo_h_refines:
  assumes fm: "fresh_malloc malloc"
  shows "\<exists>m1 m2 m3. gai_refines malloc db node family h m1 m2 m3 \<and> (finite (dom h) \<and> \<not> out_of_memory malloc \<longrightarrow> m1 \<and> m2 \<and> m3)"
proof (cases "\<exists>host r. db node = Some host \<and> \<not> (family \<noteq> AF_UNSPEC \<and> family \<noteq> h_addrtype host) \<and> malloc (dom h) = Some r")
  case False
  then have "gai_refines malloc db node family h (malloc (dom h) \<noteq> None) True True"
    by (auto simp: gai_refines_def getaddrinfo_def getaddrinfo_h_def split: option.splits)
  then show ?thesis using out_of_memoryI [of malloc h] by blast
next
  case True
  then obtain host r where host: "db node = Some host" "\<not> (family \<noteq> AF_UNSPEC \<and> family \<noteq> h_addrtype host)" and r: "malloc (dom h) = Some r" by blast
  have hr: "h r = None" using fresh_dom [OF fm r] .
  let ?nd = "\<lparr>an_family = h_addrtype host, an_addr = None, an_canonname = None, an_next = None\<rparr>"
  let ?h1 = "h(r \<mapsto> Ai ?nd)" and ?ai = "\<lparr>ai_family = h_addrtype host, ai_addr = None, ai_canonname = None\<rparr>"
  have undo: "(h(r \<mapsto> Ai x))(r := None) = h" for x using hr by auto
  consider (none) "h_length host = 0" | (family) "h_length host \<noteq> 0" "h_addrtype host \<noteq> AF_INET \<and> h_addrtype host \<noteq> AF_INET6"
    | (memory) "h_length host \<noteq> 0" "\<not> (h_addrtype host \<noteq> AF_INET \<and> h_addrtype host \<noteq> AF_INET6)" "malloc (dom ?h1) = None"
    | (address) b where "h_length host \<noteq> 0" "\<not> (h_addrtype host \<noteq> AF_INET \<and> h_addrtype host \<noteq> AF_INET6)" "malloc (dom ?h1) = Some b"
    by (cases "malloc (dom ?h1)") blast+
  then show ?thesis
  proof cases
    case none
    have "ai_ok r ?nd ?ai" "dom h \<inter> dom (ai_cells r ?nd ?ai) = {}" "?h1 = h ++ ai_cells r ?nd ?ai"
      using hr by (auto simp: ai_ok_def ai_cells_def)
    from set_canonname_list [OF fm this(1) _ _ this(2, 3), of "h_name host"] obtain m3 where
      "ai_list h (Some r) [?ai\<lparr>ai_canonname := (if m3 then h_name host else None)\<rparr>] (set_canonname malloc (h_name host) r ?nd ?h1)"
      "finite (dom h) \<and> \<not> out_of_memory malloc \<longrightarrow> m3" by auto
    moreover from this(1) have "gai_refines malloc db node family h True True m3" using host r none
      by (simp add: gai_refines_def getaddrinfo_def getaddrinfo_h_def Let_def del: ai_list.simps)
    ultimately show ?thesis by blast
  next
    case family
    then have "gai_refines malloc db node family h True True True" using host r undo
      by (auto simp: gai_refines_def getaddrinfo_def getaddrinfo_h_def free_cell_def)
    then show ?thesis by blast
  next
    case memory
    then have "gai_refines malloc db node family h True False True" using host r undo
      by (auto simp: gai_refines_def getaddrinfo_def getaddrinfo_h_def free_cell_def)
    then show ?thesis using out_of_memoryI [of malloc ?h1] memory(3) by auto
  next
    case (address b)
    then have b: "b \<noteq> r" "h b = None" using fresh_dom [OF fm address(3)] by (auto split: if_splits)
    let ?nd1 = "?nd\<lparr>an_addr := Some b\<rparr>" and ?ai1 = "?ai\<lparr>ai_addr := Some (host_addr host)\<rparr>"
    let ?h2 = "?h1(b \<mapsto> Sa (host_addr host), r \<mapsto> Ai ?nd1)"
    have "ai_ok r ?nd1 ?ai1" "dom h \<inter> dom (ai_cells r ?nd1 ?ai1) = {}" "?h2 = h ++ ai_cells r ?nd1 ?ai1"
      using hr b by (auto simp: ai_ok_def ai_cells_def)
    from set_canonname_list [OF fm this(1) _ _ this(2, 3), of "h_name host"] obtain m3 where
      "ai_list h (Some r) [?ai1\<lparr>ai_canonname := (if m3 then h_name host else None)\<rparr>] (set_canonname malloc (h_name host) r ?nd1 ?h2)"
      "finite (dom h) \<and> \<not> out_of_memory malloc \<longrightarrow> m3" by auto
    moreover from this(1) have "gai_refines malloc db node family h True True m3" using host r address
      by (auto simp: gai_refines_def getaddrinfo_def getaddrinfo_h_def Let_def host_addr_def simp del: ai_list.simps)
    ultimately show ?thesis by blast
  qed
qed

text \<open>Reading the only element of a list, and releasing the list with a copied name beside it.\<close>

lemma ai_list_reads:
  assumes "ai_list h res [ai] h1"
  obtains a nd where "res = Some a" "h1 a = Some (Ai nd)" "an_addr nd = None \<longleftrightarrow> ai_addr ai = None"
    "\<And>b. an_addr nd = Some b \<Longrightarrow> h1 b = Some (Sa (the (ai_addr ai)))"
    "an_canonname nd = None \<longleftrightarrow> ai_canonname ai = None"
    "\<And>c. an_canonname nd = Some c \<Longrightarrow> h1 c = Some (Name (the (ai_canonname ai)))"
proof -
  obtain a nd where a: "res = Some a" "ai_ok a nd ai" "h1 = h ++ ai_cells a nd ai" using assms by auto
  have "h1 a = Some (Ai nd)" "\<And>b. an_addr nd = Some b \<Longrightarrow> h1 b = Some (Sa (the (ai_addr ai)))"
    "\<And>c. an_canonname nd = Some c \<Longrightarrow> h1 c = Some (Name (the (ai_canonname ai)))"
    using a(2) unfolding a(3) by (auto simp: ai_cells_def ai_ok_def map_add_def split: option.splits)
  moreover have "an_addr nd = None \<longleftrightarrow> ai_addr ai = None" "an_canonname nd = None \<longleftrightarrow> ai_canonname ai = None"
    using a(2) by (simp_all add: ai_ok_def)
  ultimately show thesis by (intro that [OF a(1)])
qed

lemma freeaddrinfo_beside:
  assumes "ai_list h res [ai] h1" and "h1 c = None"
  shows "freeaddrinfo res (h1(c \<mapsto> v)) = Some (Ok (h(c \<mapsto> v)))"
  using freeaddrinfo_frees [OF ai_list_frame [OF assms(1), of "[c \<mapsto> v]"]] assms(2) by (simp add: domIff)

lemma ai_list_finite: "ai_list h p rs h1 \<Longrightarrow> finite (dom h) \<Longrightarrow> finite (dom h1)"
proof (induction rs arbitrary: p h1)
  case (Cons r rs)
  have "finite (dom (ai_cells a nd r))" for a nd by (auto simp: ai_cells_def split: option.splits)
  then show ?case using Cons by auto
qed simp

lemma set_sock_addr_read:
  assumes gh: "getaddrinfo_h malloc db (fst (strip_address host)) (sa_family s) h = Ok (0, res, h1)" and l: "ai_list h res [ai] h1"
  shows "set_sock_addr_h malloc db host s name h =
    (case (if name then copy_name malloc (case ai_canonname ai of Some n \<Rightarrow> n | None \<Rightarrow> snd (strip_address host)) h1
           else Ok (None, h1)) of
       Ok (nm, h2) \<Rightarrow> map_option (\<lambda>fr. and_then fr (\<lambda>h3. Ok (0, (case ai_addr ai of None \<Rightarrow> s | Some a \<Rightarrow> a), nm, h3))) (freeaddrinfo res h2)
     | Stops e \<Rightarrow> Some (Stops e) | Faults \<Rightarrow> Some Faults)"
  using l
proof (rule ai_list_reads)
  fix a nd
  assume a: "res = Some a" "h1 a = Some (Ai nd)" "an_addr nd = None \<longleftrightarrow> ai_addr ai = None"
    "\<And>b. an_addr nd = Some b \<Longrightarrow> h1 b = Some (Sa (the (ai_addr ai)))" "an_canonname nd = None \<longleftrightarrow> ai_canonname ai = None"
    "\<And>c. an_canonname nd = Some c \<Longrightarrow> h1 c = Some (Name (the (ai_canonname ai)))"
  have "(case an_addr nd of None \<Rightarrow> Ok s | Some b \<Rightarrow> (case h1 b of Some (Sa sa) \<Rightarrow> Ok sa | _ \<Rightarrow> Faults)) =
      Ok (case ai_addr ai of None \<Rightarrow> s | Some a \<Rightarrow> a)"
    using a(3, 4) by (cases "an_addr nd"; cases "ai_addr ai") simp_all
  moreover have "(case an_canonname nd of None \<Rightarrow> copy_name malloc (snd (strip_address host)) h1
      | Some c \<Rightarrow> (case h1 c of Some (Name n) \<Rightarrow> copy_name malloc n h1 | _ \<Rightarrow> Faults)) =
      copy_name malloc (case ai_canonname ai of Some n \<Rightarrow> n | None \<Rightarrow> snd (strip_address host)) h1"
    using a(5, 6) by (cases "an_canonname nd"; cases "ai_canonname ai") simp_all
  ultimately show ?thesis using gh a(1, 2)
    by (cases "copy_name malloc (case ai_canonname ai of Some n \<Rightarrow> n | None \<Rightarrow> snd (strip_address host)) h1")
       (auto simp: set_sock_addr_h_def)
qed

text \<open>
  C10. Memory of name resolution. Whatever the host database says and wherever \<open>malloc\<close> fails,
  \<open>set_sock_addr\<close> returns or exits with status 128, without reading or releasing memory that is not
  allocated; it computes what \<open>NetAddr\<close> says (for some answers of \<open>malloc\<close>, all of them positive if memory
  never runs out); and every cell it has allocated is released again, except the copy of the name
  that the caller asked for.
\<close>

theorem set_sock_addr_no_leak:
  assumes fm: "fresh_malloc malloc"
  shows "\<exists>out m1 m2 m3. set_sock_addr_h malloc db host s name h = Some out \<and>
    (finite (dom h) \<and> \<not> out_of_memory malloc \<longrightarrow> m1 \<and> m2 \<and> m3) \<and>
    (case out of
       Faults \<Rightarrow> False
     | Stops e \<Rightarrow> e = Exit 128 \<and> name \<and> (finite (dom h) \<longrightarrow> out_of_memory malloc)
     | Ok (err, s1, nm, h1) \<Rightarrow>
         (\<exists>n0. set_sock_addr (getaddrinfo db m1 m2 m3) host s = (err, s1, n0) \<and>
           (case nm of None \<Rightarrow> h1 = h \<and> \<not> (name \<and> err = 0)
            | Some a \<Rightarrow> name \<and> err = 0 \<and> h a = None \<and> h1 = h(a \<mapsto> Name (the n0)))))"
proof -
  let ?node = "fst (strip_address host)"
  obtain m1 m2 m3 where ref: "gai_refines malloc db ?node (sa_family s) h m1 m2 m3"
    and mem: "finite (dom h) \<and> \<not> out_of_memory malloc \<longrightarrow> m1 \<and> m2 \<and> m3"
    using getaddrinfo_h_refines [OF fm] by blast
  obtain err r where g: "getaddrinfo db m1 m2 m3 (Some ?node) None (Some (sa_family s)) = (err, r)" by force
  show ?thesis
  proof (cases r)
    case None
    then have "err \<noteq> 0" "getaddrinfo_h malloc db ?node (sa_family s) h = Ok (err, None, h)" using ref g by (auto simp: gai_refines_def)
    then have "set_sock_addr_h malloc db host s name h = Some (Ok (err, s, None, h))"
      "set_sock_addr (getaddrinfo db m1 m2 m3) host s = (err, s, None)" using g by (simp_all add: set_sock_addr_h_def set_sock_addr_def)
    then show ?thesis using mem \<open>err \<noteq> 0\<close> by fastforce
  next
    case (Some ai)
    then obtain res h1 where gh: "err = 0" "getaddrinfo_h malloc db ?node (sa_family s) h = Ok (0, res, h1)" and l: "ai_list h res [ai] h1"
      using ref g by (auto simp: gai_refines_def simp del: ai_list.simps)
    let ?s1 = "case ai_addr ai of None \<Rightarrow> s | Some a \<Rightarrow> a"
    let ?n = "case ai_canonname ai of Some n \<Rightarrow> n | None \<Rightarrow> snd (strip_address host)"
    have pure: "set_sock_addr (getaddrinfo db m1 m2 m3) host s = (0, ?s1, Some ?n)" using g gh Some by (simp add: set_sock_addr_def)
    note read = set_sock_addr_read [OF gh(2) l, of name]
    show ?thesis
    proof (cases "malloc (dom h1)")
      case None
      have "finite (dom h) \<longrightarrow> out_of_memory malloc" using out_of_memoryI [of malloc h1, OF None] ai_list_finite [OF l] by blast
      moreover have "set_sock_addr_h malloc db host s name h = Some (if name then Stops (Exit 128) else Ok (0, ?s1, None, h))"
        using read None freeaddrinfo_frees [OF l] by (simp add: copy_name_def xstrdup_def)
      ultimately show ?thesis using mem pure by (intro exI [of _ "if name then Stops (Exit 128) else Ok (0, ?s1, None, h)"] exI [of _ m1] exI [of _ m2] exI [of _ m3]) auto
    next
      case (Some c)
      then have c: "h1 c = None" using fresh_dom [OF fm] by blast
      then have "h c = None" using ai_list_dom [OF l] by (auto simp: dom_def)
      moreover have "set_sock_addr_h malloc db host s name h =
          Some (if name then Ok (0, ?s1, Some c, h(c \<mapsto> Name ?n)) else Ok (0, ?s1, None, h))"
        using read Some freeaddrinfo_frees [OF l] freeaddrinfo_beside [OF l c] by (simp add: copy_name_def xstrdup_def)
      ultimately show ?thesis using mem pure
        by (intro exI [of _ "if name then Ok (0, ?s1, Some c, h(c \<mapsto> Name ?n)) else Ok (0, ?s1, None, h)"] exI [of _ m1] exI [of _ m2] exI [of _ m3]) auto
    qed
  qed
qed

text \<open>A host with an IPv4 address, resolved in a store of four addresses; the name is wanted.\<close>

definition ex_host :: hostent where
  "ex_host = \<lparr>h_name = Some ''h'', h_addrtype = AF_INET, h_length = 4, h_addr4 = 1, h_addr6 = 0\<rparr>"

lemma ex_resolve:
  "set_sock_addr_h ex_malloc (\<lambda>_. Some ex_host) ''a'' (zero_addr AF_INET) True Map.empty =
     Some (Ok (0, (zero_addr AF_INET)\<lparr>sin_addr := 1\<rparr>, Some 4, [4 \<mapsto> Name ''h'']))"
proof -
  have "getaddrinfo_h ex_malloc (\<lambda>_. Some ex_host) n AF_INET Map.empty = Ok (0, Some 1,
      [2 \<mapsto> Sa ((zero_addr AF_INET)\<lparr>sin_addr := 1\<rparr>), 3 \<mapsto> Name ''h'',
       1 \<mapsto> Ai \<lparr>an_family = AF_INET, an_addr = Some 2, an_canonname = Some 3, an_next = None\<rparr>])" for n
    by (auto simp: getaddrinfo_h_def ex_host_def ex_malloc_def set_canonname_def host_addr_def Let_def)
  then show ?thesis
    by (auto simp: set_sock_addr_h_def zero_addr_def copy_name_def xstrdup_def ex_malloc_def freeaddrinfo.simps
      free_addrinfo_def free_opt_def free_cell_def)
qed

theorem set_sock_addr_no_leak_witness:
  "\<exists>m1 m2 m3 n0. set_sock_addr (getaddrinfo (\<lambda>_. Some ex_host) m1 m2 m3) ''a'' (zero_addr AF_INET) =
     (0, (zero_addr AF_INET)\<lparr>sin_addr := 1\<rparr>, n0) \<and> [4 :: nat \<mapsto> Name ''h''] = [4 \<mapsto> Name (the n0)]"
  using set_sock_addr_no_leak [OF ex_malloc_fresh, of "\<lambda>_. Some ex_host" "''a''" "zero_addr AF_INET" True Map.empty]
  unfolding ex_resolve by (auto simp del: fun_upd_apply)

end
