(* ===== verification/Spec2Isabelle.thy ===== *)
theory Spec2Isabelle
  imports Program GuiMain Lock RuleHeap AddrHeap
begin

text \<open>
  Verification of woo-tftpd: a TFTP server (\<open>src/woo-tftpd-server\<close>, derived from tftp-hpa) and
  a Qt monitor (\<open>src/woo-tftpd-gui\<close>) that share a memory segment of five operation slots.

  \<^bold>\<open>The program.\<close> \<open>main\<close> reads the options, opens the listening sockets and loops; every
  datagram is handed to a forked child. The child attaches to the monitor's segment and takes a
  slot, gives up its privileges, binds a port, and calls \<open>tftp\<close>, which parses the request in
  place, rewrites the file name by the rules of a map file, checks access, negotiates options,
  and runs the transfer (\<open>tftp_sendfile\<close> or \<open>tftp_recvfile\<close>) over two file buffers with
  netascii conversion. The monitor visits the slots ten times a second, declares operations
  timed out, removes finished ones and displays the rest; with nothing to show it sleeps until a
  server process signals it. A semaphore guards the taking and the removal of slots.

  \<^bold>\<open>Theories\<close>, from the bottom:
  \<^item> \<open>Prelude\<close>: word types, packet buffers, big-endian fields, list lemmas, the collection
    \<open>tftp_simps\<close>; \<open>CLib\<close>: the C library functions used (character classes, \<open>strtoumax\<close>, decimal
    output) and open files with read errors and a full device.
  \<^item> \<open>BlockIfc\<close>: the interface of block-wise file access as a locale, \<open>TftpSubs\<close>: its
    implementation (\<open>common/tftpsubs.c\<close>), both buffers and the conversion state.
  \<^item> \<open>WooData\<close>: the segment and the server's calls on it (\<open>common.h\<close>, \<open>data.h\<close>, \<open>data.c\<close>); all
    setters are instances of one locale \<open>slot_call\<close>.
  \<^item> \<open>Options\<close>: option handlers and \<open>do_opt\<close>; the handlers interpret the locale \<open>opt_handler\<close>.
  \<^item> \<open>Remap\<close>: \<open>tftpd/remap.c\<close>, tokenizer, rule parser, substitution and interpreter; the regex
    library is a parameter, and the interpreter may loop, which is \<open>None\<close>.
  \<^item> \<open>Access\<close>: macros, \<open>rewrite_access\<close>, \<open>validate_access\<close>.
  \<^item> \<open>Session\<close>: \<open>send\<close>, \<open>nak\<close>, \<open>timer\<close>, \<open>recv_time\<close> over an explicit network, and the locale
    \<open>exchange\<close> for the send-and-wait loop that the handlers share; \<open>SendFile\<close>, \<open>RecvFile\<close>: the
    transfer handlers, which interpret it; \<open>Request\<close>: \<open>tftp\<close> and a reference semantics of
    requests.
  \<^item> \<open>NetAddr\<close>: socket addresses, port ranges, numeric addresses, \<open>set_sock_addr\<close> over the locale
    \<open>resolver\<close> (interpreted on \<open>lib/getaddrinfo.c\<close>), \<open>synchnet\<close>, \<open>tftpd/recvfrom.c\<close>,
    \<open>lib/inet_ntop.c\<close>.
  \<^item> \<open>Getopt\<close>: \<open>lib/getopt_long.c\<close>; \<open>Cmdline\<close>: the options of \<open>main\<close>; \<open>Process\<close>: descriptors, signal
    actions and the helpers on them (\<open>lib/dup2.c\<close>, \<open>lib/daemon.c\<close>, \<open>lib/bsdsignal.c\<close>,
    \<open>tftpd/misc.c\<close>, \<open>lib/xmalloc.c\<close>, \<open>lib/xstrdup.c\<close>), with a locale for \<open>dup2\<close>; \<open>Listen\<close>: the
    listening sockets, going into the background, signals; \<open>Server\<close>: the loop; \<open>Child\<close>: the child
    process; \<open>Program\<close>: all of \<open>main\<close>, with a locale for \<open>daemon\<close>.
  \<^item> \<open>Store\<close>: an explicit store with faults; \<open>RuleHeap\<close>: the linked list of rules on it, built and
    freed, which refines the lists of \<open>Remap\<close>; \<open>AddrHeap\<close>: what \<open>getaddrinfo\<close> allocates and
    \<open>freeaddrinfo\<close> releases, which refines \<open>NetAddr\<close>.
  \<^item> \<open>WooGui\<close>: life of the segment, the periodic visit, and monitor and servers together as a
    step relation; \<open>Table\<close>: an abstract table of slots and the locale \<open>table_impl\<close> of the systems that
    refine it, interpreted on that relation; \<open>Lock\<close>: the same with every memory access a step, the
    other interpretation; \<open>GuiView\<close>: what the monitor displays; \<open>GuiMain\<close>: \<open>main.cxx\<close>, the
    start of the monitor, its sleep and its wake-up.

  \<^bold>\<open>State and errors.\<close> Structures and groups of globals are records, passed and returned;
  errors, exits, memory faults and endless loops are values. Pointers into the packet buffer are
  offsets; a \<open>siglongjmp\<close> is a branch. Integers keep their width where the code can overflow
  (option values, block numbers, the 8-bit operation counter, ports); an \<open>int\<close> that stays small is
  \<open>int\<close>. System calls answer from records given as arguments: every theorem holds for all their
  answers unless a hypothesis restricts them.

  \<^bold>\<open>What is shown.\<close> Transfers: whatever the network does, a read request sends the blocks of the
  file in order; a write request stores the concatenation of consecutive blocks, if no datagram is
  shorter than a header; two servers copy a file; a silent client ends the transfer after six
  attempts. Requests: parsing in place refines a reference semantics; granted requests obey the
  access policy, and what the name checks let pass is stated exactly. Negotiation keeps the
  parameters in range and replies with what was granted, and the command line establishes that
  range. Remapping with the program's macros does not fault and ends under stated conditions on the
  rules. Neither reading the map file again any number of times nor resolving a name leaks memory
  or touches memory it should not. The program gets from its command line to a loop with bound
  sockets, sane settings and the right signal handlers, or exits with a code; it loses no request,
  processes none with privileges, and serves read and write requests from the command line to the
  last packet. Where the code does not do what it means to, a lemma shows the behaviour (the
  overflow of the slot's file name, the damaged OACK, two-byte datagrams taken for blocks, endless
  global rules, directory checks that can be passed, the descriptor \<open>woo_free\<close> forgets, the
  counter that drifts, and others).

  \<^bold>\<open>Conditions on the shared segment.\<close> Three things can happen to the segment that the code does not
  guard against: the monitor times out an operation whose process still runs, a signal interrupts
  \<open>sem_wait\<close>, and a process dies while it has the semaphore. In \<open>Lock\<close> they are events of their own.
  Mutual exclusion and progress hold without the last two; that the counter is right, that a slot has
  one owner and that the segment refines a table of slots hold without any of the three; \<open>sys_step\<close>
  of \<open>WooGui\<close>, where calls are atomic, has no time-out of a running process. \<open>GuiMain\<close> labels these
  time-outs: a sleeping monitor wakes for every operation in the table in runs without them, and
  whenever the counter is not 0 in all runs. What happens otherwise is shown by
  \<open>interrupt_breaks_exclusion\<close>, \<open>crash_blocks\<close> and \<open>counter_underflow\<close>. What the window shows of a segment
  does not depend on any of this.

  \<^bold>\<open>Bounds.\<close> The network of a transfer is a finite list of what each receive call sees; an
  exhausted list is the outcome \<open>Blocked\<close>, the handler still waits. The interpreter of rules has
  the step limit of the code. No other fuel is used: loops are recursive functions with a
  termination proof or partial functions with a proof that they return.

  \<^bold>\<open>Idealised.\<close> A \<open>read\<close> of a regular file is short only at its end (\<open>CLib\<close>). Cells of the store have no
  size (\<open>Store\<close>, \<open>AddrHeap\<close>). A received datagram is what the kernel left in the buffer (\<open>NetAddr\<close>,
  \<open>Session\<close>). \<open>SIGUSR1\<close> goes to the thread of the monitor that blocks it and waits for it (\<open>GuiMain\<close>). One
  update of the window, and in \<open>WooGui\<close> one visit of a slot, reads one state of the segment; \<open>Lock\<close> has the
  accesses one by one.

  \<^bold>\<open>Not modelled.\<close> Logging, the socket option \<open>IPV6_V6ONLY\<close>, TCP wrappers and Cygwin branches (not
  compiled in), the preprocessor configuration, and what only Qt sees of the monitor (layouts, style
  sheets, painting, the event loop itself).
\<close>

section \<open>Properties that span components\<close>

text \<open>
  C1. Two servers talking to each other copy a file. Let the sender read a file and the
  receiver write an empty one, with the same block size, rollover and mode, and let every
  \<open>send\<close> work. There is a sequence \<open>pk\<close> of packets such that the sender, given the
  acknowledgements of \<open>pk\<close>, finishes and has sent exactly \<open>pk\<close>; the receiver, given \<open>pk\<close>,
  has sent the initial acknowledgement and exactly those acknowledgements, and exits after
  the final wait; and the file written is the file read, in octet and in netascii mode.
\<close>

theorem transfer_roundtrip:
  assumes "\<forall>k. send_ok E k" and "0 < n" and "n \<le> MAX_SEGSIZE"
    and "segsize (xopts x) = int n" and "segsize (xopts y) = int n"
    and "rollover_val (xopts x) = rollover_val (xopts y)"
    and "frderr (xfile x) = None"
    and "fdata (xfile y) = []" and "fpos (xfile y) = 0" and "fspace (xfile y) = None"
  shows "\<exists>pk x' y'.
    tftp_sendfile E convert None (map deliver (map ack_packet pk)) x = (Finished, x') \<and>
    sent x' = sent x @ pk \<and>
    tftp_recvfile E convert None (map deliver pk @ [silence]) y = (Exited 0, y') \<and>
    sent y' = sent y @ (be16 ACK @ be16 0) # map ack_packet pk \<and>
    fdata (xfile y') = frest (xfile x)"
proof -
  let ?s = "mode_enc convert (frest (xfile x))"
  let ?pk = "data_packets (rollover_val (xopts x)) 1 (chunks n ?s)"
  have a: "map ack_for ?pk = map deliver (map ack_packet ?pk)" by (simp add: ack_for_def)
  obtain x' where "tftp_sendfile E convert None (map deliver (map ack_packet ?pk)) x = (Finished, x')"
    "sent x' = sent x @ ?pk"
    using tftp_sendfile_completes [OF assms(1,7,4,2) refl, of convert None] unfolding a
    by (auto simp: oack_replies_def oack_packets_def)
  moreover obtain y' where "tftp_recvfile E convert None (map deliver ?pk @ [silence]) y = (Exited 0, y')"
    "sent y' = sent y @ (be16 ACK @ be16 0) # map ack_packet ?pk" "fdata (xfile y') = mode_dec convert ?s"
    using tftp_recvfile_completes [OF assms(1-3,5,8-10), of ?pk ?s convert None] assms(6) by auto
  ultimately show ?thesis unfolding mode_dec_enc by blast
qed

theorem transfer_roundtrip_witness:
  "\<exists>pk x' y'.
    tftp_sendfile ex_net True None (map deliver (map ack_packet pk)) (ex_xfer (reading [CHR ''a'', LF])) = (Finished, x') \<and>
    sent x' = pk \<and>
    tftp_recvfile ex_net True None (map deliver pk @ [silence]) (ex_xfer writing) = (Exited 0, y') \<and>
    fdata (xfile y') = [CHR ''a'', LF]"
  using transfer_roundtrip [of ex_net 512 "ex_xfer (reading [CHR ''a'', LF])" "ex_xfer writing" True]
  by (auto simp: reading_def writing_def frest_def)

text \<open>
  C2. From the command line to the file. Let \<open>main\<close> bring up a standalone server without a map
  file. After any history of datagrams, interruptions and empty waits, a read request comes
  in, with any options, for a file that the access policy grants, \<open>fork\<close> and the system calls
  of the child work, and negotiation accepts the options. Then every earlier datagram and
  this one have got a child; the child of this one runs as the configured user; and if the network works
  and the client acknowledges, the child finishes, having sent exactly the option
  acknowledgement, which lists accepted options in the order of the request (no packet if there
  are none), and the DATA packets of the file in the mode and block size agreed on, whose
  contents convert back to the file.
\<close>

theorem program_serves_read:
  assumes boot: "main_boot regcomp senv lenv dm argv p tab um = Some (Inr r)" and cf: "cf = b_cfg (r_boot r)"
    and "standalone cf" and "rewrite_file cf = None" and "\<forall>i \<in> set its. calm regcomp cf s i"
    and "list_all2 (event_of s) its evs" and "calm regcomp cf s it"
    and "event_of s it (Some (encode_request RRQ filename mode ps, from))"
    and "length (encode_request RRQ filename mode ps) \<le> PKTSIZE" and "wf_arg filename" and "wf_arg mode" and "wf_opts ps"
    and "map_of formats (map tolower mode) = Some convert"
    and "child_ready cf env" and "\<forall>a. e_bind env a = None"
    and "woo_init (e_woo env) (xwoo x0) (xshm x0) = (c, w, m)"
    and "woo_set_ip_port_from_socket_id w m (e_peer_ip env) (e_peer_port env) = Inr (c', m1)"
    and va: "validate_access (c_access cf) opn True convert filename w m1 (c_opts cf) = Inr (Acc_ok f, m2, g)"
    and neg: "run_opts (c_table cf) ps (oack_start x0) g = Inr (a, g')"
    and "\<forall>k. send_ok E k" and "frderr f = None"
    and pk: "pk = data_packets (rollover_val g') 1 (chunks (nat (segsize g')) (mode_enc convert (frest f)))"
  shows "\<exists>chs ch st' res x' gs. serve regcomp cf s (its @ [it]) (r_state r) = (chs @ [ch], None, st') \<and>
      length chs = length (filter (\<lambda>e. e \<noteq> None) evs) \<and> ch_from ch = from \<and>
      res = child_main regexec ntop opn E (oack_replies (oack_len a) @ map ack_for pk) cf (r_pw r) env ch x0 cr \<and>
      euid (res_cred res) = fst (r_pw r) \<and> egid (res_cred res) = snd (r_pw r) \<and> getpwnam senv (user cf) = Some (r_pw r) \<and>
      res_out res = Ch_tftp (Some (Finished, x')) \<and> fclosed x' \<and>
      sent x' = sent x0 @ (if gs = [] then [] else [be16 OACK @ enc_opts gs]) @ pk \<and>
      subseq (map fst gs) (map fst ps) \<and> mode_dec convert (concat (map (drop 4) pk)) = frest f"
proof -
  let ?cs = "oack_replies (oack_len a) @ map ack_for pk" and ?sz = "length (encode_request RRQ filename mode ps)"
  obtain chs ch st' my rw where srv: "serve regcomp cf s (its @ [it]) (r_state r) = (chs @ [ch], None, st')"
    "length chs = length (filter (\<lambda>e. e \<noteq> None) evs)" "ch_from ch = from"
    and run: "child_main regexec ntop opn E ?cs cf (r_pw r) env ch x0 cr =
      \<lparr>res_out = Ch_tftp (tftp (c_table cf) E rw (validate_access (c_access cf) opn) ?cs ?sz (child_xfer cf ch w m1 x0)),
       res_cred = child_cred cf (r_pw r) cr, res_addr = my,
       res_shm = m1, res_so = pmtu_discovery_off (e_socket env) (\<lambda>_. new_sockopts)\<rparr>"
    and rw: "\<forall>b. rw filename b = Some (Rw_ok filename)"
    and buf: "buf_read (xbuf (child_xfer cf ch w m1 x0)) 0 ?sz = encode_request RRQ filename mode ps"
    by (rule program_request [where regexec = regexec and ntop = ntop and opn = opn and E = E and cr = cr and cs = ?cs,
      OF boot cf assms(3-8) disjI1 assms(14-17), OF refl]) (rule that; assumption)
  let ?x = "child_xfer cf ch w m1 x0" and ?child = "child_main regexec ntop opn E ?cs cf (r_pw r) env ch x0 cr"
  note b = main_boot_config [OF boot, folded cf]
  have n: "0 < nat (segsize g')" "segsize g' = int (nat (segsize g'))" using negotiated_segsize [OF _ va neg] b by simp_all
  have xs: "xwoo ?x = w" "xshm ?x = m1" "xopts ?x = c_opts cf" "xack ?x = xack x0" "sent ?x = sent x0" by (simp_all add: child_xfer_def)
  have va': "validate_access (c_access cf) opn True convert filename (xwoo ?x) (xshm ?x) (xopts ?x) = Inr (Acc_ok f, m2, g)"
    and neg': "run_opts (c_table cf) ps (oack_start ?x) g = Inr (a, g')"
    using va neg by (simp_all add: xs)
  obtain gs where gs: "buf_read (ackbuf a) 0 (ap a) = be16 OACK @ enc_opts gs" "subseq (map fst gs) (map fst ps)"
    "oack_len a = None \<longleftrightarrow> gs = []" using oack_start_packet [OF neg] by (elim exE conjE) (rule that)
  obtain x' where x': "tftp (c_table cf) E rw (validate_access (c_access cf) opn) ?cs ?sz ?x = Some (Finished, x')"
    "sent x' = sent x0 @ (if gs = [] then [] else [be16 OACK @ enc_opts gs]) @ pk" "fclosed x'"
    using read_request_serves [where rw = rw and va = "validate_access (c_access cf) opn", OF buf assms(9-13) rw [rule_format] va' neg' assms(20, 21) n(2, 1) pk refl] gs(1, 3) xs(5) by auto
  have "mode_dec convert (concat (map (drop 4) pk)) = frest f" by (simp add: pk payloads_data_packets)
  moreover have "euid (res_cred ?child) = fst (r_pw r)" "egid (res_cred ?child) = snd (r_pw r)" by (simp_all add: run child_cred_def)
  moreover have "res_out ?child = Ch_tftp (Some (Finished, x'))" using run x'(1) by simp
  ultimately show ?thesis using srv x'(2, 3) gs(2) b by blast
qed

theorem program_serves_read_witness:
  "\<exists>r chs ch st' x' gs. ex_boot = Some (Inr r) \<and>
     serve (\<lambda>_ _. None) ex_config (b_socks (r_boot r)) [ex_recv ''x'', ex_recv (encode_request RRQ ''/tftpboot/abc'' ''Octet'' [(''timeout'', ''3'')])]
       (r_state r) = (chs @ [ch], None, st') \<and>
     (\<exists>cs. res_out (child_main (\<lambda>_ _. Rx_nomatch) (\<lambda>_. None) ex_open ex_net cs ex_config (65534, 65534) ex_child_env ch
       (ex_xfer writing) ex_root) = Ch_tftp (Some (Finished, x'))) \<and>
     sent x' = (if gs = [] then [] else [be16 OACK @ enc_opts gs]) @ data_packets 0 1 (chunks 512 ''abc'')"
proof -
  let ?ps = "[(''timeout'', ''3'')]" and ?x = "''x''"
  let ?rq = "encode_request RRQ ''/tftpboot/abc'' ''Octet'' ?ps"
  obtain r where r: "ex_boot = Some (Inr r)" "b_cfg (r_boot r) = ex_config" "fd4 (b_socks (r_boot r)) = 3" "r_pw r = (65534, 65534)"
    using ex_boot_runs by blast
  let ?s = "b_socks (r_boot r)"
  have sa: "standalone ex_config" "rewrite_file ex_config = None" by (simp_all add: config_start_def)
  have h: "\<forall>i \<in> set [ex_recv ?x]. calm (\<lambda>_ _. None :: unit option) ex_config ?s i" "list_all2 (event_of ?s) [ex_recv ?x] [Some (?x, ex_peer)]"
    "event_of ?s (ex_recv ?rq) (Some (?rq, ex_peer))"
    using r(3) by (simp_all add: ex_recv_calm ex_recv_event)
  have wf: "length ?rq \<le> PKTSIZE" "wf_opts ?ps" by (simp_all add: encode_request_def enc_opts_def wf_opts_def wf_arg_def)
  obtain m2 where v: "validate_access (c_access ex_config) ex_open True False ''/tftpboot/abc'' ex_child_woo ex_shm (c_opts ex_config)
      = Inr (Acc_ok (reading ''abc''), m2, init_opts\<lparr>tsize := 3, tsize_ok := True\<rparr>)"
    using ex_granted_any [OF ex_name_ok, of ex_child_woo ex_shm] by (auto simp: config_start_def)
  obtain a g' where neg: "run_opts (c_table ex_config) ?ps (oack_start (ex_xfer writing)) (init_opts\<lparr>tsize := 3, tsize_ok := True\<rparr>) = Inr (a, g')"
    "segsize g' = 512" "rollover_val g' = 0" using ex_timeout_option by blast
  have io: "\<forall>k. send_ok ex_net k" "frderr (reading ''abc'') = None" by (simp_all add: reading_def)
  have pk: "data_packets 0 1 (chunks 512 ''abc'') =
      data_packets (rollover_val g') 1 (chunks (nat (segsize g')) (mode_enc False (frest (reading ''abc''))))"
    using neg by (simp add: mode_enc_def frest_def reading_def)
  from program_serves_read [where regexec = "\<lambda>_ _. Rx_nomatch" and ntop = "\<lambda>_. None" and cr = ex_root,
      OF r(1) r(2) [symmetric] sa h(1, 2) ex_recv_calm h(3) wf(1) ex_req_facts(3, 4) wf(2) ex_req_facts(6) ex_child_start v neg(1) io pk]
  show ?thesis using r(1, 4) by (fastforce simp: ex_xfer_simps)
qed

text \<open>
  C3. From the command line to the stored file. In the same situation a write request is
  served: the child finishes with exit code 0, having replied with the option
  acknowledgement (or an acknowledgement of block 0 if no option was accepted) and then
  acknowledged every DATA packet of the client, and the file it has closed holds exactly the
  converted data of those packets.
\<close>

theorem program_serves_write:
  assumes boot: "main_boot regcomp senv lenv dm argv p tab um = Some (Inr r)" and cf: "cf = b_cfg (r_boot r)"
    and "standalone cf" and "rewrite_file cf = None" and "\<forall>i \<in> set its. calm regcomp cf s i"
    and "list_all2 (event_of s) its evs" and "calm regcomp cf s it"
    and "event_of s it (Some (encode_request WRQ filename mode ps, from))"
    and "length (encode_request WRQ filename mode ps) \<le> PKTSIZE" and "wf_arg filename" and "wf_arg mode" and "wf_opts ps"
    and "map_of formats (map tolower mode) = Some convert"
    and "child_ready cf env" and "\<forall>a. e_bind env a = None"
    and "woo_init (e_woo env) (xwoo x0) (xshm x0) = (c, w, m)"
    and "woo_set_ip_port_from_socket_id w m (e_peer_ip env) (e_peer_port env) = Inr (c', m1)"
    and va: "validate_access (c_access cf) opn False convert filename w m1 (c_opts cf) = Inr (Acc_ok f, m2, g)"
    and neg: "run_opts (c_table cf) ps (oack_start x0) g = Inr (a, g')"
    and "\<forall>k. send_ok E k" and "fspace f = None"
    and pk: "pk = data_packets (rollover_val g') 1 (chunks (nat (segsize g')) d)"
  shows "\<exists>chs ch st' res x' gs. serve regcomp cf s (its @ [it]) (r_state r) = (chs @ [ch], None, st') \<and>
      length chs = length (filter (\<lambda>e. e \<noteq> None) evs) \<and> ch_from ch = from \<and>
      res = child_main regexec ntop opn E (map deliver pk @ [silence]) cf (r_pw r) env ch x0 cr \<and>
      euid (res_cred res) = fst (r_pw r) \<and> egid (res_cred res) = snd (r_pw r) \<and> getpwnam senv (user cf) = Some (r_pw r) \<and>
      res_out res = Ch_tftp (Some (Exited 0, x')) \<and> fclosed x' \<and>
      sent x' = sent x0 @ (if gs = [] then be16 ACK @ be16 0 else be16 OACK @ enc_opts gs) # map ack_packet pk \<and>
      subseq (map fst gs) (map fst ps) \<and> fdata (xfile x') = mode_dec convert d"
proof -
  let ?cs = "map deliver pk @ [silence]" and ?sz = "length (encode_request WRQ filename mode ps)"
  obtain chs ch st' my rw where srv: "serve regcomp cf s (its @ [it]) (r_state r) = (chs @ [ch], None, st')"
    "length chs = length (filter (\<lambda>e. e \<noteq> None) evs)" "ch_from ch = from"
    and run: "child_main regexec ntop opn E ?cs cf (r_pw r) env ch x0 cr =
      \<lparr>res_out = Ch_tftp (tftp (c_table cf) E rw (validate_access (c_access cf) opn) ?cs ?sz (child_xfer cf ch w m1 x0)),
       res_cred = child_cred cf (r_pw r) cr, res_addr = my,
       res_shm = m1, res_so = pmtu_discovery_off (e_socket env) (\<lambda>_. new_sockopts)\<rparr>"
    and rw: "\<forall>b. rw filename b = Some (Rw_ok filename)"
    and buf: "buf_read (xbuf (child_xfer cf ch w m1 x0)) 0 ?sz = encode_request WRQ filename mode ps"
    by (rule program_request [where regexec = regexec and ntop = ntop and opn = opn and E = E and cr = cr and cs = ?cs,
      OF boot cf assms(3-8) disjI2 assms(14-17), OF refl]) (rule that; assumption)
  let ?x = "child_xfer cf ch w m1 x0" and ?child = "child_main regexec ntop opn E ?cs cf (r_pw r) env ch x0 cr"
  note b = main_boot_config [OF boot, folded cf]
  have n: "0 < nat (segsize g')" "nat (segsize g') \<le> MAX_SEGSIZE" "segsize g' = int (nat (segsize g'))" using negotiated_segsize [OF _ va neg] b by simp_all
  have xs: "xwoo ?x = w" "xshm ?x = m1" "xopts ?x = c_opts cf" "xack ?x = xack x0" "sent ?x = sent x0" by (simp_all add: child_xfer_def)
  have va': "validate_access (c_access cf) opn False convert filename (xwoo ?x) (xshm ?x) (xopts ?x) = Inr (Acc_ok f, m2, g)"
    and neg': "run_opts (c_table cf) ps (oack_start ?x) g = Inr (a, g')"
    using va neg by (simp_all add: xs)
  have new: "fdata f = []" "fpos f = 0" using validate_access_opts [OF va] by simp_all
  obtain gs where gs: "buf_read (ackbuf a) 0 (ap a) = be16 OACK @ enc_opts gs" "subseq (map fst gs) (map fst ps)"
    "oack_len a = None \<longleftrightarrow> gs = []" using oack_start_packet [OF neg] by (elim exE conjE) (rule that)
  obtain x' where x': "tftp (c_table cf) E rw (validate_access (c_access cf) opn) ?cs ?sz ?x = Some (Exited 0, x')"
    "sent x' = sent x0 @ (if gs = [] then be16 ACK @ be16 0 else be16 OACK @ enc_opts gs) # map ack_packet pk" "fclosed x'"
    "fdata (xfile x') = mode_dec convert d"
    using write_request_serves [where rw = rw and va = "validate_access (c_access cf) opn",
        OF buf assms(9-13) rw [rule_format] va' neg' assms(20) new assms(21) n(3, 1, 2) pk refl] gs(1, 3) xs(5) by auto
  have "euid (res_cred ?child) = fst (r_pw r)" "egid (res_cred ?child) = snd (r_pw r)" by (simp_all add: run child_cred_def)
  moreover have "res_out ?child = Ch_tftp (Some (Exited 0, x'))" using run x'(1) by simp
  ultimately show ?thesis using srv x'(2-4) gs(2) b by blast
qed

theorem program_serves_write_witness:
  "\<exists>r (ch :: unit child) x'. ex_boot = Some (Inr r) \<and>
     res_out (child_main (\<lambda>_ _. Rx_nomatch) (\<lambda>_. None) ex_open_write ex_net
       (map deliver (data_packets 0 1 (chunks 512 ''abc'')) @ [silence]) ex_config (65534, 65534) ex_child_env ch
       (ex_xfer writing) ex_root) = Ch_tftp (Some (Exited 0, x')) \<and> fdata (xfile x') = ''abc''"
proof -
  let ?rq = "encode_request WRQ ''/tftpboot/abc'' ''Octet'' []"
  obtain r where r: "ex_boot = Some (Inr r)" "b_cfg (r_boot r) = ex_config" "fd4 (b_socks (r_boot r)) = 3" "r_pw r = (65534, 65534)"
    using ex_boot_runs by blast
  let ?s = "b_socks (r_boot r)"
  have sa: "standalone ex_config" "rewrite_file ex_config = None" by (simp_all add: config_start_def)
  have h: "\<forall>i \<in> set []. calm (\<lambda>_ _. None :: unit option) ex_config ?s i" "list_all2 (event_of ?s) [] []"
    "event_of ?s (ex_recv ?rq) (Some (?rq, ex_peer))"
    using r(3) by (simp_all add: ex_recv_event)
  have wf: "length ?rq \<le> PKTSIZE" by (simp add: encode_request_def enc_opts_def)
  obtain m2 where v: "validate_access (c_access ex_config) ex_open_write False False ''/tftpboot/abc'' ex_child_woo ex_shm (c_opts ex_config)
      = Inr (Acc_ok (writing\<lparr>fdata := [], fpos := 0\<rparr>), m2, init_opts\<lparr>tsize := 0, tsize_ok := True\<rparr>)"
    using ex_write_granted by (auto simp: config_start_def)
  let ?g = "init_opts\<lparr>tsize := 0, tsize_ok := True\<rparr>"
  have neg: "run_opts (c_table ex_config) [] (oack_start (ex_xfer writing)) ?g = Inr (oack_start (ex_xfer writing), ?g)" by simp
  have io: "\<forall>k. send_ok ex_net k" "fspace (writing\<lparr>fdata := [], fpos := 0\<rparr>) = None" by (simp_all add: writing_def)
  have pk: "data_packets 0 1 (chunks 512 ''abc'') = data_packets (rollover_val ?g) 1 (chunks (nat (segsize ?g)) ''abc'')" by simp
  from program_serves_write [where regexec = "\<lambda>_ _. Rx_nomatch" and ntop = "\<lambda>_. None" and cr = ex_root,
      OF r(1) r(2) [symmetric] sa h(1, 2) ex_recv_calm h(3) wf ex_req_facts(3-6) ex_child_start v neg io pk]
  show ?thesis using r(1, 4) by (fastforce simp: mode_dec_def)
qed

text \<open>
  C9. Server processes and monitor refine a table of five slots, as long as the monitor does not time
  out the operation of a process that is still running, no \<open>sem_wait\<close> is interrupted and no process
  dies while it has the lock (\<open>sys_step\<close> has no time-out of a running process, \<open>lock_run {Plain}\<close>
  none of the three; the code checks for none of them). Both models of the shared segment
  start from the segment as the monitor has reset it: in one the calls of \<open>data.c\<close> and the visits
  of the monitor are steps, in the other every memory access is, with the lock taken and given
  back. Under these conditions, whatever the interleaving, both only do what the table allows: take the
  first free slot, end one's own operation or die, time out a running slot nobody owns, remove an
  ended slot nobody owns. So a slot that has an owner is running, and at most five slots have one.
\<close>

theorem segment_refines_table:
  assumes "length (operations m) = WOOTFTPD_MAX_NBOP" and "mem l0 = shmem_of (gui_reset pid m)"
    and "\<And>i. alloc_pc l0 i = A_wait" and "remove_pc l0 = R_idle" and "dated l0 = {}"
    and "lock_run {Plain} l0 l" and "(sys_step et)\<^sup>*\<^sup>* (sys_start pid m) s" and "t = lock_table l \<or> t = sys_table s"
  shows "table_step\<^sup>*\<^sup>* empty_table t \<and> (\<forall>x \<in> tb_owned t. tb_slot t x = Running) \<and> card (tb_owned t) \<le> WOOTFTPD_MAX_NBOP"
proof -
  note l0 = reset_lock_start [OF assms(1-5)] and si = sys_start_inv [OF assms(1)]
  have li: "lock_inv l0" using lock_start_inv [OF l0(1)] .
  note run = assms(6) [unfolded lock_run_plain]
  have "table_step\<^sup>*\<^sup>* empty_table t"
    using assms(8) accesses.run_simulates [OF run li] calls.run_simulates [OF assms(7) si] l0(2)
      sys_table_start [OF assms(1)] by auto
  moreover have "table_ok t"
    using assms(8) accesses.inv_tab [OF accesses.run_inv [OF run li]] calls.inv_tab [OF calls.run_inv [OF assms(7) si]] by auto
  ultimately show ?thesis using table_ok_card by (simp add: table_ok_def)
qed

text \<open>Process 7 takes slot 0 of a segment that has just been reset.\<close>

definition ex_reset :: lsys where
  "ex_reset = \<lparr>mem = shmem_of (gui_reset 42 ex_shm), alloc_pc = \<lambda>_. A_wait, remove_pc = R_idle, dated = {}\<rparr>"

lemma ex_reset_start:
  "length (operations ex_shm) = WOOTFTPD_MAX_NBOP" "mem ex_reset = shmem_of (gui_reset 42 ex_shm)"
  "alloc_pc ex_reset i = A_wait" "remove_pc ex_reset = R_idle" "dated ex_reset = {}"
  by (simp_all add: ex_reset_def ex_shm_def)

lemma ex_reset_alloc:
  "\<exists>m'. woo_alloc_operation ex_woo (gui_reset 42 ex_shm) = (0, ex_woo\<lparr>opid := 0\<rparr>, m')"
  by (simp add: woo_alloc_operation_def gui_reset_def ex_woo_def ex_shm_def free_slot_def upt_conv_Cons slot_enabled_def
    flag_bit_tests)

lemma ex_reset_taken: "\<exists>l. lock_run {Plain} ex_reset l \<and> tb_owned (lock_table l) = {0}"
proof -
  obtain m' where a: "woo_alloc_operation ex_woo (gui_reset 42 ex_shm) = (0, ex_woo\<lparr>opid := 0\<rparr>, m')" using ex_reset_alloc by blast
  have "length (operations (gui_reset 42 ex_shm)) = WOOTFTPD_MAX_NBOP" "enable ex_woo \<noteq> 0"
    by (simp_all add: gui_reset_def ex_shm_def ex_woo_def)
  from alloc_run_refines [OF this a] obtain n where "alloc_run n (alloc_pc ex_reset 7, mem ex_reset) = (A_done 0 (Some 0), shmem_of m')"
    by (auto simp: ex_reset_def)
  from alloc_run_steps [OF this, folded lock_run_plain] show ?thesis by (intro exI conjI, assumption) (auto simp: lock_table_def ex_reset_def)
qed

theorem segment_refines_table_witness:
  "\<exists>l. lock_run {Plain} ex_reset l \<and> table_step\<^sup>*\<^sup>* empty_table (lock_table l) \<and> tb_slot (lock_table l) 0 = Running"
proof -
  obtain l where l: "lock_run {Plain} ex_reset l" "tb_owned (lock_table l) = {0}" using ex_reset_taken by blast
  from segment_refines_table [OF ex_reset_start l(1) rtranclp.rtrancl_refl disjI1, OF refl] show ?thesis using l by auto
qed

end
